(* ===== verification/Go_Prelude.thy ===== *)
theory Go_Prelude
  imports Main "HOL-Library.Word" "HOL-Library.List_Lexorder" "HOL-Library.Char_ord"
    "HOL-Library.Multiset" "HOL-Library.Code_Target_Numeral"
begin

text \<open>
  The parts of the Go language and of its packages \<^verbatim>\<open>errors\<close>, \<^verbatim>\<open>fmt\<close>, \<^verbatim>\<open>strings\<close> and
  \<^verbatim>\<open>time\<close> that every component uses.

  \<^item> A Go string is a sequence of bytes and is modelled as \<^typ>\<open>string\<close>, whose characters are
    the 256 byte values; the order on strings is the bytewise one of \<^verbatim>\<open>List_Lexorder\<close>.
  \<^item> A non-nil \<^verbatim>\<open>error\<close> is its text together with the sentinel errors that \<^verbatim>\<open>errors.Is\<close> and
    \<^verbatim>\<open>errors.As\<close> find in its chain; a nil error is \<^term>\<open>None\<close>, and a call that returns a value
    or an error returns a sum whose left side is the error.
  \<^item> An instant is a number of nanoseconds since the zero \<^verbatim>\<open>time.Time\<close>, a duration an
    integer in the range of a signed 64-bit word, with the wrap-around of its arithmetic and the
    saturation of \<^verbatim>\<open>Time.Sub\<close> written out.
\<close>

named_theorems go_simps \<open>unfolding rules of the Go vocabulary\<close>

subsection \<open>Errors\<close>

datatype sentinel =
    ErrNotExist
  | ErrExist
  | ENODEV
  | ECONNREFUSED
  | EADDRINUSE
  | ErrInvalidDiskID
  | ErrInvalidDiskPolicy
  | ErrInvalidPoliciesFile
  | ErrFrameTooLarge
  | ErrShortWrite
  | ErrEOF
  | ErrTooLong
  | DeadlineExceeded
  | Canceled
  | ErrNoHBA
  | ErrHBABackendUnavailable
  | ErrControlSocketInUse
  | ErrSyntax
  | ErrRange
  | ExitError int

datatype go_error = GoErr (Error: string) (chain: "sentinel list")

type_synonym 'a result = "go_error + 'a"

definition errors_New :: "string \<Rightarrow> go_error" where
  "errors_New s = GoErr s []"

text \<open>\<^verbatim>\<open>fmt.Errorf("pre%wpost", err)\<close>: the text is composed, the chain is kept.\<close>

definition Errorf_w :: "string \<Rightarrow> go_error \<Rightarrow> string \<Rightarrow> go_error" where
  "Errorf_w pre e post = GoErr (pre @ Error e @ post) (chain e)"

definition errors_Is :: "go_error \<Rightarrow> sentinel \<Rightarrow> bool" where
  "errors_Is e s = (s \<in> set (chain e))"

text \<open>\<^verbatim>\<open>errors.As(err, &exit)\<close> followed by \<^verbatim>\<open>exit.ExitCode()\<close>.\<close>

fun exit_code :: "sentinel list \<Rightarrow> int option" where
  "exit_code [] = None"
| "exit_code (ExitError n # _) = Some n"
| "exit_code (_ # ss) = exit_code ss"

definition errors_As_Exit :: "go_error \<Rightarrow> int option" where
  "errors_As_Exit e = exit_code (chain e)"

fun joinWith :: "string \<Rightarrow> string list \<Rightarrow> string" where
  "joinWith sep [] = []"
| "joinWith sep [s] = s"
| "joinWith sep (s # t # ss) = s @ sep @ joinWith sep (t # ss)"

text \<open>\<^verbatim>\<open>errors.Join\<close> drops nil errors and is nil when nothing is left.\<close>

fun non_nil :: "'a option list \<Rightarrow> 'a list" where
  "non_nil [] = []"
| "non_nil (None # xs) = non_nil xs"
| "non_nil (Some x # xs) = x # non_nil xs"

definition errors_Join :: "go_error option list \<Rightarrow> go_error option" where
  "errors_Join es = (case non_nil es of
      [] \<Rightarrow> None
    | e # rest \<Rightarrow> Some (GoErr (joinWith [CHR 0x0A] (map Error (e # rest)))
                        (concat (map chain (e # rest)))))"

lemma non_nil_Nil_iff [simp]: "non_nil es = [] \<longleftrightarrow> (\<forall>e \<in> set es. e = None)"
  by (induction es rule: non_nil.induct) auto

lemma errors_Join_None_iff [simp]: "errors_Join es = None \<longleftrightarrow> (\<forall>e \<in> set es. e = None)"
proof -
  have "errors_Join es = None \<longleftrightarrow> non_nil es = []"
    by (cases "non_nil es") (simp_all add: errors_Join_def del: non_nil_Nil_iff)
  then show ?thesis by simp
qed

lemma errors_Is_wrap [simp]: "errors_Is (Errorf_w pre e post) s = errors_Is e s"
  by (simp add: errors_Is_def Errorf_w_def)

lemma errors_Is_New [simp]: "\<not> errors_Is (errors_New t) s"
  by (simp add: errors_Is_def errors_New_def)

lemma Error_wrap [simp]: "Error (Errorf_w pre e post) = pre @ Error e @ post"
  by (simp add: Errorf_w_def)

lemma Error_New [simp]: "Error (errors_New t) = t"
  by (simp add: errors_New_def)

lemmas [go_simps] = errors_New_def Errorf_w_def errors_Is_def errors_As_Exit_def

subsection \<open>Fallible calls\<close>

fun result_err :: "'a result \<Rightarrow> go_error option" where
  "result_err (Inl e) = Some e"
| "result_err (Inr _) = None"

lemma result_err_None_iff [simp]: "result_err r = None \<longleftrightarrow> (\<exists>x. r = Inr x)"
  by (cases r) auto

subsection \<open>Strings\<close>

definition HasPrefix :: "string \<Rightarrow> string \<Rightarrow> bool" where
  "HasPrefix s p = (take (length p) s = p)"

definition TrimPrefix :: "string \<Rightarrow> string \<Rightarrow> string" where
  "TrimPrefix s p = (if HasPrefix s p then drop (length p) s else s)"

text \<open>\<^verbatim>\<open>strings.Contains\<close>: some suffix starts with the needle.\<close>

fun Contains :: "string \<Rightarrow> string \<Rightarrow> bool" where
  "Contains [] n = (n = [])"
| "Contains (c # cs) n = (HasPrefix (c # cs) n \<or> Contains cs n)"

text \<open>\<^verbatim>\<open>strings.Trim\<close> with a cutset of ASCII characters.\<close>

definition TrimCut :: "char set \<Rightarrow> string \<Rightarrow> string" where
  "TrimCut cs s = rev (dropWhile (\<lambda>c. c \<in> cs) (rev (dropWhile (\<lambda>c. c \<in> cs) s)))"

lemma HasPrefix_append [simp]: "HasPrefix (p @ s) p"
  by (simp add: HasPrefix_def)

lemma HasPrefix_iff: "HasPrefix s p \<longleftrightarrow> (\<exists>t. s = p @ t)"
proof
  assume "HasPrefix s p"
  then have "s = p @ drop (length p) s"
    unfolding HasPrefix_def by (metis append_take_drop_id)
  then show "\<exists>t. s = p @ t" by blast
qed auto

subsection \<open>Machine integers and time\<close>

text \<open>The value of a signed 64-bit result.\<close>

definition wrap64 :: "int \<Rightarrow> int" where
  "wrap64 x = (x + 2 ^ 63) mod 2 ^ 64 - 2 ^ 63"

definition int64_range :: "int \<Rightarrow> bool" where
  "int64_range x = (- (2 ^ 63) \<le> x \<and> x < 2 ^ 63)"

lemma wrap64_id: "int64_range x \<Longrightarrow> wrap64 x = x"
  by (simp add: wrap64_def int64_range_def)

lemma wrap64_range: "int64_range (wrap64 x)"
proof -
  have "0 \<le> (x + 2 ^ 63) mod 2 ^ 64" and "(x + 2 ^ 63) mod 2 ^ 64 < (2 ^ 64 :: int)"
    by simp_all
  then show ?thesis by (simp add: wrap64_def int64_range_def)
qed

type_synonym duration = int
type_synonym time = int

abbreviation (input) second :: duration where "second \<equiv> 1000000000"

abbreviation (input) time_zero :: time where "time_zero \<equiv> 0"

definition IsZero :: "time \<Rightarrow> bool" where
  "IsZero t = (t = time_zero)"

text \<open>\<^verbatim>\<open>Time.Sub\<close> saturates at the largest and the smallest duration.\<close>

definition time_Sub :: "time \<Rightarrow> time \<Rightarrow> duration" where
  "time_Sub t u = max (- (2 ^ 63)) (min (2 ^ 63 - 1) (t - u))"

definition time_Add :: "time \<Rightarrow> duration \<Rightarrow> time" where
  "time_Add t d = t + d"

definition time_Before :: "time \<Rightarrow> time \<Rightarrow> bool" where
  "time_Before t u = (t < u)"

definition dur_add :: "duration \<Rightarrow> duration \<Rightarrow> duration" where
  "dur_add a b = wrap64 (a + b)"

definition dur_mul :: "duration \<Rightarrow> duration \<Rightarrow> duration" where
  "dur_mul a b = wrap64 (a * b)"

lemmas [go_simps] = IsZero_def time_Add_def time_Before_def

lemma time_Sub_id: "int64_range (t - u) \<Longrightarrow> time_Sub t u = t - u"
  by (simp add: time_Sub_def int64_range_def)

lemma time_Sub_range: "int64_range (time_Sub t u)"
  by (simp add: time_Sub_def int64_range_def)

lemma time_Sub_less_iff: "int64_range d \<Longrightarrow> time_Sub t u < d \<longleftrightarrow> t - u < d \<and> - (2 ^ 63) < d"
  by (auto simp: time_Sub_def int64_range_def)

lemma time_Sub_mono: "t \<le> t' \<Longrightarrow> time_Sub t u \<le> time_Sub t' u"
  by (auto simp: time_Sub_def)

subsection \<open>Loops that stop at the first error\<close>

fun first_some :: "('a \<Rightarrow> 'b option) \<Rightarrow> 'a list \<Rightarrow> 'b option" where
  "first_some f [] = None"
| "first_some f (x # xs) = (case f x of Some y \<Rightarrow> Some y | None \<Rightarrow> first_some f xs)"

lemma first_some_None_iff [simp]: "first_some f xs = None \<longleftrightarrow> (\<forall>x \<in> set xs. f x = None)"
  by (induction xs) (auto split: option.split)

lemma first_some_SomeD: "first_some f xs = Some y \<Longrightarrow> \<exists>x \<in> set xs. f x = Some y"
  by (induction xs) (auto split: option.splits)

lemma find_SomeD: "find p xs = Some x \<Longrightarrow> x \<in> set xs \<and> p x"
  by (induction xs) (auto split: if_splits)

subsection \<open>Invariants of step systems\<close>

text \<open>
  The shape of every state argument of the development: a state type, an initial state, a
  function that performs one event, and a predicate that every event keeps.
\<close>

fun run_events :: "('s \<Rightarrow> 'e \<Rightarrow> 's) \<Rightarrow> 's \<Rightarrow> 'e list \<Rightarrow> 's" where
  "run_events step s [] = s"
| "run_events step s (e # es) = run_events step (step s e) es"

lemma run_events_append [simp]:
  "run_events step s (es @ fs) = run_events step (run_events step s es) fs"
  by (induction es arbitrary: s) auto

locale step_invariant =
  fixes init :: "'s \<Rightarrow> bool"
    and step :: "'s \<Rightarrow> 'e \<Rightarrow> 's"
    and inv :: "'s \<Rightarrow> bool"
  assumes inv_init: "init s \<Longrightarrow> inv s"
    and inv_step: "inv s \<Longrightarrow> inv (step s e)"
begin

lemma inv_run_from: "inv s \<Longrightarrow> inv (run_events step s es)"
  by (induction es arbitrary: s) (auto intro: inv_step)

lemma inv_run: "init s \<Longrightarrow> inv (run_events step s es)"
  by (rule inv_run_from [OF inv_init])

end

text \<open>The same when only some events are possible.\<close>

locale guarded_invariant =
  fixes init :: "'s \<Rightarrow> bool"
    and step :: "'s \<Rightarrow> 'e \<Rightarrow> 's"
    and allowed :: "'e \<Rightarrow> bool"
    and inv :: "'s \<Rightarrow> bool"
  assumes inv_init: "init s \<Longrightarrow> inv s"
    and inv_step: "inv s \<Longrightarrow> allowed e \<Longrightarrow> inv (step s e)"
begin

lemma inv_run_from: "inv s \<Longrightarrow> list_all allowed es \<Longrightarrow> inv (run_events step s es)"
  by (induction es arbitrary: s) (auto intro: inv_step)

lemma inv_run: "init s \<Longrightarrow> list_all allowed es \<Longrightarrow> inv (run_events step s es)"
  by (rule inv_run_from [OF inv_init])

end

sublocale step_invariant \<subseteq> every_event: guarded_invariant init step "\<lambda>_. True" inv
  by unfold_locales (auto intro: inv_init inv_step)

end
