(* ===== verification/Go_Text.thy ===== *)
theory Go_Text
  imports Go_Prelude
begin

text \<open>
  The text packages of the Go library as far as the program uses them: \<^verbatim>\<open>unicode/utf8\<close> decoding
  and encoding, \<^verbatim>\<open>strings.TrimSpace\<close>, \<^verbatim>\<open>strings.Map\<close>, case mapping, \<^verbatim>\<open>strings.EqualFold\<close>,
  \<^verbatim>\<open>encoding/hex\<close> and the integer parsers and printers of \<^verbatim>\<open>strconv\<close>.

  Case mapping is exact on ASCII, on Latin-1 and on the non-ASCII letters with an ASCII
  counterpart (the long s, the Kelvin sign, the dotted and dotless i); other letters, for which
  Go consults its Unicode tables, are left alone. The program compares the results with ASCII
  constants only, and these comparisons are decided exactly. Quoting (\<^verbatim>\<open>%q\<close>) is exact on ASCII,
  on invalid bytes and on Latin-1 and prints every other valid character as it is.
\<close>

abbreviation byte :: "char \<Rightarrow> nat" where "byte c \<equiv> of_char c"

abbreviation chr :: "nat \<Rightarrow> char" where "chr n \<equiv> char_of n"

subsection \<open>UTF-8\<close>

definition cont_byte :: "char \<Rightarrow> bool" where
  "cont_byte c = (0x80 \<le> byte c \<and> byte c \<le> 0xBF)"

abbreviation RuneError :: nat where "RuneError \<equiv> 0xFFFD"

text \<open>
  \<^verbatim>\<open>utf8.DecodeRuneInString\<close>: the first character and its width; an invalid or truncated
  sequence gives \<^term>\<open>RuneError\<close> with width 1. The bounds on the second byte exclude overlong
  encodings, surrogates and values above \<open>0x10FFFF\<close>.
\<close>

definition second_lo :: "nat \<Rightarrow> nat" where
  "second_lo b0 = (if b0 = 0xE0 then 0xA0 else if b0 = 0xF0 then 0x90 else 0x80)"

definition second_hi :: "nat \<Rightarrow> nat" where
  "second_hi b0 = (if b0 = 0xED then 0x9F else if b0 = 0xF4 then 0x8F else 0xBF)"

definition second_ok :: "nat \<Rightarrow> char \<Rightarrow> bool" where
  "second_ok b0 c = (second_lo b0 \<le> byte c \<and> byte c \<le> second_hi b0)"

fun decode_rune :: "string \<Rightarrow> nat \<times> nat" where
  "decode_rune [] = (RuneError, 0)"
| "decode_rune (c0 # rest) =
    (let b0 = byte c0 in
     if b0 < 0x80 then (b0, 1)
     else if 0xC2 \<le> b0 \<and> b0 \<le> 0xDF then
       (case rest of
          c1 # _ \<Rightarrow> if cont_byte c1 then ((b0 - 0xC0) * 64 + (byte c1 - 0x80), 2) else (RuneError, 1)
        | _ \<Rightarrow> (RuneError, 1))
     else if 0xE0 \<le> b0 \<and> b0 \<le> 0xEF then
       (case rest of
          c1 # c2 # _ \<Rightarrow>
            if second_ok b0 c1 \<and> cont_byte c2
            then ((b0 - 0xE0) * 4096 + (byte c1 - 0x80) * 64 + (byte c2 - 0x80), 3)
            else (RuneError, 1)
        | _ \<Rightarrow> (RuneError, 1))
     else if 0xF0 \<le> b0 \<and> b0 \<le> 0xF4 then
       (case rest of
          c1 # c2 # c3 # _ \<Rightarrow>
            if second_ok b0 c1 \<and> cont_byte c2 \<and> cont_byte c3
            then ((b0 - 0xF0) * 262144 + (byte c1 - 0x80) * 4096 + (byte c2 - 0x80) * 64
                    + (byte c3 - 0x80), 4)
            else (RuneError, 1)
        | _ \<Rightarrow> (RuneError, 1))
     else (RuneError, 1))"

definition scalar :: "nat \<Rightarrow> bool" where
  "scalar r = (r < 0x110000 \<and> \<not> (0xD800 \<le> r \<and> r < 0xE000))"

text \<open>\<^verbatim>\<open>utf8.AppendRune\<close>: surrogates and values out of range are written as \<^term>\<open>RuneError\<close>.\<close>

definition encode_rune :: "nat \<Rightarrow> string" where
  "encode_rune r0 =
    (let r = (if scalar r0 then r0 else RuneError) in
     if r < 0x80 then [chr r]
     else if r < 0x800 then [chr (0xC0 + r div 64), chr (0x80 + r mod 64)]
     else if r < 0x10000 then
       [chr (0xE0 + r div 4096), chr (0x80 + r div 64 mod 64), chr (0x80 + r mod 64)]
     else
       [chr (0xF0 + r div 262144), chr (0x80 + r div 4096 mod 64),
        chr (0x80 + r div 64 mod 64), chr (0x80 + r mod 64)])"

text \<open>The characters of a string with the bytes each was read from, as \<^verbatim>\<open>range\<close> visits them.\<close>

function utf8_segments :: "string \<Rightarrow> (nat \<times> string) list" where
  "utf8_segments [] = []"
| "utf8_segments (c # cs) =
    (let w = snd (decode_rune (c # cs)) in
     (fst (decode_rune (c # cs)), c # take (w - 1) cs) # utf8_segments (drop (w - 1) cs))"
  by pat_completeness auto
termination by (relation "measure length") auto

definition runes :: "string \<Rightarrow> nat list" where
  "runes s = map fst (utf8_segments s)"

definition encode_runes :: "nat list \<Rightarrow> string" where
  "encode_runes rs = concat (map encode_rune rs)"

definition RuneStart :: "char \<Rightarrow> bool" where
  "RuneStart c = (byte c div 64 \<noteq> 2)"

text \<open>\<^verbatim>\<open>strings.Map\<close> for a mapping that deletes nothing.\<close>

definition strings_Map :: "(nat \<Rightarrow> nat) \<Rightarrow> string \<Rightarrow> string" where
  "strings_Map f s = encode_runes (map f (runes s))"

definition IsSpace :: "nat \<Rightarrow> bool" where
  "IsSpace r = ((9 \<le> r \<and> r \<le> 13) \<or> r = 0x20 \<or> r = 0x85 \<or> r = 0xA0 \<or> r = 0x1680 \<or>
    (0x2000 \<le> r \<and> r \<le> 0x200A) \<or> r = 0x2028 \<or> r = 0x2029 \<or> r = 0x202F \<or> r = 0x205F \<or> r = 0x3000)"

definition IsControl :: "nat \<Rightarrow> bool" where
  "IsControl r = (r < 0x20 \<or> (0x7F \<le> r \<and> r < 0xA0))"

definition trim_both :: "('a \<Rightarrow> bool) \<Rightarrow> 'a list \<Rightarrow> 'a list" where
  "trim_both p xs = rev (dropWhile p (rev (dropWhile p xs)))"

definition TrimSpace :: "string \<Rightarrow> string" where
  "TrimSpace s = concat (map snd (trim_both (\<lambda>x. IsSpace (fst x)) (utf8_segments s)))"

subsection \<open>Letters\<close>

definition rune_lower :: "nat \<Rightarrow> nat" where
  "rune_lower r =
    (if (65 \<le> r \<and> r \<le> 90) \<or> (0xC0 \<le> r \<and> r \<le> 0xDE \<and> r \<noteq> 0xD7) then r + 32
     else if r = 0x212A then 107
     else if r = 0x130 then 105
     else r)"

definition rune_upper :: "nat \<Rightarrow> nat" where
  "rune_upper r =
    (if (97 \<le> r \<and> r \<le> 122) \<or> (0xE0 \<le> r \<and> r \<le> 0xFE \<and> r \<noteq> 0xF7) then r - 32
     else if r = 0xB5 then 0x39C
     else if r = 0xFF then 0x178
     else if r = 0x17F then 83
     else if r = 0x131 then 73
     else r)"

definition ToLower :: "string \<Rightarrow> string" where
  "ToLower s = strings_Map rune_lower s"

definition ToUpper :: "string \<Rightarrow> string" where
  "ToUpper s = strings_Map rune_upper s"

text \<open>\<^verbatim>\<open>strings.EqualFold\<close> against a constant \<open>t\<close> of ASCII characters.\<close>

definition rune_fold :: "nat \<Rightarrow> nat" where
  "rune_fold r =
    (if 65 \<le> r \<and> r \<le> 90 then r + 32 else if r = 0x17F then 115 else if r = 0x212A then 107 else r)"

definition EqualFold :: "string \<Rightarrow> string \<Rightarrow> bool" where
  "EqualFold s t = (map rune_fold (runes s) = map rune_fold (runes t))"

subsection \<open>Numbers\<close>

definition hex_digit :: "nat \<Rightarrow> char" where
  "hex_digit n = chr (if n < 10 then 48 + n else 87 + n)"

definition hex_EncodeToString :: "string \<Rightarrow> string" where
  "hex_EncodeToString s = concat (map (\<lambda>c. [hex_digit (byte c div 16), hex_digit (byte c mod 16)]) s)"

text \<open>The digits of a number in a base from 2 to 16, most significant first.\<close>

fun digits :: "nat \<Rightarrow> nat \<Rightarrow> string" where
  "digits b n =
    (if b < 2 \<or> n < b then [hex_digit n] else digits b (n div b) @ [hex_digit (n mod b)])"

declare digits.simps [simp del]

definition pad_left :: "nat \<Rightarrow> char \<Rightarrow> string \<Rightarrow> string" where
  "pad_left w c s = replicate (w - length s) c @ s"

definition FormatInt :: "int \<Rightarrow> string" where
  "FormatInt n = (if n < 0 then CHR ''-'' # digits 10 (nat (- n)) else digits 10 (nat n))"

definition digit_val :: "char \<Rightarrow> nat option" where
  "digit_val c =
    (let b = byte c in
     if 48 \<le> b \<and> b \<le> 57 then Some (b - 48)
     else if 97 \<le> b \<and> b \<le> 102 then Some (b - 87)
     else if 65 \<le> b \<and> b \<le> 70 then Some (b - 55)
     else None)"

text \<open>The digit loop of \<^verbatim>\<open>strconv.ParseUint\<close>: it stops at the first bad digit or overflow.\<close>

fun parse_digits :: "nat \<Rightarrow> nat \<Rightarrow> nat \<Rightarrow> string \<Rightarrow> sentinel + nat" where
  "parse_digits b limit acc [] = Inr acc"
| "parse_digits b limit acc (c # cs) =
    (case digit_val c of
       None \<Rightarrow> Inl ErrSyntax
     | Some d \<Rightarrow>
         if b \<le> d then Inl ErrSyntax
         else if limit \<le> acc * b + d then Inl ErrRange
         else parse_digits b limit (acc * b + d) cs)"

definition quote_seg :: "nat \<times> string \<Rightarrow> string" where
  "quote_seg x =
    (case x of (r, bs) \<Rightarrow>
      if r = RuneError \<and> length bs = 1 then [chr 92, CHR ''x''] @ hex_EncodeToString bs
      else if r = 34 then [chr 92, chr 34]
      else if r = 92 then [chr 92, chr 92]
      else if 0x20 \<le> r \<and> r < 0x7F then bs
      else if r = 7 then [chr 92, CHR ''a'']
      else if r = 8 then [chr 92, CHR ''b'']
      else if r = 12 then [chr 92, CHR ''f'']
      else if r = 10 then [chr 92, CHR ''n'']
      else if r = 13 then [chr 92, CHR ''r'']
      else if r = 9 then [chr 92, CHR ''t'']
      else if r = 11 then [chr 92, CHR ''v'']
      else if r < 0x20 \<or> r = 0x7F then [chr 92, CHR ''x''] @ hex_EncodeToString bs
      else if (0x80 \<le> r \<and> r \<le> 0xA0) \<or> r = 0xAD then [chr 92, CHR ''u''] @ pad_left 4 (CHR ''0'') (digits 16 r)
      else bs)"

text \<open>The verb \<^verbatim>\<open>%q\<close>.\<close>

definition quote :: "string \<Rightarrow> string" where
  "quote s = [chr 34] @ concat (map quote_seg (utf8_segments s)) @ [chr 34]"

definition num_error :: "string \<Rightarrow> string \<Rightarrow> sentinel \<Rightarrow> go_error" where
  "num_error fn s kind =
    GoErr (''strconv.'' @ fn @ '': parsing '' @ quote s @ '': '' @
           (if kind = ErrSyntax then ''invalid syntax'' else ''value out of range'')) [kind]"

text \<open>\<^verbatim>\<open>strconv.ParseUint(s, base, bits)\<close> for an explicit base.\<close>

definition ParseUint :: "string \<Rightarrow> nat \<Rightarrow> nat \<Rightarrow> nat result" where
  "ParseUint s base bits =
    (if s = [] then Inl (num_error ''ParseUint'' s ErrSyntax)
     else case parse_digits base (2 ^ bits) 0 s of
       Inl k \<Rightarrow> Inl (num_error ''ParseUint'' s k)
     | Inr n \<Rightarrow> Inr n)"

text \<open>\<^verbatim>\<open>strconv.ParseInt(s, 10, 64)\<close>.\<close>

definition ParseInt10 :: "string \<Rightarrow> int result" where
  "ParseInt10 s =
    (let neg = (s \<noteq> [] \<and> hd s = CHR ''-'');
         body = (if s \<noteq> [] \<and> (hd s = CHR ''-'' \<or> hd s = CHR ''+'') then tl s else s)
     in if body = [] then Inl (num_error ''ParseInt'' s ErrSyntax)
        else case parse_digits 10 (2 ^ 64) 0 body of
          Inl k \<Rightarrow> Inl (num_error ''ParseInt'' s k)
        | Inr n \<Rightarrow>
            if \<not> neg \<and> 2 ^ 63 \<le> n then Inl (num_error ''ParseInt'' s ErrRange)
            else if neg \<and> 2 ^ 63 < n then Inl (num_error ''ParseInt'' s ErrRange)
            else Inr (if neg then - int n else int n))"

text \<open>\<^verbatim>\<open>Duration.String\<close>.\<close>

definition frac_text :: "nat \<Rightarrow> nat \<Rightarrow> string" where
  "frac_text v prec =
    (let ds = rev (dropWhile (\<lambda>c. c = CHR ''0'') (rev (pad_left prec (CHR ''0'') (digits 10 v))))
     in if ds = [] then [] else CHR ''.'' # ds)"

definition dur_text :: "nat \<Rightarrow> string" where
  "dur_text u =
    (if u < 10 ^ 3 then digits 10 u @ ''ns''
     else if u < 10 ^ 6 then digits 10 (u div 10 ^ 3) @ frac_text (u mod 10 ^ 3) 3 @ [chr 0xC2, chr 0xB5, CHR ''s'']
     else if u < 10 ^ 9 then digits 10 (u div 10 ^ 6) @ frac_text (u mod 10 ^ 6) 6 @ ''ms''
     else let secs = u div 10 ^ 9; m = secs div 60 in
       (if 0 < m div 60 then digits 10 (m div 60) @ ''h'' else []) @
       (if 0 < m then digits 10 (m mod 60) @ ''m'' else []) @
       digits 10 (secs mod 60) @ frac_text (u mod 10 ^ 9) 9 @ ''s'')"

definition dur_String :: "duration \<Rightarrow> string" where
  "dur_String d =
    (if d = 0 then ''0s'' else if d < 0 then CHR ''-'' # dur_text (nat (- d)) else dur_text (nat d))"

subsection \<open>Facts about UTF-8\<close>

lemma decode_rune_width: "snd (decode_rune (c # cs)) \<ge> 1 \<and> snd (decode_rune (c # cs)) \<le> Suc (length cs)"
  by (auto simp: Let_def split: list.split)

lemma concat_segments: "concat (map snd (utf8_segments s)) = s"
proof (induction s rule: utf8_segments.induct)
  case (2 c cs)
  then show ?case by (simp add: Let_def)
qed simp

lemma trim_both_sub: "set (trim_both p xs) \<subseteq> set xs"
proof
  fix x assume "x \<in> set (trim_both p xs)"
  then have "x \<in> set (dropWhile p (rev (dropWhile p xs)))"
    by (simp add: trim_both_def)
  then have "x \<in> set (rev (dropWhile p xs))" by (rule set_dropWhileD)
  then have "x \<in> set (dropWhile p xs)" by simp
  then show "x \<in> set xs" by (rule set_dropWhileD)
qed

lemma set_TrimSpace: "set (TrimSpace s) \<subseteq> set s"
proof -
  have "set (TrimSpace s) \<subseteq> set (concat (map snd (utf8_segments s)))"
    using trim_both_sub [of "\<lambda>x. IsSpace (fst x)" "utf8_segments s"]
    by (fastforce simp: TrimSpace_def)
  then show ?thesis by (simp add: concat_segments)
qed

lemma runes_Nil [simp]: "runes [] = []"
  by (simp add: runes_def)

lemma encode_runes_simps [simp]:
  "encode_runes [] = []" "encode_runes (r # rs) = encode_rune r @ encode_runes rs"
  "encode_runes (rs @ qs) = encode_runes rs @ encode_runes qs"
  by (simp_all add: encode_runes_def)

lemma encode_rune_ne [simp]: "encode_rune r \<noteq> []"
  by (simp add: encode_rune_def Let_def)

lemma encode_rune_ascii: "r < 0x80 \<Longrightarrow> encode_rune r = [chr r]"
  by (simp add: encode_rune_def scalar_def)

text \<open>The bytes of a character beyond ASCII all lie beyond ASCII.\<close>

lemma encode_rune_high: "0x80 \<le> r \<Longrightarrow> c \<in> set (encode_rune r) \<Longrightarrow> 0x80 \<le> byte c"
proof -
  assume r: "0x80 \<le> r" and c: "c \<in> set (encode_rune r)"
  define q where "q = (if scalar r then r else RuneError)"
  have q: "0x80 \<le> q" and "q < 0x110000"
    using r by (auto simp: q_def scalar_def)
  then have "q div 64 < 0x4400" "q div 4096 < 0x110" "q div 262144 < 5"
    by (auto simp: div_less_iff_less_mult)
  moreover have "q < 0x800 \<Longrightarrow> q div 64 < 0x20" "q < 0x10000 \<Longrightarrow> q div 4096 < 0x10"
    by (auto simp: div_less_iff_less_mult)
  ultimately show ?thesis
    using c q unfolding encode_rune_def Let_def q_def [symmetric]
    by (auto split: if_splits)
qed

lemma decode_encode_2:
  assumes "0x80 \<le> r" "r < 0x800"
  shows "decode_rune (chr (0xC0 + r div 64) # chr (0x80 + r mod 64) # s) = (r, 2)"
proof -
  have "2 \<le> r div 64" "r div 64 < 32" using assms by (auto simp: div_less_iff_less_mult)
  moreover have "r div 64 * 64 + r mod 64 = r" by simp
  ultimately show ?thesis by (simp add: cont_byte_def Let_def)
qed

lemma split_3: "(r::nat) = r div 4096 * 4096 + r div 64 mod 64 * 64 + r mod 64"
proof -
  have "r div 4096 = r div 64 div 64" by (simp add: div_mult2_eq [symmetric])
  then have "r div 64 = r div 4096 * 64 + r div 64 mod 64" by (metis div_mult_mod_eq)
  moreover have "r = r div 64 * 64 + r mod 64" by simp
  ultimately show ?thesis by linarith
qed

lemma split_4:
  "(r::nat) = r div 262144 * 262144 + r div 4096 mod 64 * 4096 + r div 64 mod 64 * 64 + r mod 64"
proof -
  have "r div 262144 = r div 4096 div 64" by (simp add: div_mult2_eq [symmetric])
  then have "r div 4096 = r div 262144 * 64 + r div 4096 mod 64" by (metis div_mult_mod_eq)
  with split_3 [of r] show ?thesis by linarith
qed

lemma decode_encode_3:
  assumes "0x800 \<le> r" "r < 0x10000" "scalar r"
  shows "decode_rune (chr (0xE0 + r div 4096) # chr (0x80 + r div 64 mod 64) # chr (0x80 + r mod 64) # s)
    = (r, 3)"
proof -
  obtain x y z where xyz: "x = r div 4096" "y = r div 64 mod 64" "z = r mod 64" by blast
  then have r: "r = x * 4096 + y * 64 + z" and y: "y < 64" and z: "z < 64"
    using split_3 [of r] by auto
  have "x < 16" using assms(2) r by linarith
  moreover have "x = 0 \<Longrightarrow> 32 \<le> y" using assms(1) r z by linarith
  moreover have "x = 13 \<Longrightarrow> y \<le> 31" using assms(3) r y z unfolding scalar_def by linarith
  ultimately have "decode_rune (chr (0xE0 + x) # chr (0x80 + y) # chr (0x80 + z) # s)
    = (x * 4096 + y * 64 + z, 3)"
    using y z by (simp add: cont_byte_def second_ok_def second_lo_def second_hi_def Let_def)
  then show ?thesis using r xyz by metis
qed

lemma decode_encode_4:
  assumes "0x10000 \<le> r" "scalar r"
  shows "decode_rune (chr (0xF0 + r div 262144) # chr (0x80 + r div 4096 mod 64) #
    chr (0x80 + r div 64 mod 64) # chr (0x80 + r mod 64) # s) = (r, 4)"
proof -
  obtain w x y z where xyz: "w = r div 262144" "x = r div 4096 mod 64" "y = r div 64 mod 64"
      "z = r mod 64" by blast
  then have r: "r = w * 262144 + x * 4096 + y * 64 + z" and x: "x < 64" and y: "y < 64" and z: "z < 64"
    using split_4 [of r] by auto
  have "w \<le> 4" using assms(2) r unfolding scalar_def by linarith
  moreover have "w = 0 \<Longrightarrow> 16 \<le> x" using assms(1) r y z by linarith
  moreover have "w = 4 \<Longrightarrow> x \<le> 15" using assms(2) r unfolding scalar_def by linarith
  ultimately have "decode_rune (chr (0xF0 + w) # chr (0x80 + x) # chr (0x80 + y) # chr (0x80 + z) # s)
    = (w * 262144 + x * 4096 + y * 64 + z, 4)"
    using x y z by (simp add: cont_byte_def second_ok_def second_lo_def second_hi_def Let_def)
  then show ?thesis using r xyz by metis
qed

lemma decode_encode: "scalar r \<Longrightarrow> decode_rune (encode_rune r @ s) = (r, length (encode_rune r))"
  using decode_encode_2 [of r s] decode_encode_3 [of r s] decode_encode_4 [of r s]
  by (auto simp: encode_rune_def)

lemma segments_encode:
  "scalar r \<Longrightarrow> utf8_segments (encode_rune r @ s) = (r, encode_rune r) # utf8_segments s"
proof -
  assume r: "scalar r"
  obtain c cs where e: "encode_rune r = c # cs" by (cases "encode_rune r") auto
  have "decode_rune (c # cs @ s) = (r, Suc (length cs))"
    using decode_encode [OF r, of s] e by simp
  then show ?thesis by (simp add: e Let_def del: decode_rune.simps)
qed

lemma segments_encode_runes:
  "\<forall>r \<in> set rs. scalar r \<Longrightarrow> utf8_segments (encode_runes rs) = map (\<lambda>r. (r, encode_rune r)) rs"
  by (induction rs) (auto simp: segments_encode)

lemma runes_encode_runes: "\<forall>r \<in> set rs. scalar r \<Longrightarrow> runes (encode_runes rs) = rs"
  by (simp add: runes_def segments_encode_runes comp_def)

lemma IsSpace_scalar: "IsSpace r \<Longrightarrow> scalar r"
  by (auto simp: IsSpace_def scalar_def)

lemma trim_both_map: "trim_both (\<lambda>x. p (f x)) xs = ys \<Longrightarrow> trim_both p (map f xs) = map f ys"
  by (auto simp: trim_both_def dropWhile_map comp_def rev_map)

text \<open>Trimming well-formed text trims its characters.\<close>

lemma TrimSpace_encode_runes:
  assumes "\<forall>r \<in> set rs. scalar r"
  shows "TrimSpace (encode_runes rs) = encode_runes (trim_both IsSpace rs)"
proof -
  have "trim_both (\<lambda>x. IsSpace (fst x)) (map (\<lambda>r. (r, encode_rune r)) rs)
      = map (\<lambda>r. (r, encode_rune r)) (trim_both IsSpace rs)"
    by (rule trim_both_map) (simp add: comp_def)
  then show ?thesis
    using assms by (simp add: TrimSpace_def segments_encode_runes comp_def encode_runes_def [symmetric])
qed

lemma trim_both_hd: "xs \<noteq> [] \<Longrightarrow> \<not> p (hd xs) \<Longrightarrow> trim_both p xs \<noteq> []"
proof -
  assume "xs \<noteq> []" "\<not> p (hd xs)"
  then obtain y ys where xs: "xs = y # ys" and y: "\<not> p y" by (cases xs) auto
  then have "dropWhile p xs = xs" by simp
  moreover have "dropWhile p (rev xs) \<noteq> []"
    using y xs by (simp add: dropWhile_eq_Nil_conv)
  ultimately show ?thesis by (simp add: trim_both_def)
qed

lemma trim_both_length: "length (trim_both p xs) \<le> length xs"
  by (simp add: trim_both_def) (metis length_dropWhile_le length_rev order_trans)

lemma trim_both_last: "p x \<Longrightarrow> trim_both p (xs @ [x]) = trim_both p xs"
  by (auto simp: trim_both_def dropWhile_append dropWhile_eq_Nil_conv [symmetric] simp del: dropWhile_eq_Nil_conv)

text \<open>A string with every invalid byte replaced by the replacement character.\<close>

definition utf8_clean :: "string \<Rightarrow> string" where
  "utf8_clean s = encode_runes (runes s)"

lemma decode_rune_stable:
  assumes "decode_rune (c # cs) = (r, w)" and "\<not> (r = RuneError \<and> w = 1)"
  shows "decode_rune (c # take (w - 1) cs @ t) = (r, w)"
  using assms by (auto simp: Let_def split: if_splits list.splits)

lemma decode_rune_ascii: "decode_rune (c # cs) = (r, w) \<Longrightarrow> r < 0x80 \<Longrightarrow> byte c = r \<and> w = 1"
  by (auto simp: Let_def second_ok_def second_lo_def cont_byte_def split: if_splits list.splits)

lemma decode_rune_first: "decode_rune (c # cs) = (r, w) \<Longrightarrow> 0x80 \<le> r \<Longrightarrow> 0x80 \<le> byte c"
  by (auto simp: Let_def split: if_splits list.splits)

lemma scalar_3:
  assumes "0xE0 \<le> b" "b \<le> 0xEF" "second_lo b \<le> c" "c \<le> second_hi b" "d \<le> 0xBF"
  shows "scalar ((b - 0xE0) * 4096 + (c - 0x80) * 64 + (d - 0x80))"
proof (cases "b \<le> 0xED")
  case True
  then have "(b - 0xE0) * 4096 \<le> 0xD000" and "b \<noteq> 0xED \<Longrightarrow> (b - 0xE0) * 4096 \<le> 0xC000"
    by (auto)
  then show ?thesis using assms True by (auto simp: scalar_def second_lo_def second_hi_def split: if_splits)
next
  case False
  then show ?thesis using assms by (auto simp: scalar_def second_lo_def second_hi_def split: if_splits)
qed

lemma scalar_4:
  assumes "0xF0 \<le> b" "b \<le> 0xF4" "second_lo b \<le> c" "c \<le> second_hi b" "d \<le> 0xBF" "e \<le> 0xBF"
  shows "scalar ((b - 0xF0) * 262144 + (c - 0x80) * 4096 + (d - 0x80) * 64 + (e - 0x80))"
  using assms by (auto simp: scalar_def second_lo_def second_hi_def split: if_splits)

lemma decode_rune_scalar: "decode_rune (c # cs) = (r, w) \<Longrightarrow> scalar r"
  by (auto simp: Let_def cont_byte_def second_ok_def scalar_3 scalar_4 split: if_splits list.splits
      simp del: Nat.add_diff_assoc Nat.add_diff_assoc2)
    (auto simp: scalar_def)

lemma runes_scalar: "r \<in> set (runes s) \<Longrightarrow> scalar r"
proof (induction s rule: utf8_segments.induct)
  case (2 c cs)
  obtain r' w where "decode_rune (c # cs) = (r', w)" by (cases "decode_rune (c # cs)")
  with 2 decode_rune_scalar [OF this] show ?case
    by (auto simp: runes_def Let_def simp del: decode_rune.simps)
qed (simp add: runes_def)

lemma utf8_clean_encode: "\<forall>r \<in> set rs. scalar r \<Longrightarrow> utf8_clean (encode_runes rs) = encode_runes rs"
  by (simp add: utf8_clean_def runes_encode_runes)

lemma utf8_clean_idem [simp]: "utf8_clean (utf8_clean s) = utf8_clean s"
  using utf8_clean_encode [of "runes s"] runes_scalar by (auto simp: utf8_clean_def)

text \<open>ASCII text is its own sequence of characters.\<close>

lemma segments_ascii: "\<forall>c \<in> set s. byte c < 0x80 \<Longrightarrow> utf8_segments s = map (\<lambda>c. (byte c, [c])) s"
  by (induction s) (simp_all add: Let_def)

lemma runes_ascii: "\<forall>c \<in> set s. byte c < 0x80 \<Longrightarrow> runes s = map byte s"
  by (simp add: runes_def segments_ascii comp_def)

lemma dropWhile_none: "\<forall>x \<in> set xs. \<not> p x \<Longrightarrow> dropWhile p xs = xs"
  by (cases xs) auto

lemma trim_both_none: "\<forall>x \<in> set xs. \<not> p x \<Longrightarrow> trim_both p xs = xs"
  by (simp add: trim_both_def dropWhile_none)

lemma encode_ascii: "\<forall>c \<in> set s. byte c < 0x80 \<Longrightarrow> encode_runes (map byte s) = s"
  by (induction s) (simp_all add: encode_rune_ascii)

lemma TrimSpace_ascii: "\<forall>c \<in> set s. byte c < 0x80 \<and> \<not> IsSpace (byte c) \<Longrightarrow> TrimSpace s = s"
  by (simp add: TrimSpace_def segments_ascii trim_both_none comp_def)

lemma ToLower_ascii: "\<forall>c \<in> set s. byte c < 0x80 \<and> rune_lower (byte c) = byte c \<Longrightarrow> ToLower s = s"
proof -
  assume s: "\<forall>c \<in> set s. byte c < 0x80 \<and> rune_lower (byte c) = byte c"
  then have "map rune_lower (runes s) = map byte s" by (simp add: runes_ascii)
  then show ?thesis using s by (simp add: ToLower_def strings_Map_def encode_ascii)
qed

subsection \<open>Facts about numbers\<close>

lemma hex_digit_inj: "m < 16 \<Longrightarrow> n < 16 \<Longrightarrow> hex_digit m = hex_digit n \<longleftrightarrow> m = n"
proof
  assume "m < 16" "n < 16" "hex_digit m = hex_digit n"
  then have "byte (hex_digit m) = byte (hex_digit n)" by simp
  with \<open>m < 16\<close> \<open>n < 16\<close> show "m = n" by (auto simp: hex_digit_def split: if_splits)
qed simp

lemma hex_EncodeToString_Cons:
  "hex_EncodeToString (c # s) = hex_digit (byte c div 16) # hex_digit (byte c mod 16) # hex_EncodeToString s"
  by (simp add: hex_EncodeToString_def)

text \<open>Distinct byte strings have distinct hexadecimal names.\<close>

lemma hex_EncodeToString_inj: "hex_EncodeToString s = hex_EncodeToString t \<longleftrightarrow> s = t"
proof
  show "hex_EncodeToString s = hex_EncodeToString t \<Longrightarrow> s = t"
  proof (induction s arbitrary: t)
    case Nil
    then show ?case by (cases t) (simp_all add: hex_EncodeToString_def)
  next
    case (Cons c s)
    then obtain d u where t: "t = d # u"
      by (cases t) (simp_all add: hex_EncodeToString_def)
    have b: "byte c div 16 < 16" "byte d div 16 < 16"
      using nat_of_char_less_256 [of c] nat_of_char_less_256 [of d]
      by (simp_all add: div_less_iff_less_mult)
    from Cons.prems t b have "byte c div 16 = byte d div 16" "byte c mod 16 = byte d mod 16"
      by (simp_all add: hex_EncodeToString_Cons hex_digit_inj)
    then have "byte c = byte d" by (metis div_mult_mod_eq)
    then show ?case using Cons t by (simp add: hex_EncodeToString_Cons)
  qed
qed simp

lemma length_hex_EncodeToString: "length (hex_EncodeToString s) = 2 * length s"
  by (induction s) (simp_all add: hex_EncodeToString_def)

lemma digit_val_hex_digit: "n < 16 \<Longrightarrow> digit_val (hex_digit n) = Some n"
  by (auto simp: digit_val_def hex_digit_def)

lemma parse_digits_append:
  "parse_digits b lim acc (s @ t) =
    (case parse_digits b lim acc s of Inl e \<Rightarrow> Inl e | Inr n \<Rightarrow> parse_digits b lim n t)"
  by (induction s arbitrary: acc) (auto split: option.split)

lemma parse_digits_digits:
  "2 \<le> b \<Longrightarrow> b \<le> 16 \<Longrightarrow> n < lim \<Longrightarrow> parse_digits b lim 0 (digits b n) = Inr n"
proof (induction b n rule: digits.induct)
  case (1 b n)
  show ?case
  proof (cases "n < b")
    case True
    with 1 show ?thesis
      by (subst digits.simps) (simp add: digit_val_hex_digit)
  next
    case False
    have "n div b < lim" using 1 by (meson div_le_dividend le_less_trans)
    then have IH: "parse_digits b lim 0 (digits b (n div b)) = Inr (n div b)"
      using 1 False by simp
    have "n mod b < b" using 1 by simp
    moreover have "n div b * b + n mod b = n" by simp
    moreover have "digit_val (hex_digit (n mod b)) = Some (n mod b)"
      using 1 calculation(1) by (intro digit_val_hex_digit) linarith
    ultimately have "parse_digits b lim (n div b) [hex_digit (n mod b)] = Inr n"
      using 1 by (simp add: not_le del: mod_less_divisor)
    then show ?thesis
      using False 1 IH by (subst digits.simps) (simp add: parse_digits_append)
  qed
qed

lemma parse_digits_bound: "parse_digits b lim acc s = Inr n \<Longrightarrow> acc < lim \<Longrightarrow> n < lim"
  by (induction s arbitrary: acc) (auto split: option.splits if_splits)

lemma digits_ne [simp]: "digits b n \<noteq> []"
  by (subst digits.simps) simp

lemma digits_set: "2 \<le> b \<Longrightarrow> b \<le> 16 \<Longrightarrow> c \<in> set (digits b n) \<Longrightarrow> \<exists>d < b. c = hex_digit d"
proof (induction b n rule: digits.induct)
  case (1 b n)
  have "\<exists>d < b. hex_digit (n mod b) = hex_digit d" using 1 by (intro exI [of _ "n mod b"]) simp
  then show ?case using 1 by (subst (asm) (2) digits.simps) (auto split: if_splits)
qed

lemma length_digits: "2 \<le> b \<Longrightarrow> n < b ^ Suc i \<Longrightarrow> length (digits b n) \<le> Suc i"
proof (induction i arbitrary: n)
  case 0
  then show ?case by (subst digits.simps) simp
next
  case (Suc i)
  then have "n div b < b ^ Suc i" by (simp add: div_less_iff_less_mult mult.commute)
  then have "length (digits b (n div b)) \<le> Suc i" using Suc by blast
  then show ?case by (subst digits.simps) simp
qed

lemma hex_digit_not_sign: "n < 16 \<Longrightarrow> hex_digit n \<noteq> CHR ''-'' \<and> hex_digit n \<noteq> CHR ''+''"
proof -
  assume "n < 16"
  then have "48 \<le> byte (hex_digit n)" by (auto simp: hex_digit_def)
  then show ?thesis by auto
qed

lemma hd_digits: "hd (digits 10 n) \<noteq> CHR ''-'' \<and> hd (digits 10 n) \<noteq> CHR ''+''"
proof -
  have "hd (digits 10 n) \<in> set (digits 10 n)" by simp
  then obtain d where "d < 10" "hd (digits 10 n) = hex_digit d"
    using digits_set [of 10 "hd (digits 10 n)" n] by auto
  then show ?thesis using hex_digit_not_sign [of d] by simp
qed

text \<open>What \<^verbatim>\<open>FormatInt\<close> writes, \<^verbatim>\<open>ParseInt\<close> reads back.\<close>

lemma ParseInt10_FormatInt: "int64_range n \<Longrightarrow> ParseInt10 (FormatInt n) = Inr n"
proof -
  assume n: "int64_range n"
  have "\<bar>n\<bar> < 2 ^ 64" using n by (auto simp: int64_range_def)
  then have "nat \<bar>n\<bar> < 2 ^ 64" by (simp add: nat_less_iff)
  then have p: "parse_digits 10 (2 ^ 64) 0 (digits 10 (nat \<bar>n\<bar>)) = Inr (nat \<bar>n\<bar>)"
    by (simp add: parse_digits_digits)
  show ?thesis
  proof (cases "n < 0")
    case True
    then show ?thesis using n p by (simp add: ParseInt10_def FormatInt_def int64_range_def Let_def)
  next
    case False
    then show ?thesis using n p hd_digits [of "nat n"]
      by (simp add: ParseInt10_def FormatInt_def int64_range_def Let_def)
  qed
qed

end
