(* ===== verification/Json.thy ===== *)
theory Json
  imports Go_Text
begin

text \<open>
  The part of \<^verbatim>\<open>encoding/json\<close> below the Go types: JSON values, their compact and indented text,
  and the reader of that text. Reading is split into a lexer and a parser over its tokens; both
  reject exactly the texts that are not one JSON value surrounded by white space (the limit of
  10000 on the nesting depth is not represented). Number literals are kept as text. The wording
  of a syntax error is not modelled: one fixed error stands for it.

  The main result is that reading what was written gives the value back, where every string
  comes back with invalid UTF-8 replaced, as \<^verbatim>\<open>encoding/json\<close> does.
\<close>

datatype json =
    JNull
  | JBool bool
  | JNum string
  | JStr string
  | JArr "json list"
  | JObj "(string \<times> json) list"

subsection \<open>Writing\<close>

abbreviation (input) DQ :: char where "DQ \<equiv> CHR 0x22"
abbreviation (input) BS :: char where "BS \<equiv> CHR 0x5C"
abbreviation (input) NL :: char where "NL \<equiv> CHR 0x0A"

definition u_escape :: "nat \<Rightarrow> string" where
  "u_escape r = [BS, CHR ''u'', hex_digit (r div 4096 mod 16), hex_digit (r div 256 mod 16),
    hex_digit (r div 16 mod 16), hex_digit (r mod 16)]"

text \<open>One character of a string literal, with the HTML-safe escapes Go writes by default.\<close>

definition escape_seg :: "nat \<times> string \<Rightarrow> string" where
  "escape_seg x =
    (case x of (r, bs) \<Rightarrow>
      if r = RuneError \<and> length bs = 1 then u_escape RuneError
      else if r = 0x22 then [BS, DQ]
      else if r = 0x5C then [BS, BS]
      else if r = 8 then [BS, CHR ''b'']
      else if r = 12 then [BS, CHR ''f'']
      else if r = 10 then [BS, CHR ''n'']
      else if r = 13 then [BS, CHR ''r'']
      else if r = 9 then [BS, CHR ''t'']
      else if r < 0x20 \<or> r = 0x3C \<or> r = 0x3E \<or> r = 0x26 \<or> r = 0x2028 \<or> r = 0x2029 then u_escape r
      else bs)"

definition json_string :: "string \<Rightarrow> string" where
  "json_string s = [DQ] @ concat (map escape_seg (utf8_segments s)) @ [DQ]"

fun json_print :: "json \<Rightarrow> string" where
  "json_print JNull = ''null''"
| "json_print (JBool b) = (if b then ''true'' else ''false'')"
| "json_print (JNum n) = n"
| "json_print (JStr s) = json_string s"
| "json_print (JArr xs) = ''['' @ joinWith '','' (map json_print xs) @ '']''"
| "json_print (JObj kvs) =
    ''{'' @ joinWith '','' (map (\<lambda>kv. json_string (fst kv) @ '':'' @ json_print (snd kv)) kvs) @ ''}''"

text \<open>\<^verbatim>\<open>json.MarshalIndent(v, "", "  ")\<close> at a nesting level.\<close>

definition new_line :: "nat \<Rightarrow> string" where
  "new_line level = NL # replicate (2 * level) (CHR '' '')"

fun json_indent :: "nat \<Rightarrow> json \<Rightarrow> string" where
  "json_indent level (JArr xs) =
    (if xs = [] then ''[]''
     else ''['' @ new_line (level + 1) @
          joinWith (CHR '','' # new_line (level + 1)) (map (json_indent (level + 1)) xs) @
          new_line level @ '']'')"
| "json_indent level (JObj kvs) =
    (if kvs = [] then ''{}''
     else ''{'' @ new_line (level + 1) @
          joinWith (CHR '','' # new_line (level + 1))
            (map (\<lambda>kv. json_string (fst kv) @ '': '' @ json_indent (level + 1) (snd kv)) kvs) @
          new_line level @ ''}'')"
| "json_indent level v = json_print v"

subsection \<open>Reading\<close>

datatype token =
    TNull | TTrue | TFalse | TNum string | TStr string
  | TLBrack | TRBrack | TLBrace | TRBrace | TComma | TColon

fun hex4 :: "string \<Rightarrow> (nat \<times> string) option" where
  "hex4 (a # b # c # d # rest) =
    (case (digit_val a, digit_val b, digit_val c, digit_val d) of
       (Some w, Some x, Some y, Some z) \<Rightarrow> Some (w * 4096 + x * 256 + y * 16 + z, rest)
     | _ \<Rightarrow> None)"
| "hex4 _ = None"

lemma hex4_length: "hex4 s = Some (r, rest) \<Longrightarrow> length rest < length s"
  by (induction s rule: hex4.induct) (auto split: option.splits)

definition simple_escape :: "char \<Rightarrow> nat option" where
  "simple_escape c =
    (if c = DQ then Some 0x22 else if c = BS then Some 0x5C else if c = CHR ''/'' then Some 0x2F
     else if c = CHR ''b'' then Some 8 else if c = CHR ''f'' then Some 12
     else if c = CHR ''n'' then Some 10 else if c = CHR ''r'' then Some 13
     else if c = CHR ''t'' then Some 9 else None)"

definition prepend :: "string \<Rightarrow> (string \<times> string) option \<Rightarrow> (string \<times> string) option" where
  "prepend p r = map_option (\<lambda>x. (p @ fst x, snd x)) r"

text \<open>The second half of a surrogate pair, if one follows.\<close>

definition low_surrogate :: "string \<Rightarrow> (nat \<times> string) option" where
  "low_surrogate s =
    (case s of
       a # b # rest \<Rightarrow>
         if a = BS \<and> b = CHR ''u'' then
           (case hex4 rest of
              Some (r, rest2) \<Rightarrow> if 0xDC00 \<le> r \<and> r < 0xE000 then Some (r, rest2) else None
            | None \<Rightarrow> None)
         else None
     | _ \<Rightarrow> None)"

lemma low_surrogate_length: "low_surrogate s = Some (r, rest) \<Longrightarrow> length rest < length s"
  by (auto simp: low_surrogate_def split: list.splits if_splits option.splits dest: hex4_length)

text \<open>The text of a string literal after its opening quote.\<close>

function lex_string :: "string \<Rightarrow> (string \<times> string) option" where
  "lex_string [] = None"
| "lex_string (c # cs) =
    (if c = DQ then Some ([], cs)
     else if c = BS then
       (case cs of
          [] \<Rightarrow> None
        | d # ds \<Rightarrow>
            if d = CHR ''u'' then
              (case hex4 ds of
                 None \<Rightarrow> None
               | Some (r, rest) \<Rightarrow>
                   if 0xD800 \<le> r \<and> r < 0xDC00 then
                     (case low_surrogate rest of
                        Some (r2, rest2) \<Rightarrow>
                          prepend (encode_rune (0x10000 + (r - 0xD800) * 1024 + (r2 - 0xDC00)))
                            (lex_string rest2)
                      | None \<Rightarrow> prepend (encode_rune RuneError) (lex_string rest))
                   else prepend (encode_rune r) (lex_string rest))
            else (case simple_escape d of
                    None \<Rightarrow> None
                  | Some r \<Rightarrow> prepend [chr r] (lex_string ds)))
     else if byte c < 0x20 then None
     else prepend (encode_rune (fst (decode_rune (c # cs))))
            (lex_string (drop (snd (decode_rune (c # cs)) - 1) cs)))"
  by pat_completeness auto
termination
  by (relation "measure length") (auto dest!: hex4_length low_surrogate_length)

definition is_digit :: "char \<Rightarrow> bool" where
  "is_digit c = (48 \<le> byte c \<and> byte c \<le> 57)"

text \<open>The grammar of a number literal, as the length of its longest prefix.\<close>

definition scan_int :: "string \<Rightarrow> (string \<times> string) option" where
  "scan_int s =
    (case s of
       [] \<Rightarrow> None
     | c # cs \<Rightarrow>
         if c = CHR ''0'' then Some ([c], cs)
         else if is_digit c then Some (c # takeWhile is_digit cs, dropWhile is_digit cs)
         else None)"

definition scan_frac :: "string \<Rightarrow> (string \<times> string) option" where
  "scan_frac s =
    (case s of
       c # d # cs \<Rightarrow>
         if c \<noteq> CHR ''.'' then Some ([], s)
         else if is_digit d then Some (c # d # takeWhile is_digit cs, dropWhile is_digit cs)
         else None
     | [c] \<Rightarrow> if c = CHR ''.'' then None else Some ([], s)
     | [] \<Rightarrow> Some ([], []))"

definition scan_exp :: "string \<Rightarrow> (string \<times> string) option" where
  "scan_exp s =
    (case s of
       c # cs \<Rightarrow>
         if c \<noteq> CHR ''e'' \<and> c \<noteq> CHR ''E'' then Some ([], s)
         else
           let sign = (if cs \<noteq> [] \<and> (hd cs = CHR ''+'' \<or> hd cs = CHR ''-'') then [hd cs] else []);
               ds = drop (length sign) cs
           in if ds \<noteq> [] \<and> is_digit (hd ds)
              then Some (c # sign @ takeWhile is_digit ds, dropWhile is_digit ds)
              else None
     | [] \<Rightarrow> Some ([], []))"

definition lex_number :: "string \<Rightarrow> (string \<times> string) option" where
  "lex_number s =
    (let sign = (if s \<noteq> [] \<and> hd s = CHR ''-'' then [hd s] else []) in
     case scan_int (drop (length sign) s) of
       None \<Rightarrow> None
     | Some (i, s1) \<Rightarrow>
         (case scan_frac s1 of
            None \<Rightarrow> None
          | Some (f, s2) \<Rightarrow>
              (case scan_exp s2 of
                 None \<Rightarrow> None
               | Some (e, s3) \<Rightarrow> Some (sign @ i @ f @ e, s3))))"

definition json_space :: "char \<Rightarrow> bool" where
  "json_space c = (c = CHR '' '' \<or> c = CHR 0x09 \<or> c = CHR 0x0A \<or> c = CHR 0x0D)"

definition punct :: "char \<Rightarrow> token option" where
  "punct c =
    (if c = CHR ''['' then Some TLBrack else if c = CHR '']'' then Some TRBrack
     else if c = CHR ''{'' then Some TLBrace else if c = CHR ''}'' then Some TRBrace
     else if c = CHR '','' then Some TComma else if c = CHR '':'' then Some TColon else None)"

lemma lex_string_length: "lex_string s = Some (t, rest) \<Longrightarrow> length rest < length s"
proof (induction s arbitrary: t rest rule: lex_string.induct)
  case (2 c cs)
  then show ?case
    by (fastforce simp: prepend_def split: if_splits list.splits option.splits
        dest: hex4_length low_surrogate_length)
qed simp

lemma length_dropWhile_le': "length (dropWhile p xs) \<le> length xs"
  by (induction xs) auto

lemma lex_number_length: "lex_number s = Some (t, rest) \<Longrightarrow> length rest < length s"
proof -
  assume a: "lex_number s = Some (t, rest)"
  have i: "scan_int u = Some (x, v) \<Longrightarrow> length v < length u" for u x v
    using length_dropWhile_le' [of is_digit "tl u"]
    by (auto simp: scan_int_def split: list.splits if_splits)
  have f: "scan_frac u = Some (x, v) \<Longrightarrow> length v \<le> length u" for u x v
    by (auto simp: scan_frac_def split: list.splits if_splits
        intro: le_trans [OF length_dropWhile_le'])
  have e: "scan_exp u = Some (x, v) \<Longrightarrow> length v \<le> length u" for u x v
    by (auto simp: scan_exp_def Let_def split: list.splits if_splits
        intro: le_trans [OF length_dropWhile_le'])
  from a show ?thesis
    by (fastforce simp: lex_number_def Let_def split: option.splits dest!: i f e)
qed

function json_lex :: "string \<Rightarrow> token list option" where
  "json_lex [] = Some []"
| "json_lex (c # cs) =
    (if json_space c then json_lex cs
     else case punct c of
       Some t \<Rightarrow> map_option ((#) t) (json_lex cs)
     | None \<Rightarrow>
         if c = DQ then
           (case lex_string cs of
              None \<Rightarrow> None
            | Some (s, rest) \<Rightarrow> map_option ((#) (TStr s)) (json_lex rest))
         else if HasPrefix (c # cs) ''null'' then map_option ((#) TNull) (json_lex (drop 3 cs))
         else if HasPrefix (c # cs) ''true'' then map_option ((#) TTrue) (json_lex (drop 3 cs))
         else if HasPrefix (c # cs) ''false'' then map_option ((#) TFalse) (json_lex (drop 4 cs))
         else
           (case lex_number (c # cs) of
              None \<Rightarrow> None
            | Some (n, rest) \<Rightarrow> map_option ((#) (TNum n)) (json_lex rest)))"
  by pat_completeness auto
termination
  by (relation "measure length") (auto dest!: lex_string_length lex_number_length)

fun parse_value :: "nat \<Rightarrow> token list \<Rightarrow> (json \<times> token list) option"
  and parse_elems :: "nat \<Rightarrow> token list \<Rightarrow> (json list \<times> token list) option"
  and parse_members :: "nat \<Rightarrow> token list \<Rightarrow> ((string \<times> json) list \<times> token list) option" where
  "parse_value 0 ts = None"
| "parse_value (Suc n) ts =
    (case ts of
       TNull # r \<Rightarrow> Some (JNull, r)
     | TTrue # r \<Rightarrow> Some (JBool True, r)
     | TFalse # r \<Rightarrow> Some (JBool False, r)
     | TNum s # r \<Rightarrow> Some (JNum s, r)
     | TStr s # r \<Rightarrow> Some (JStr s, r)
     | TLBrack # r \<Rightarrow>
         (case r of
            TRBrack # r2 \<Rightarrow> Some (JArr [], r2)
          | _ \<Rightarrow> map_option (\<lambda>x. (JArr (fst x), snd x)) (parse_elems n r))
     | TLBrace # r \<Rightarrow>
         (case r of
            TRBrace # r2 \<Rightarrow> Some (JObj [], r2)
          | _ \<Rightarrow> map_option (\<lambda>x. (JObj (fst x), snd x)) (parse_members n r))
     | _ \<Rightarrow> None)"
| "parse_elems 0 ts = None"
| "parse_elems (Suc n) ts =
    (case parse_value n ts of
       Some (v, TComma # r) \<Rightarrow> map_option (\<lambda>x. (v # fst x, snd x)) (parse_elems n r)
     | Some (v, TRBrack # r) \<Rightarrow> Some ([v], r)
     | _ \<Rightarrow> None)"
| "parse_members 0 ts = None"
| "parse_members (Suc n) ts =
    (case ts of
       TStr k # TColon # r0 \<Rightarrow>
         (case parse_value n r0 of
            Some (v, TComma # r) \<Rightarrow> map_option (\<lambda>x. ((k, v) # fst x, snd x)) (parse_members n r)
          | Some (v, TRBrace # r) \<Rightarrow> Some ([(k, v)], r)
          | _ \<Rightarrow> None)
     | _ \<Rightarrow> None)"

text \<open>Twice the number of tokens is enough fuel: every two nested calls consume one.\<close>

definition json_error :: go_error where
  "json_error = errors_New ''invalid JSON''"

definition json_parse :: "string \<Rightarrow> json result" where
  "json_parse s =
    (case json_lex s of
       None \<Rightarrow> Inl json_error
     | Some ts \<Rightarrow>
         (case parse_value (2 * length ts + 1) ts of
            Some (v, []) \<Rightarrow> Inr v
          | _ \<Rightarrow> Inl json_error))"

subsection \<open>Lexing what was written\<close>

lemma nibbles: "(r::nat) < 0x10000 \<Longrightarrow>
  r div 4096 mod 16 * 4096 + r div 256 mod 16 * 256 + r div 16 mod 16 * 16 + r mod 16 = r"
proof -
  assume r: "r < 0x10000"
  have "r div 4096 = r div 256 div 16" "r div 256 = r div 16 div 16"
    by (simp_all add: div_mult2_eq [symmetric])
  then have "r div 256 = r div 4096 * 16 + r div 256 mod 16" "r div 16 = r div 256 * 16 + r div 16 mod 16"
    by (metis div_mult_mod_eq)+
  moreover have "r = r div 16 * 16 + r mod 16" by simp
  moreover have "r div 4096 mod 16 = r div 4096" using r by (simp add: div_less_iff_less_mult)
  ultimately show ?thesis by linarith
qed

lemma lex_u_escape:
  assumes "r < 0x10000" "\<not> (0xD800 \<le> r \<and> r < 0xDC00)"
  shows "lex_string (u_escape r @ t) = prepend (encode_rune r) (lex_string t)"
  using assms nibbles [OF assms(1)] by (auto simp: u_escape_def digit_val_hex_digit)

lemma lex_simple:
  "d \<noteq> CHR ''u'' \<Longrightarrow> simple_escape d = Some r \<Longrightarrow> lex_string (BS # d # t) = prepend [chr r] (lex_string t)"
  by simp

lemma lex_segment:
  assumes d: "decode_rune (c # cs) = (r, w)"
  shows "lex_string (escape_seg (r, c # take (w - 1) cs) @ t) = prepend (encode_rune r) (lex_string t)"
proof (cases "r = RuneError \<and> w = 1")
  case True
  then show ?thesis by (simp add: escape_seg_def lex_u_escape)
next
  case False
  have len: "length (c # take (w - 1) cs) = w"
    using decode_rune_width [of c cs] d by auto
  have st: "decode_rune (c # take (w - 1) cs @ t) = (r, w)" by (rule decode_rune_stable [OF d False])
  have raw: "lex_string ((c # take (w - 1) cs) @ t) = prepend (encode_rune r) (lex_string t)"
    if "0x20 \<le> r" "r \<noteq> 0x22" "r \<noteq> 0x5C"
  proof -
    have c: "0x20 \<le> byte c" "c \<noteq> DQ" "c \<noteq> BS"
      using decode_rune_ascii [OF d] decode_rune_first [OF d] that by force+
    have "drop (w - 1) (take (w - 1) cs @ t) = t" using len by simp
    with c st show ?thesis by (simp del: decode_rune.simps)
  qed
  show ?thesis
    using False len raw
    by (auto simp: escape_seg_def lex_u_escape lex_simple simple_escape_def encode_rune_ascii simp del: lex_string.simps take_append)
qed

lemma lex_string_body:
  "lex_string (concat (map escape_seg (utf8_segments s)) @ t) =
    prepend (utf8_clean s) (lex_string t)"
proof (induction s arbitrary: t rule: utf8_segments.induct)
  case 1
  show ?case by (cases "lex_string t") (simp_all add: utf8_clean_def prepend_def)
next
  case (2 c cs)
  obtain r w where d: "decode_rune (c # cs) = (r, w)" by (cases "decode_rune (c # cs)")
  let ?rest = "drop (w - 1) cs"
  have seg: "utf8_segments (c # cs) = (r, c # take (w - 1) cs) # utf8_segments ?rest"
    using d by (simp add: Let_def del: decode_rune.simps)
  then have clean: "utf8_clean (c # cs) = encode_rune r @ utf8_clean ?rest"
    by (simp add: utf8_clean_def runes_def)
  have "lex_string (concat (map escape_seg (utf8_segments (c # cs))) @ t)
      = lex_string (escape_seg (r, c # take (w - 1) cs) @
          (concat (map escape_seg (utf8_segments ?rest)) @ t))"
    by (simp only: seg list.map concat.simps append_assoc)
  also have "\<dots> = prepend (encode_rune r) (prepend (utf8_clean ?rest) (lex_string t))"
    using 2 [of w] d by (simp only: lex_segment [OF d]) simp
  also have "\<dots> = prepend (utf8_clean (c # cs)) (lex_string t)"
    by (cases "lex_string t") (simp_all add: prepend_def clean)
  finally show ?case .
qed

text \<open>Tokens put in front of the tokens that follow.\<close>

definition emit :: "token list \<Rightarrow> token list option \<Rightarrow> token list option" where
  "emit xs r = map_option ((@) xs) r"

lemma emit_emit [simp]: "emit xs (emit ys r) = emit (xs @ ys) r"
  by (cases r) (simp_all add: emit_def)

lemma emit_Nil [simp]: "emit [] r = r"
  by (cases r) (simp_all add: emit_def)

lemma map_option_emit [simp]: "map_option ((#) x) r = emit [x] r"
  by (cases r) (simp_all add: emit_def)

lemma emit_Some [simp]: "emit xs (Some ys) = Some (xs @ ys)"
  by (simp add: emit_def)

lemma json_lex_string: "json_lex (json_string s @ t) = emit [TStr (utf8_clean s)] (json_lex t)"
proof -
  have "lex_string (concat (map escape_seg (utf8_segments s)) @ DQ # t) = Some (utf8_clean s, t)"
    by (subst lex_string_body) (simp add: prepend_def)
  then show ?thesis
    by (simp add: json_string_def json_space_def punct_def)
qed

subsection \<open>Tokens of a value\<close>

definition num_end :: "string \<Rightarrow> bool" where
  "num_end t = (t = [] \<or> hd t \<in> {CHR '','', CHR '']'', CHR ''}'', NL})"

text \<open>A literal that is read back as itself in front of any delimiter.\<close>

definition num_ok :: "string \<Rightarrow> bool" where
  "num_ok n = (n \<noteq> [] \<and> (is_digit (hd n) \<or> hd n = CHR ''-'') \<and>
    (\<forall>t. num_end t \<longrightarrow> lex_number (n @ t) = Some (n, t)))"

fun commas :: "token list list \<Rightarrow> token list" where
  "commas [] = []"
| "commas [x] = x"
| "commas (x # y # zs) = x @ TComma # commas (y # zs)"

fun tokens :: "json \<Rightarrow> token list" where
  "tokens JNull = [TNull]"
| "tokens (JBool b) = [if b then TTrue else TFalse]"
| "tokens (JNum n) = [TNum n]"
| "tokens (JStr s) = [TStr (utf8_clean s)]"
| "tokens (JArr xs) = TLBrack # commas (map tokens xs) @ [TRBrack]"
| "tokens (JObj kvs) =
    TLBrace # commas (map (\<lambda>kv. TStr (utf8_clean (fst kv)) # TColon # tokens (snd kv)) kvs) @ [TRBrace]"

fun nums_ok :: "json \<Rightarrow> bool" where
  "nums_ok (JNum n) = num_ok n"
| "nums_ok (JArr xs) = list_all nums_ok xs"
| "nums_ok (JObj kvs) = list_all (\<lambda>kv. nums_ok (snd kv)) kvs"
| "nums_ok _ = True"

lemma json_lex_punct: "punct c = Some t \<Longrightarrow> json_lex (c # s) = emit [t] (json_lex s)"
  by (auto simp: punct_def json_space_def split: if_splits)

lemma json_lex_number:
  "num_ok n \<Longrightarrow> num_end t \<Longrightarrow> json_lex (n @ t) = emit [TNum n] (json_lex t)"
proof -
  assume n: "num_ok n" and t: "num_end t"
  then obtain c cs where cs: "n = c # cs" and c: "is_digit c \<or> c = CHR ''-''"
    by (cases n) (auto simp: num_ok_def)
  have "lex_number (c # cs @ t) = Some (n, t)" using n t cs by (simp add: num_ok_def)
  moreover have "\<not> json_space c" "punct c = None" "c \<noteq> DQ" "c \<notin> {CHR ''n'', CHR ''t'', CHR ''f''}"
    using c by (auto simp: json_space_def punct_def is_digit_def)
  ultimately show ?thesis using cs by (simp add: HasPrefix_def)
qed

text \<open>Lexing a list of items separated by a text that lexes to a comma.\<close>

lemma lex_join:
  assumes items: "\<And>x t. x \<in> set xs \<Longrightarrow> num_end t \<Longrightarrow> json_lex (f x @ t) = emit (g x) (json_lex t)"
    and sep: "\<And>t. json_lex (sep @ t) = emit [TComma] (json_lex t)"
    and sep_end: "\<And>t. num_end (sep @ t)"
    and t: "num_end t"
  shows "json_lex (joinWith sep (map f xs) @ t) = emit (commas (map g xs)) (json_lex t)"
  using items
proof (induction xs rule: induct_list012)
  case (3 x y zs)
  have IH: "json_lex (joinWith sep (map f (y # zs)) @ t) = emit (commas (map g (y # zs))) (json_lex t)"
    using 3 by simp
  have "json_lex (f x @ (sep @ joinWith sep (map f (y # zs)) @ t))
      = emit (g x) (json_lex (sep @ (joinWith sep (map f (y # zs)) @ t)))"
    by (rule 3(3)) (simp_all add: sep_end)
  also have "\<dots> = emit (g x) (emit [TComma] (json_lex (joinWith sep (map f (y # zs)) @ t)))"
    by (simp only: sep)
  finally show ?case unfolding IH by simp
qed (use t in auto)

lemma json_lex_print: "nums_ok v \<Longrightarrow> num_end t \<Longrightarrow> json_lex (json_print v @ t) = emit (tokens v) (json_lex t)"
proof (induction v arbitrary: t)
  case (JArr xs)
  have "json_lex (joinWith '','' (map json_print xs) @ CHR '']'' # t)
      = emit (commas (map tokens xs)) (json_lex (CHR '']'' # t))"
    using JArr by (intro lex_join) (auto simp: json_lex_punct punct_def num_end_def list_all_iff simp del: json_lex.simps)
  then show ?case by (simp add: json_lex_punct punct_def del: json_lex.simps)
next
  case (JObj kvs)
  let ?f = "\<lambda>kv. json_string (fst kv) @ '':'' @ json_print (snd kv)"
  let ?g = "\<lambda>kv. TStr (utf8_clean (fst kv)) # TColon # tokens (snd kv)"
  have "json_lex (?f kv @ t) = emit (?g kv) (json_lex t)" if "kv \<in> set kvs" "num_end t" for kv t
    using JObj that
    by (cases kv) (fastforce simp: json_lex_string json_lex_punct punct_def list_all_iff simp del: json_lex.simps)
  then have "json_lex (joinWith '','' (map ?f kvs) @ CHR ''}'' # t)
      = emit (commas (map ?g kvs)) (json_lex (CHR ''}'' # t))"
    using JObj by (intro lex_join) (auto simp: json_lex_punct punct_def num_end_def simp del: json_lex.simps)
  then show ?case by (simp add: json_lex_punct punct_def del: json_lex.simps)
next
  case (JNum n)
  then show ?case by (simp add: json_lex_number del: json_lex.simps)
next
  case (JStr s)
  then show ?case by (simp add: json_lex_string del: json_lex.simps)
qed (auto simp: json_space_def punct_def HasPrefix_def)

subsection \<open>Parsing the tokens of a value\<close>

fun json_clean :: "json \<Rightarrow> json" where
  "json_clean (JStr s) = JStr (utf8_clean s)"
| "json_clean (JArr xs) = JArr (map json_clean xs)"
| "json_clean (JObj kvs) = JObj (map (\<lambda>kv. (utf8_clean (fst kv), json_clean (snd kv))) kvs)"
| "json_clean v = v"

lemma tokens_Cons: "\<exists>t ts. tokens v = t # ts \<and> t \<noteq> TRBrack \<and> t \<noteq> TRBrace"
  by (cases v) auto

lemma parse_elems_commas:
  assumes val: "\<And>x f ts. x \<in> set xs \<Longrightarrow> 2 * length (tokens x) \<le> f \<Longrightarrow>
      parse_value (Suc f) (tokens x @ ts) = Some (json_clean x, ts)"
    and "xs \<noteq> []" and "2 * length (commas (map tokens xs)) + 1 \<le> f"
  shows "parse_elems (Suc f) (commas (map tokens xs) @ TRBrack # ts) = Some (map json_clean xs, ts)"
  using assms
proof (induction xs arbitrary: f rule: induct_list012)
  case (2 x)
  then obtain f0 where "f = Suc f0" "2 * length (tokens x) \<le> f0" by (cases f) auto
  with 2 show ?case by simp
next
  case (3 x y zs)
  obtain f0 where f: "f = Suc f0" using 3(5) by (cases f) auto
  obtain a as where a: "tokens x = a # as" using tokens_Cons by blast
  have v: "parse_value f (tokens x @ TComma # commas (map tokens (y # zs)) @ TRBrack # ts)
      = Some (json_clean x, TComma # commas (map tokens (y # zs)) @ TRBrack # ts)"
    using 3(3) [of x f0] 3(5) f by simp
  have "parse_elems f (commas (map tokens (y # zs)) @ TRBrack # ts) = Some (map json_clean (y # zs), ts)"
    unfolding f using 3 f a by (intro 3(2)) auto
  with v show ?case by simp
qed simp

lemma parse_members_commas:
  fixes kvs :: "(string \<times> json) list"
  defines "g \<equiv> \<lambda>kv :: string \<times> json. TStr (utf8_clean (fst kv)) # TColon # tokens (snd kv)"
  assumes val: "\<And>kv f ts. kv \<in> set kvs \<Longrightarrow> 2 * length (tokens (snd kv)) \<le> f \<Longrightarrow>
      parse_value (Suc f) (tokens (snd kv) @ ts) = Some (json_clean (snd kv), ts)"
    and "kvs \<noteq> []" and "2 * length (commas (map g kvs)) + 1 \<le> f"
  shows "parse_members (Suc f) (commas (map g kvs) @ TRBrace # ts) =
    Some (map (\<lambda>kv. (utf8_clean (fst kv), json_clean (snd kv))) kvs, ts)"
  using assms(2-)
proof (induction kvs arbitrary: f rule: induct_list012)
  case (2 x)
  then obtain f0 where "f = Suc f0" "2 * length (tokens (snd x)) \<le> f0" by (cases f) (auto simp: g_def)
  with 2 show ?case by (simp add: g_def)
next
  case (3 x y zs)
  obtain f0 where f: "f = Suc f0" using 3(5) by (cases f) auto
  have v: "parse_value f (tokens (snd x) @ TComma # commas (map g (y # zs)) @ TRBrace # ts)
      = Some (json_clean (snd x), TComma # commas (map g (y # zs)) @ TRBrace # ts)"
    using 3(3) [of x f0] 3(5) f by (simp add: g_def)
  have "parse_members f (commas (map g (y # zs)) @ TRBrace # ts)
      = Some (map (\<lambda>kv. (utf8_clean (fst kv), json_clean (snd kv))) (y # zs), ts)"
    unfolding f using 3 f by (intro 3(2)) (auto simp: g_def)
  with v show ?case by (simp add: g_def)
qed simp

lemma commas_Cons: "x \<in> set xs \<Longrightarrow> (\<And>y. y \<in> set xs \<Longrightarrow> \<exists>t ts. g y = t # ts \<and> P t) \<Longrightarrow>
  \<exists>t ts. commas (map g xs) = t # ts \<and> P t"
  by (induction xs rule: induct_list012) fastforce+

lemma parse_tokens: "2 * length (tokens v) \<le> f \<Longrightarrow> parse_value (Suc f) (tokens v @ ts) = Some (json_clean v, ts)"
proof (induction v arbitrary: f ts)
  case (JArr xs)
  show ?case
  proof (cases "xs = []")
    case False
    obtain f0 where f: "f = Suc f0" using JArr by (cases f) auto
    obtain t us where c: "commas (map tokens xs) = t # us" "t \<noteq> TRBrack"
      using commas_Cons [of "hd xs" xs tokens "\<lambda>t. t \<noteq> TRBrack"] False tokens_Cons by fastforce
    have "parse_elems (Suc f0) (commas (map tokens xs) @ TRBrack # ts) = Some (map json_clean xs, ts)"
      using JArr f False by (intro parse_elems_commas) auto
    with c f show ?thesis by (auto split: token.splits)
  qed simp
next
  case (JObj kvs)
  let ?g = "\<lambda>kv. TStr (utf8_clean (fst kv)) # TColon # tokens (snd kv)"
  show ?case
  proof (cases "kvs = []")
    case False
    obtain f0 where f: "f = Suc f0" using JObj by (cases f) auto
    obtain t us where c: "commas (map ?g kvs) = t # us" "t \<noteq> TRBrace"
      using commas_Cons [of "hd kvs" kvs ?g "\<lambda>t. t \<noteq> TRBrace"] False by fastforce
    have "parse_members (Suc f0) (commas (map ?g kvs) @ TRBrace # ts) =
        Some (map (\<lambda>kv. (utf8_clean (fst kv), json_clean (snd kv))) kvs, ts)"
      using JObj f False by (intro parse_members_commas) (auto intro: JObj.IH simp: snds.simps)
    with c f show ?thesis by (auto split: token.splits)
  qed simp
qed auto

lemma json_parse_lex:
  assumes "json_lex s = Some (tokens v)"
  shows "json_parse s = Inr (json_clean v)"
  using parse_tokens [of v "2 * length (tokens v)" "[]"] assms by (simp add: json_parse_def)

lemma json_parse_print: "nums_ok v \<Longrightarrow> json_parse (json_print v) = Inr (json_clean v)"
  using json_lex_print [of v "[]"] by (intro json_parse_lex) (simp add: num_end_def)

lemma json_parse_print_nl: "nums_ok v \<Longrightarrow> json_parse (json_print v @ [NL]) = Inr (json_clean v)"
  using json_lex_print [of v "[NL]"] by (intro json_parse_lex) (simp add: num_end_def json_space_def)

subsection \<open>Indented text\<close>

lemma json_lex_new_line [simp]: "json_lex (new_line k @ t) = json_lex t"
proof -
  have "json_lex (replicate m (CHR '' '') @ t) = json_lex t" for m
    by (induction m) (simp_all add: json_space_def)
  then show ?thesis by (simp add: new_line_def json_space_def)
qed

lemma num_end_new_line [simp]: "num_end (new_line k @ t)"
  by (simp add: num_end_def new_line_def)

lemma sep_new_line:
  "json_lex ((CHR '','' # new_line k) @ t) = emit [TComma] (json_lex t)"
  "num_end ((CHR '','' # new_line k) @ t)"
  by (simp_all add: json_lex_punct punct_def num_end_def del: json_lex.simps)

lemma json_lex_indent:
  "nums_ok v \<Longrightarrow> num_end t \<Longrightarrow> json_lex (json_indent k v @ t) = emit (tokens v) (json_lex t)"
proof (induction v arbitrary: k t)
  case (JArr xs)
  let ?sep = "CHR '','' # new_line (Suc k)" and ?t = "new_line k @ CHR '']'' # t"
  show ?case
  proof (cases "xs = []")
    case False
    have item: "json_lex (json_indent (Suc k) x @ u) = emit (tokens x) (json_lex u)"
      if "x \<in> set xs" "num_end u" for x u
      using JArr that by (simp add: list_all_iff)
    have "json_lex (joinWith ?sep (map (json_indent (Suc k)) xs) @ ?t)
        = emit (commas (map tokens xs)) (json_lex ?t)"
      by (rule lex_join [OF item sep_new_line]) simp_all
    then show ?thesis using False by (simp add: json_lex_punct punct_def del: json_lex.simps)
  qed (simp add: json_lex_punct punct_def del: json_lex.simps)
next
  case (JObj kvs)
  let ?sep = "CHR '','' # new_line (Suc k)" and ?t = "new_line k @ CHR ''}'' # t"
  let ?f = "\<lambda>kv. json_string (fst kv) @ '': '' @ json_indent (Suc k) (snd kv)"
  let ?g = "\<lambda>kv. TStr (utf8_clean (fst kv)) # TColon # tokens (snd kv)"
  show ?case
  proof (cases "kvs = []")
    case False
    have sp: "json_lex (CHR '' '' # u) = json_lex u" for u by (simp add: json_space_def)
    have item: "json_lex (?f kv @ u) = emit (?g kv) (json_lex u)" if "kv \<in> set kvs" "num_end u" for kv u
      using JObj that
      by (cases kv) (fastforce simp: json_lex_string json_lex_punct punct_def list_all_iff sp simp del: json_lex.simps)
    have "json_lex (joinWith ?sep (map ?f kvs) @ ?t) = emit (commas (map ?g kvs)) (json_lex ?t)"
      by (rule lex_join [OF item sep_new_line]) simp_all
    then show ?thesis using False by (simp add: json_lex_punct punct_def del: json_lex.simps)
  qed (simp add: json_lex_punct punct_def del: json_lex.simps)
qed (simp_all add: json_lex_print del: json_lex.simps json_print.simps)

lemma json_parse_indent: "nums_ok v \<Longrightarrow> json_parse (json_indent 0 v @ [NL]) = Inr (json_clean v)"
  using json_lex_indent [of v "[NL]"] by (intro json_parse_lex) (simp add: num_end_def json_space_def)

subsection \<open>Integer literals\<close>

lemma is_digit_hex_digit [simp]: "d < 10 \<Longrightarrow> is_digit (hex_digit d)"
  by (simp add: is_digit_def hex_digit_def)

lemma digits_is_digit: "c \<in> set (digits 10 n) \<Longrightarrow> is_digit c"
  using digits_set [of 10 c n] by auto

lemma digits_hd_zero: "hd (digits 10 n) = CHR ''0'' \<Longrightarrow> digits 10 n = ''0''"
proof (induction "10 :: nat" n rule: digits.induct)
  case (1 n)
  have z: "hex_digit d = CHR ''0'' \<longleftrightarrow> d = 0" if "d < 10" for d
    using that by (auto simp: hex_digit_def char_of_eq_iff take_bit_eq_mod)
  show ?case
  proof (cases "n < 10")
    case True
    with 1 show ?thesis using z [of n] by (subst (asm) digits.simps) (subst digits.simps, simp)
  next
    case False
    then have u: "digits 10 n = digits 10 (n div 10) @ [hex_digit (n mod 10)]"
      by (subst digits.simps) simp
    then have "digits 10 (n div 10) = ''0''" using 1 False by simp
    moreover have "parse_digits 10 (Suc n) 0 (digits 10 (n div 10)) = Inr (n div 10)"
      by (rule parse_digits_digits) (auto intro: le_imp_less_Suc)
    ultimately have "n div 10 = 0" by (simp add: digit_val_def)
    with False show ?thesis by simp
  qed
qed

lemma takeWhile_digits:
  assumes "\<forall>c \<in> set ds. is_digit c" and "num_end t"
  shows "takeWhile is_digit (ds @ t) = ds" "dropWhile is_digit (ds @ t) = t"
proof -
  have "t = [] \<or> \<not> is_digit (hd t)" using assms(2) by (auto simp: num_end_def is_digit_def)
  then show "takeWhile is_digit (ds @ t) = ds" "dropWhile is_digit (ds @ t) = t"
    using assms(1) by (induction ds; cases t; simp)+
qed

lemma scan_tail: "num_end t \<Longrightarrow> scan_frac t = Some ([], t) \<and> scan_exp t = Some ([], t)"
proof (cases t)
  case (Cons c cs)
  assume "num_end t"
  then have "c \<noteq> CHR ''.''" "c \<noteq> CHR ''e''" "c \<noteq> CHR ''E''" using Cons by (auto simp: num_end_def)
  then show ?thesis using Cons by (simp add: scan_frac_def scan_exp_def split: list.split)
qed (simp add: scan_frac_def scan_exp_def)

lemma scan_int_digits: "num_end t \<Longrightarrow> scan_int (digits 10 n @ t) = Some (digits 10 n, t)"
proof -
  assume t: "num_end t"
  obtain c cs where d: "digits 10 n = c # cs" by (cases "digits 10 n") auto
  have dig: "\<forall>x \<in> set (c # cs). is_digit x" using digits_is_digit d by metis
  show ?thesis
  proof (cases "c = CHR ''0''")
    case True
    then have "cs = []" using digits_hd_zero [of n] d by simp
    with True d show ?thesis by (simp add: scan_int_def)
  next
    case False
    then show ?thesis using d dig takeWhile_digits [of cs t] t by (simp add: scan_int_def)
  qed
qed

lemma num_ok_FormatInt [simp]: "num_ok (FormatInt n)"
proof -
  have hd: "is_digit (hd (digits 10 m))" for m by (rule digits_is_digit [of _ m]) simp
  have sgn: "hd (digits 10 m) \<noteq> CHR ''-''" for m using hd_digits by blast
  have "lex_number (FormatInt n @ t) = Some (FormatInt n, t)" if "num_end t" for t
    using that sgn scan_tail [OF that] scan_int_digits [OF that]
    by (simp add: lex_number_def FormatInt_def Let_def)
  then show ?thesis using hd by (simp add: num_ok_def FormatInt_def)
qed

subsection \<open>What is read is well-formed text\<close>

definition well_text :: "string \<Rightarrow> bool" where
  "well_text s = (utf8_clean s = s)"

lemma well_text_iff: "well_text s \<longleftrightarrow> (\<exists>rs. s = encode_runes rs \<and> (\<forall>r \<in> set rs. scalar r))"
  by (metis well_text_def utf8_clean_def utf8_clean_encode runes_scalar)

lemma well_text_ascii: "\<forall>c \<in> set s. byte c < 0x80 \<Longrightarrow> well_text s"
proof -
  assume a: "\<forall>c \<in> set s. byte c < 0x80"
  then have "s = encode_runes (map byte s)"
    by (induction s) (simp_all add: encode_rune_ascii)
  moreover have "\<forall>r \<in> set (map byte s). scalar r" using a by (auto simp: scalar_def)
  ultimately show ?thesis unfolding well_text_iff by blast
qed

lemma encode_rune_scalar: "\<exists>q. scalar q \<and> encode_rune r = encode_rune q"
proof (cases "scalar r")
  case False
  then show ?thesis by (intro exI [of _ RuneError]) (auto simp: encode_rune_def scalar_def)
qed blast

lemma well_text_rune: "well_text s \<Longrightarrow> well_text (encode_rune r @ s)"
proof -
  assume "well_text s"
  then obtain rs where "s = encode_runes rs" "\<forall>r \<in> set rs. scalar r" by (auto simp: well_text_iff)
  moreover obtain q where "scalar q" "encode_rune r = encode_rune q" using encode_rune_scalar by blast
  ultimately show ?thesis unfolding well_text_iff by (intro exI [of _ "q # rs"]) simp
qed

lemma well_text_prepend:
  "prepend (encode_rune r) x = Some (t, rest) \<Longrightarrow> (\<And>u v. x = Some (u, v) \<Longrightarrow> well_text u) \<Longrightarrow> well_text t"
  by (auto simp: prepend_def intro: well_text_rune)

lemma simple_escape_ascii: "simple_escape d = Some r \<Longrightarrow> [chr r] = encode_rune r"
  by (auto simp: simple_escape_def encode_rune_ascii split: if_splits)

lemma lex_string_well: "lex_string s = Some (t, rest) \<Longrightarrow> well_text t"
proof (induction s arbitrary: t rest rule: lex_string.induct)
  case (2 c cs)
  have e: "well_text []" by (simp add: well_text_def utf8_clean_def)
  show ?case
    using 2 e
    by (fastforce simp: prepend_def simple_escape_ascii simp del: decode_rune.simps
        split: if_splits list.splits option.splits intro: well_text_rune)
qed simp

fun token_well :: "token \<Rightarrow> bool" where
  "token_well (TStr s) = well_text s"
| "token_well _ = True"

lemma punct_well: "punct c = Some t \<Longrightarrow> token_well t"
  by (auto simp: punct_def split: if_splits)

lemma token_cons_well:
  "map_option ((#) t) x = Some ts \<Longrightarrow> token_well t \<Longrightarrow> (\<And>us. x = Some us \<Longrightarrow> list_all token_well us) \<Longrightarrow> list_all token_well ts"
  by (cases x) auto

lemma json_lex_well: "json_lex s = Some ts \<Longrightarrow> list_all token_well ts"
proof (induction s arbitrary: ts rule: json_lex.induct)
  case (2 c cs)
  show ?case
  proof (cases "json_space c \<or> punct c \<noteq> None \<or> c = DQ")
    case True
    with 2 show ?thesis
      by (auto split: option.splits if_splits dest: punct_well lex_string_well simp del: map_option_emit)
  next
    case False
    then have c: "json_space c = False" "punct c = None" "(c = DQ) = False" by simp_all
    have nf: "\<not> False" by simp
    note lex = "2.prems" [unfolded json_lex.simps(2) c option.case if_False]
      and IH = "2.IH"(3-6) [unfolded c, OF nf refl nf]
    show ?thesis
    proof (cases "HasPrefix (c # cs) ''null'' \<or> HasPrefix (c # cs) ''true'' \<or> HasPrefix (c # cs) ''false''")
      case True
      then show ?thesis using lex IH(1-3) token_cons_well [of TNull] token_cons_well [of TTrue] token_cons_well [of TFalse]
        by (simp only: token_well.simps split: if_splits) blast+
    next
      case F: False
      then obtain n rest where n: "lex_number (c # cs) = Some (n, rest)" "map_option ((#) (TNum n)) (json_lex rest) = Some ts"
        using lex by (cases "lex_number (c # cs)") (simp_all del: map_option_emit split: prod.splits)
      show ?thesis
        by (rule token_cons_well [OF n(2)]) (use IH(4) F n(1) in simp_all)
    qed
  qed
qed simp

fun json_well :: "json \<Rightarrow> bool" where
  "json_well (JStr s) = well_text s"
| "json_well (JArr xs) = list_all json_well xs"
| "json_well (JObj kvs) = list_all (\<lambda>kv. well_text (fst kv) \<and> json_well (snd kv)) kvs"
| "json_well _ = True"

lemma tokens_cases:
  obtains "ts = []"
  | a r where "ts = a # r" "a \<noteq> TLBrack" "a \<noteq> TLBrace"
  | r where "ts = TLBrack # TRBrack # r"
  | r where "ts = TLBrack # r" "\<nexists>q. r = TRBrack # q"
  | r where "ts = TLBrace # TRBrace # r"
  | r where "ts = TLBrace # r" "\<nexists>q. r = TRBrace # q"
  by (cases ts) (metis list.exhaust)+

lemma parse_open:
  "(\<nexists>q. r = TRBrack # q) \<Longrightarrow> parse_value (Suc n) (TLBrack # r) = map_option (\<lambda>x. (JArr (fst x), snd x)) (parse_elems n r)"
  "(\<nexists>q. r = TRBrace # q) \<Longrightarrow> parse_value (Suc n) (TLBrace # r) = map_option (\<lambda>x. (JObj (fst x), snd x)) (parse_members n r)"
  by (auto split: list.splits token.splits)

lemma parse_well:
  "parse_value n ts = Some (v, r) \<Longrightarrow> list_all token_well ts \<Longrightarrow> json_well v \<and> list_all token_well r"
  "parse_elems n ts = Some (vs, r) \<Longrightarrow> list_all token_well ts \<Longrightarrow> list_all json_well vs \<and> list_all token_well r"
  "parse_members n ts = Some (kvs, r) \<Longrightarrow> list_all token_well ts \<Longrightarrow>
    list_all (\<lambda>kv. well_text (fst kv) \<and> json_well (snd kv)) kvs \<and> list_all token_well r"
proof (induction n arbitrary: ts v vs kvs r)
  case (Suc n)
  {
    case 1
    show ?case
    proof (cases ts rule: tokens_cases)
      case (2 a q)
      then show ?thesis using 1 by (cases a) auto
    next
      case (4 q)
      then show ?thesis using 1 Suc.IH(2) [of q] by (auto simp: parse_open simp del: parse_value.simps)
    next
      case (6 q)
      then show ?thesis using 1 Suc.IH(3) [of q] by (auto simp: parse_open simp del: parse_value.simps)
    qed (use 1 in auto)
  next
    case 2
    then show ?case using Suc.IH(1) [of ts] Suc.IH(2) by (fastforce split: token.splits list.splits option.splits)
  next
    case 3
    then show ?case using Suc.IH(1,3) by (fastforce split: token.splits list.splits option.splits)
  }
qed simp_all

lemma json_parse_well: "json_parse s = Inr v \<Longrightarrow> json_well v"
  by (auto simp: json_parse_def simp del: parse_value.simps split: option.splits list.splits dest!: json_lex_well parse_well(1))

subsection \<open>Decoding into Go values\<close>

text \<open>
  \<^verbatim>\<open>json.Unmarshal\<close> into a struct visits the members in the order of the document and decodes
  each into the field whose name it matches without regard to case; unknown members are skipped,
  \<^verbatim>\<open>null\<close> leaves a value alone, and a value of the wrong type is remembered as the error of the
  whole call while decoding goes on. The texts of these errors are those of the package only in
  outline.
\<close>

definition unmarshal_type_error :: "json \<Rightarrow> string \<Rightarrow> go_error" where
  "unmarshal_type_error v typ =
    errors_New (''json: cannot unmarshal '' @
      (case v of JNum _ \<Rightarrow> ''number'' | JBool _ \<Rightarrow> ''bool'' | JStr _ \<Rightarrow> ''string'' | JArr _ \<Rightarrow> ''array''
       | JObj _ \<Rightarrow> ''object'' | JNull \<Rightarrow> ''null'') @ '' into Go value of type '' @ typ)"

type_synonym 'r decoder = "json \<Rightarrow> 'r \<Rightarrow> go_error option \<times> 'r"

definition first_error :: "go_error option \<Rightarrow> go_error option \<Rightarrow> go_error option" where
  "first_error a b = (case a of None \<Rightarrow> b | Some e \<Rightarrow> Some e)"

fun decode_members :: "(string \<times> 'r decoder) list \<Rightarrow> (string \<times> json) list \<Rightarrow> 'r \<Rightarrow> go_error option \<times> 'r" where
  "decode_members fields [] r = (None, r)"
| "decode_members fields ((k, v) # kvs) r =
    (case find (\<lambda>f. EqualFold k (fst f)) fields of
       None \<Rightarrow> decode_members fields kvs r
     | Some f \<Rightarrow>
         (case snd f v r of (e1, r1) \<Rightarrow>
            case decode_members fields kvs r1 of (e2, r2) \<Rightarrow> (first_error e1 e2, r2)))"

definition decode_struct :: "string \<Rightarrow> (string \<times> 'r decoder) list \<Rightarrow> 'r decoder" where
  "decode_struct typ fields v r =
    (case v of
       JNull \<Rightarrow> (None, r)
     | JObj kvs \<Rightarrow> decode_members fields kvs r
     | _ \<Rightarrow> (Some (unmarshal_type_error v typ), r))"

definition decode_string :: "(string \<Rightarrow> 'r \<Rightarrow> 'r) \<Rightarrow> 'r decoder" where
  "decode_string put v r =
    (case v of
       JNull \<Rightarrow> (None, r)
     | JStr s \<Rightarrow> (None, put s r)
     | _ \<Rightarrow> (Some (unmarshal_type_error v ''string''), r))"

definition decode_bool :: "(bool \<Rightarrow> 'r \<Rightarrow> 'r) \<Rightarrow> 'r decoder" where
  "decode_bool put v r =
    (case v of
       JNull \<Rightarrow> (None, r)
     | JBool b \<Rightarrow> (None, put b r)
     | _ \<Rightarrow> (Some (unmarshal_type_error v ''bool''), r))"

text \<open>A whole document, from a zero value.\<close>

definition json_Unmarshal :: "'r decoder \<Rightarrow> 'r \<Rightarrow> string \<Rightarrow> 'r result" where
  "json_Unmarshal dec zero text =
    (case json_parse text of
       Inl e \<Rightarrow> Inl e
     | Inr v \<Rightarrow> (case dec v zero of (Some e, _) \<Rightarrow> Inl e | (None, r) \<Rightarrow> Inr r))"

subsection \<open>Decoders for numbers, pointers and slices\<close>

definition decode_int :: "(int \<Rightarrow> 'r \<Rightarrow> 'r) \<Rightarrow> 'r decoder" where
  "decode_int put v r =
    (case v of
       JNull \<Rightarrow> (None, r)
     | JNum n \<Rightarrow> (case ParseInt10 n of Inr i \<Rightarrow> (None, put i r) | Inl _ \<Rightarrow> (Some (unmarshal_type_error v ''int''), r))
     | _ \<Rightarrow> (Some (unmarshal_type_error v ''int''), r))"

text \<open>A pointer: \<^verbatim>\<open>null\<close> is nil, anything else is decoded into the value it points to or a new one.\<close>

definition decode_ptr :: "'x \<Rightarrow> ('r \<Rightarrow> 'x option) \<Rightarrow> ('x option \<Rightarrow> 'r \<Rightarrow> 'r) \<Rightarrow> 'x decoder \<Rightarrow> 'r decoder" where
  "decode_ptr zero get put dec v r =
    (case v of
       JNull \<Rightarrow> (None, put None r)
     | _ \<Rightarrow> (case dec v (case get r of None \<Rightarrow> zero | Some x \<Rightarrow> x) of (e, x) \<Rightarrow> (e, put (Some x) r)))"

fun decode_elements :: "'x \<Rightarrow> 'x decoder \<Rightarrow> json list \<Rightarrow> go_error option \<times> 'x list" where
  "decode_elements zero dec [] = (None, [])"
| "decode_elements zero dec (v # vs) =
    (case dec v zero of (e1, x) \<Rightarrow>
       case decode_elements zero dec vs of (e2, xs) \<Rightarrow> (first_error e1 e2, x # xs))"

text \<open>
  A slice: \<^verbatim>\<open>null\<close> is nil, an array replaces the elements. When a document repeats the key of a slice,
  Go decodes the second array over the elements of the first; here its elements start from the zero
  value, so such documents are only represented in outline.
\<close>

definition decode_slice :: "'x \<Rightarrow> ('x list option \<Rightarrow> 'r \<Rightarrow> 'r) \<Rightarrow> 'x decoder \<Rightarrow> string \<Rightarrow> 'r decoder" where
  "decode_slice zero put dec typ v r =
    (case v of
       JNull \<Rightarrow> (None, put None r)
     | JArr vs \<Rightarrow> (case decode_elements zero dec vs of (e, xs) \<Rightarrow> (e, put (Some xs) r))
     | _ \<Rightarrow> (Some (unmarshal_type_error v typ), r))"

lemma decode_ptr_value:
  "v \<noteq> JNull \<Longrightarrow> decode_ptr zero get put dec v r =
    (case dec v (case get r of None \<Rightarrow> zero | Some x \<Rightarrow> x) of (e, x) \<Rightarrow> (e, put (Some x) r))"
  by (cases v) (simp_all add: decode_ptr_def)

lemma decode_elements_map:
  "(\<And>x. x \<in> set xs \<Longrightarrow> dec (enc x) zero = (None, x)) \<Longrightarrow> decode_elements zero dec (map enc xs) = (None, xs)"
  by (induction xs) (simp_all add: first_error_def)

lemma well_text_append: "well_text s \<Longrightarrow> well_text t \<Longrightarrow> well_text (s @ t)"
  unfolding well_text_iff by (metis Un_iff encode_runes_simps(3) set_append)

lemma EqualFold_ascii:
  "\<forall>c \<in> set s. byte c < 0x80 \<Longrightarrow> \<forall>c \<in> set t. byte c < 0x80 \<Longrightarrow>
    EqualFold s t \<longleftrightarrow> map (rune_fold \<circ> byte) s = map (rune_fold \<circ> byte) t"
  by (simp add: EqualFold_def runes_ascii)

lemma clean_ascii: "\<forall>c \<in> set s. byte c < 0x80 \<Longrightarrow> utf8_clean s = s"
  using well_text_ascii by (simp add: well_text_def)

subsection \<open>Invariants of decoding\<close>

text \<open>A property of the target that the decoders of the fds keep is kept by the whole struct.\<close>

lemma decode_members_inv:
  assumes "\<And>f v r. f \<in> set fds \<Longrightarrow> json_well v \<Longrightarrow> P r \<Longrightarrow> P (snd (snd f v r))"
    and "list_all (\<lambda>kv. json_well (snd kv)) kvs" "P r"
  shows "P (snd (decode_members fds kvs r))"
  using assms(2,3)
proof (induction kvs arbitrary: r)
  case (Cons kv kvs)
  obtain key v where kv: "kv = (key, v)" by (cases kv)
  show ?case
  proof (cases "find (\<lambda>f. EqualFold key (fst f)) fds")
    case None
    then show ?thesis using Cons by (simp add: kv)
  next
    case (Some f)
    have "P (snd (snd f v r))" using assms(1) [of f v r] find_SomeD [OF Some] Cons.prems by (simp add: kv)
    then show ?thesis using Cons Some by (simp add: kv case_prod_beta)
  qed
qed simp

lemma decode_struct_inv:
  assumes "\<And>f v r. f \<in> set fds \<Longrightarrow> json_well v \<Longrightarrow> P r \<Longrightarrow> P (snd (snd f v r))" "json_well v" "P r"
  shows "P (snd (decode_struct typ fds v r))"
  using assms(2,3) decode_members_inv [of fds P, OF assms(1)]
  by (cases v) (auto simp: decode_struct_def list_all_iff)

lemma decode_elements_inv:
  "list_all json_well vs \<Longrightarrow> (\<And>v. json_well v \<Longrightarrow> P (snd (dec v zero))) \<Longrightarrow> list_all P (snd (decode_elements zero dec vs))"
  by (induction vs) (auto simp: case_prod_beta)

end
