(* ===== verification/Go_Float.thy ===== *)
theory Go_Float
  imports Complex_Main Go_Text "HOL-Library.Log_Nat"
begin

text \<open>
  The type \<^verbatim>\<open>float64\<close> and the operations on it that the program performs: comparison, the test
  for NaN and infinities, multiplication, subtraction, division, \<^verbatim>\<open>math.Round\<close> and
  \<^verbatim>\<open>strconv.ParseFloat\<close>. A finite value is the rational number it stands for; an arithmetic
  result is the exact result rounded to the nearest binary64 value, ties to even. The sign of
  zero is not represented: no operation of the program distinguishes the two zeros.
\<close>

datatype float64 = NaN | PInf | NInf | Fin rat

definition IsNaN :: "float64 \<Rightarrow> bool" where
  "IsNaN x = (x = NaN)"

definition IsInf :: "float64 \<Rightarrow> bool" where
  "IsInf x = (x = PInf \<or> x = NInf)"

lemma not_NaN_Inf_iff: "\<not> IsNaN x \<and> \<not> IsInf x \<longleftrightarrow> (\<exists>q. x = Fin q)"
  by (cases x) (auto simp: IsNaN_def IsInf_def)

text \<open>The comparison \<open>x < y\<close>; it is false whenever an operand is NaN.\<close>

fun f64_less :: "float64 \<Rightarrow> float64 \<Rightarrow> bool" where
  "f64_less NaN _ = False"
| "f64_less _ NaN = False"
| "f64_less PInf _ = False"
| "f64_less _ NInf = False"
| "f64_less NInf _ = True"
| "f64_less _ PInf = True"
| "f64_less (Fin x) (Fin y) = (x < y)"

definition f64_ge :: "float64 \<Rightarrow> float64 \<Rightarrow> bool" where
  "f64_ge x y = (\<not> IsNaN x \<and> \<not> IsNaN y \<and> \<not> f64_less x y)"

subsection \<open>Rounding to binary64\<close>

definition round_half_even :: "rat \<Rightarrow> int" where
  "round_half_even x =
    (let f = floor x; d = x - of_int f in
     if d < 1 / 2 then f else if 1 / 2 < d then f + 1 else if even f then f else f + 1)"

text \<open>The exponent of the unit in the last place of a normal value.\<close>

definition ulp_exp :: "rat \<Rightarrow> int" where
  "ulp_exp x =
    (let (a, b) = quotient_of \<bar>x\<bar>; e = bitlen a - bitlen b - 53 in
     if \<bar>x\<bar> < 2 powi (e + 53) then e else e + 1)"

text \<open>The least power of two beyond the range, with its value for evaluation.\<close>

definition f64_limit :: rat where
  "f64_limit = 2 ^ 1024"

lemma f64_limit_code [code]:
  "f64_limit = 179769313486231590772930519078902473361797697894230657273430081157732675805500963132708477322407536021120113879871393357658789768814416622492847430639474124377767893424865485276302219601246094119453082952085005768838150682342462881473913110540827237163350510684586298239947245938479716304835356329624224137216"
  by (simp add: f64_limit_def)

definition f64_round :: "rat \<Rightarrow> float64" where
  "f64_round x =
    (if x = 0 then Fin 0
     else let e = max (ulp_exp x) (- 1074);
              v = of_int (round_half_even (x / 2 powi e)) * 2 powi e
          in if \<bar>v\<bar> < f64_limit then Fin v else if x < 0 then NInf else PInf)"

fun f64_neg :: "float64 \<Rightarrow> float64" where
  "f64_neg NaN = NaN"
| "f64_neg PInf = NInf"
| "f64_neg NInf = PInf"
| "f64_neg (Fin x) = Fin (- x)"

fun inf_times :: "rat \<Rightarrow> float64" where
  "inf_times s = (if s = 0 then NaN else if s < 0 then NInf else PInf)"

fun f64_mul :: "float64 \<Rightarrow> float64 \<Rightarrow> float64" where
  "f64_mul NaN _ = NaN"
| "f64_mul _ NaN = NaN"
| "f64_mul (Fin x) (Fin y) = f64_round (x * y)"
| "f64_mul (Fin x) PInf = inf_times x"
| "f64_mul (Fin x) NInf = inf_times (- x)"
| "f64_mul PInf (Fin y) = inf_times y"
| "f64_mul NInf (Fin y) = inf_times (- y)"
| "f64_mul PInf PInf = PInf"
| "f64_mul NInf NInf = PInf"
| "f64_mul PInf NInf = NInf"
| "f64_mul NInf PInf = NInf"

text \<open>Subtraction and division are performed on finite operands, with a nonzero divisor.\<close>

definition f64_sub_fin :: "rat \<Rightarrow> rat \<Rightarrow> float64" where
  "f64_sub_fin x y = f64_round (x - y)"

definition f64_div_fin :: "rat \<Rightarrow> rat \<Rightarrow> float64" where
  "f64_div_fin x y = f64_round (x / y)"

text \<open>\<^verbatim>\<open>math.Round\<close>: to the nearest integer, halves away from zero.\<close>

definition round_half_away :: "rat \<Rightarrow> int" where
  "round_half_away x = (if x < 0 then - floor (\<bar>x\<bar> + 1 / 2) else floor (x + 1 / 2))"

fun math_Round :: "float64 \<Rightarrow> float64" where
  "math_Round (Fin x) = Fin (of_int (round_half_away x))"
| "math_Round x = x"

subsection \<open>Parsing\<close>

definition ascii_lower :: "char \<Rightarrow> char" where
  "ascii_lower c = (if 65 \<le> byte c \<and> byte c \<le> 90 then chr (byte c + 32) else c)"

text \<open>
  The digits of the mantissa: its value, the number of digits after the point, whether a point
  and whether a digit was seen, and the text that follows. Underscores are skipped here and
  checked afterwards.
\<close>

fun scan_mantissa :: "nat \<Rightarrow> nat \<Rightarrow> nat \<Rightarrow> bool \<Rightarrow> bool \<Rightarrow> string \<Rightarrow> nat \<times> nat \<times> bool \<times> string" where
  "scan_mantissa base mant fdig sawdot sawdigits [] = (mant, fdig, sawdigits, [])"
| "scan_mantissa base mant fdig sawdot sawdigits (c # cs) =
    (if c = CHR ''_'' then scan_mantissa base mant fdig sawdot sawdigits cs
     else if c = CHR ''.'' then
       (if sawdot then (mant, fdig, sawdigits, c # cs)
        else scan_mantissa base mant fdig True sawdigits cs)
     else case digit_val c of
       None \<Rightarrow> (mant, fdig, sawdigits, c # cs)
     | Some d \<Rightarrow>
         if d < base
         then scan_mantissa base (mant * base + d) (if sawdot then fdig + 1 else fdig) sawdot True cs
         else (mant, fdig, sawdigits, c # cs))"

text \<open>The digits of the exponent; the value stops growing at five digits.\<close>

fun scan_exponent :: "nat \<Rightarrow> string \<Rightarrow> nat \<times> string" where
  "scan_exponent e [] = (e, [])"
| "scan_exponent e (c # cs) =
    (if c = CHR ''_'' then scan_exponent e cs
     else if 48 \<le> byte c \<and> byte c \<le> 57
       then scan_exponent (if e < 10000 then e * 10 + (byte c - 48) else e) cs
     else (e, c # cs))"

datatype saw = SawNothing | SawDigit | SawUnderscore | SawOther

fun underscores_ok :: "bool \<Rightarrow> saw \<Rightarrow> string \<Rightarrow> bool" where
  "underscores_ok hex prev [] = (prev \<noteq> SawUnderscore)"
| "underscores_ok hex prev (c # cs) =
    (if (48 \<le> byte c \<and> byte c \<le> 57) \<or> (hex \<and> digit_val c \<noteq> None)
       then underscores_ok hex SawDigit cs
     else if c = CHR ''_'' then prev = SawDigit \<and> underscores_ok hex SawUnderscore cs
     else prev \<noteq> SawUnderscore \<and> underscores_ok hex SawOther cs)"

definition float_syntax :: "string \<Rightarrow> rat option" where
  "float_syntax s =
    (let hex = (2 < length s \<and> s ! 0 = CHR ''0'' \<and> ascii_lower (s ! 1) = CHR ''x'');
         base = (if hex then 16 else 10);
         body = (if hex then drop 2 s else s);
         legacy = (2 \<le> length s \<and> s ! 0 = CHR ''0'' \<and>
                   (ascii_lower (s ! 1) = CHR ''b'' \<or> ascii_lower (s ! 1) = CHR ''o'' \<or>
                    ascii_lower (s ! 1) = CHR ''x''));
         us_ok = (CHR ''_'' \<notin> set s \<or>
                  (if legacy then underscores_ok (ascii_lower (s ! 1) = CHR ''x'') SawDigit (drop 2 s)
                   else underscores_ok False SawNothing s))
     in case scan_mantissa base 0 0 False False body of (mant, fdig, sawdigits, rest) \<Rightarrow>
       if \<not> sawdigits \<or> \<not> us_ok then None
       else case rest of
         [] \<Rightarrow> if hex then None else Some (of_nat mant * 10 powi (- int fdig))
       | x # xs \<Rightarrow>
           if ascii_lower x \<noteq> (if hex then CHR ''p'' else CHR ''e'') then None
           else
             let eneg = (xs \<noteq> [] \<and> hd xs = CHR ''-'');
                 ebody = (if xs \<noteq> [] \<and> (hd xs = CHR ''-'' \<or> hd xs = CHR ''+'') then tl xs else xs)
             in if ebody = [] \<or> \<not> (48 \<le> byte (hd ebody) \<and> byte (hd ebody) \<le> 57) then None
                else case scan_exponent 0 ebody of (e, tail) \<Rightarrow>
                  if tail \<noteq> [] then None
                  else
                    let ex = (if eneg then - int e else int e)
                    in Some (if hex then of_nat mant * 2 powi (ex - 4 * int fdig)
                             else of_nat mant * 10 powi (ex - int fdig)))"

text \<open>\<^verbatim>\<open>strconv.ParseFloat(s, 64)\<close>; a result out of range is an error.\<close>

definition ParseFloat :: "string \<Rightarrow> float64 result" where
  "ParseFloat s =
    (let signed = (s \<noteq> [] \<and> (hd s = CHR ''-'' \<or> hd s = CHR ''+''));
         neg = (s \<noteq> [] \<and> hd s = CHR ''-'');
         body = (if signed then tl s else s);
         low = map ascii_lower body
     in if low = ''inf'' \<or> low = ''infinity'' then Inr (if neg then NInf else PInf)
        else if \<not> signed \<and> low = ''nan'' then Inr NaN
        else case float_syntax body of
          None \<Rightarrow> Inl (num_error ''ParseFloat'' s ErrSyntax)
        | Some q \<Rightarrow>
            (case f64_round (if neg then - q else q) of
               Fin v \<Rightarrow> Inr (Fin v)
             | _ \<Rightarrow> Inl (num_error ''ParseFloat'' s ErrRange)))"

subsection \<open>Exactness\<close>

lemma round_half_even_of_int [simp]: "round_half_even (of_int m) = m"
  by (simp add: round_half_even_def)

lemma ulp_exp_of_int: "\<bar>m\<bar> < 2 ^ 53 \<Longrightarrow> m \<noteq> 0 \<Longrightarrow> ulp_exp (of_int m) \<le> 0"
proof -
  assume m: "\<bar>m\<bar> < 2 ^ 53" "m \<noteq> 0"
  have q: "quotient_of \<bar>of_int m :: rat\<bar> = (\<bar>m\<bar>, 1)"
    by (metis of_int_abs quotient_of_rat_of_int)
  have "bitlen \<bar>m\<bar> \<le> 53"
    using m bitlen_le_iff_power [of "\<bar>m\<bar>" 53] by simp
  moreover have "bitlen 1 = 1" by (simp add: compute_bitlen)
  ultimately show ?thesis unfolding ulp_exp_def q by (simp add: Let_def)
qed

lemma f64_round_of_int: "\<bar>m\<bar> < 2 ^ 53 \<Longrightarrow> f64_round (of_int m) = Fin (of_int m)"
proof (cases "m = 0")
  case False
  assume m: "\<bar>m\<bar> < 2 ^ 53"
  define e where "e = max (ulp_exp (of_int m)) (- 1074)"
  have e: "e \<le> 0" using ulp_exp_of_int [OF m False] by (simp add: e_def)
  then have pw: "(2 :: rat) powi e = inverse (2 ^ nat (- e))"
    by (auto simp: power_int_def power_one_over inverse_eq_divide)
  have "of_int m / 2 powi e = (of_int (m * 2 ^ nat (- e)) :: rat)"
    by (simp add: pw field_simps)
  then have "round_half_even (of_int m / 2 powi e) = m * 2 ^ nat (- e)"
    by (simp only: round_half_even_of_int)
  then have v: "of_int (round_half_even (of_int m / 2 powi e)) * 2 powi e = (of_int m :: rat)"
    by (simp add: pw)
  have "\<bar>of_int m :: rat\<bar> < 2 ^ 53" using m by (metis of_int_abs of_int_less_iff of_int_numeral of_int_power)
  also have "\<dots> < 2 ^ 1024" by (intro power_strict_increasing) simp_all
  finally show ?thesis
    using False v by (simp add: f64_round_def f64_limit_def Let_def e_def [symmetric])
qed (simp add: f64_round_def)

lemma round_half_away_of_int [simp]: "round_half_away (of_int m) = m"
proof (cases "m < 0")
  case True
  have "floor (\<bar>of_int m\<bar> + 1 / 2 :: rat) = - m"
    using True by (intro floor_unique) simp_all
  then show ?thesis using True by (simp add: round_half_away_def)
next
  case False
  have "floor (of_int m + 1 / 2 :: rat) = m" by (intro floor_unique) simp_all
  then show ?thesis using False by (simp add: round_half_away_def)
qed

text \<open>\<^verbatim>\<open>math.Round\<close> moves a value by at most one half.\<close>

lemma round_half_away_close: "\<bar>of_int (round_half_away x) - x\<bar> \<le> 1 / 2"
proof -
  define k where "k = floor (\<bar>x\<bar> + 1 / 2)"
  have "of_int k \<le> \<bar>x\<bar> + 1 / 2" "\<bar>x\<bar> + 1 / 2 < of_int k + 1"
    unfolding k_def by linarith+
  moreover have "round_half_away x = (if x < 0 then - k else k)"
    by (simp add: round_half_away_def k_def)
  ultimately have "of_int (round_half_away x) - x \<le> 1 / 2" "- (of_int (round_half_away x) - x) \<le> 1 / 2"
    by (auto split: if_splits)
  then show ?thesis by (rule abs_leI)
qed

end
