(* ===== verification/Float_Text.thy ===== *)
theory Float_Text
  imports Json Go_Float
begin

text \<open>
  How \<^verbatim>\<open>encoding/json\<close> prints a \<^verbatim>\<open>float64\<close>: the shortest decimal digits that are read back as the
  same value (the closest such number when there are several), in positional notation between
  \<open>1e-6\<close> and \<open>1e21\<close> and with an exponent outside.
\<close>

subsection \<open>Shortest digits\<close>

text \<open>The position of the decimal point: \<open>10 ^ (k - 1) \<le> x < 10 ^ k\<close> for positive \<open>x\<close>.\<close>

definition decimal_exponent :: "rat \<Rightarrow> int" where
  "decimal_exponent x =
    (let (a, b) = quotient_of x; k = int (length (digits 10 (nat a))) - int (length (digits 10 (nat b)))
     in if x < 10 powi k then k else k + 1)"

text \<open>The numbers of \<open>n\<close> digits next to \<open>x\<close>, the closer one first.\<close>

definition neighbours :: "rat \<Rightarrow> int \<Rightarrow> int list" where
  "neighbours x shift =
    (let y = x * 10 powi shift; lo = floor y; d = y - of_int lo in
     if d < 1 / 2 \<or> (d = 1 / 2 \<and> even lo) then [lo, lo + 1] else [lo + 1, lo])"

definition reads_back :: "rat \<Rightarrow> int \<Rightarrow> int \<Rightarrow> bool" where
  "reads_back x shift d = (f64_round (of_int d * 10 powi (- shift)) = Fin x)"

fun shortest :: "nat \<Rightarrow> rat \<Rightarrow> int \<Rightarrow> int \<times> int" where
  "shortest fuel x shift =
    (case find (reads_back x shift) (neighbours x shift) of
       Some d \<Rightarrow> (d, - shift)
     | None \<Rightarrow> (case fuel of 0 \<Rightarrow> (0, 0) | Suc m \<Rightarrow> shortest m x (shift + 1)))"

declare shortest.simps [simp del]

text \<open>
  The search starts at one digit. A binary64 value has at most 1074 binary digits after the point,
  so it ends by then with the value itself.
\<close>

definition shortest_decimal :: "rat \<Rightarrow> int \<times> int" where
  "shortest_decimal x = (let k = decimal_exponent x in shortest (nat (1074 + k)) x (1 - k))"

subsection \<open>Layout\<close>

definition positional :: "string \<Rightarrow> int \<Rightarrow> string" where
  "positional ds p =
    (if p \<le> 0 then ''0.'' @ replicate (nat (- p)) (CHR ''0'') @ ds
     else if int (length ds) \<le> p then ds @ replicate (nat (p - int (length ds))) (CHR ''0'')
     else take (nat p) ds @ ''.'' @ drop (nat p) ds)"

definition scientific :: "string \<Rightarrow> int \<Rightarrow> string" where
  "scientific ds p =
    (let e = p - 1 in
     take 1 ds @ (if drop 1 ds = [] then [] else CHR ''.'' # drop 1 ds) @
     (if e < 0 then ''e-'' @ digits 10 (nat (- e)) else ''e+'' @ pad_left 2 (CHR ''0'') (digits 10 (nat e))))"

text \<open>The digits without trailing zeros, and the position of the point relative to their start.\<close>

definition trimmed :: "int \<times> int \<Rightarrow> string \<times> int" where
  "trimmed de =
    (let all = digits 10 (nat (fst de)) in
     (rev (dropWhile (\<lambda>c. c = CHR ''0'') (rev all)), int (length all) + snd de))"

definition float_text :: "rat \<Rightarrow> string" where
  "float_text x =
    (if x = 0 then ''0''
     else
       (if x < 0 then ''-'' else []) @
       (case trimmed (shortest_decimal \<bar>x\<bar>) of
          (ds, p) \<Rightarrow> if \<bar>x\<bar> < 1 / 10 ^ 6 \<or> 10 ^ 21 \<le> \<bar>x\<bar> then scientific ds p else positional ds p))"

text \<open>NaN and the infinities have no JSON representation.\<close>

fun encode_float :: "float64 \<Rightarrow> json result" where
  "encode_float (Fin x) = Inr (JNum (float_text x))"
| "encode_float NaN = Inl (errors_New ''json: unsupported value: NaN'')"
| "encode_float PInf = Inl (errors_New ''json: unsupported value: +Inf'')"
| "encode_float NInf = Inl (errors_New ''json: unsupported value: -Inf'')"

definition decode_float :: "(float64 \<Rightarrow> 'r \<Rightarrow> 'r) \<Rightarrow> 'r decoder" where
  "decode_float put v r =
    (case v of
       JNull \<Rightarrow> (None, r)
     | JNum n \<Rightarrow> (case ParseFloat n of Inr f \<Rightarrow> (None, put f r) | Inl _ \<Rightarrow> (Some (unmarshal_type_error v ''float64''), r))
     | _ \<Rightarrow> (Some (unmarshal_type_error v ''float64''), r))"

subsection \<open>Values of binary64\<close>

definition binary64 :: "rat \<Rightarrow> bool" where
  "binary64 x = (f64_round x = Fin x)"

lemma round_half_even_neg: "round_half_even (- x) = - round_half_even x"
proof (cases "x = of_int (floor x)")
  case True
  then show ?thesis by (metis of_int_minus round_half_even_of_int)
next
  case False
  define k where "k = floor x"
  have k: "of_int k < x" "x < of_int k + 1"
    using False unfolding k_def by (linarith, linarith)
  have n: "floor (- x) = - k - 1" using k by (intro floor_unique) simp_all
  show ?thesis using k unfolding round_half_even_def Let_def n k_def [symmetric] by (auto simp: field_simps)
qed

lemma f64_round_neg: "f64_round (- x) = f64_neg (f64_round x)"
proof -
  have "ulp_exp (- x) = ulp_exp x" by (simp add: ulp_exp_def)
  then show ?thesis by (auto simp: f64_round_def Let_def round_half_even_neg)
qed

lemma binary64_abs: "binary64 x \<Longrightarrow> binary64 \<bar>x\<bar>"
  using f64_round_neg [of x] by (auto simp: binary64_def abs_if)

lemma binary64_dyadic: "binary64 x \<Longrightarrow> \<exists>r e. x = of_int r * 2 powi e \<and> - 1074 \<le> e"
proof (cases "x = 0")
  case False
  assume b: "binary64 x"
  define e where "e = max (ulp_exp x) (- 1074)"
  have "x = of_int (round_half_even (x / 2 powi e)) * 2 powi e"
    using b False by (simp add: binary64_def f64_round_def Let_def e_def split: if_splits)
  moreover have "- 1074 \<le> e" by (simp add: e_def)
  ultimately show ?thesis by blast
qed (intro exI [of _ 0], simp)

lemma binary64_decimal: "binary64 x \<Longrightarrow> 1074 \<le> j \<Longrightarrow> \<exists>m. x * 10 powi j = of_int m"
proof -
  assume b: "binary64 x" and j: "1074 \<le> j"
  obtain r e where x: "x = of_int r * 2 powi e" "- 1074 \<le> e" using binary64_dyadic [OF b] by blast
  have "(10 :: rat) powi j = 2 powi j * 5 powi j" by (simp flip: power_int_mult_distrib)
  then have "x * 10 powi j = of_int r * (2 powi e * 2 powi j) * 5 powi j" by (simp add: x(1))
  also have "(2 :: rat) powi e * 2 powi j = 2 powi (e + j)" by (simp add: power_int_add)
  also have "(2 :: rat) powi (e + j) = of_int (2 ^ nat (e + j))" using j x(2) by (simp add: power_int_def)
  also have "(5 :: rat) powi j = of_int (5 ^ nat j)" using j by (simp add: power_int_def)
  finally have "x * 10 powi j = of_int (r * 2 ^ nat (e + j) * 5 ^ nat j)" by simp
  then show ?thesis by blast
qed

subsection \<open>The search succeeds\<close>

lemma exact_found:
  assumes "binary64 x" "1074 \<le> shift"
  shows "find (reads_back x shift) (neighbours x shift) \<noteq> None"
proof -
  obtain m where m: "x * 10 powi shift = of_int m" using binary64_decimal [OF assms] by blast
  have "of_int m * (10 :: rat) powi (- shift) = x"
    by (simp flip: m add: power_int_minus)
  then have "reads_back x shift m" using assms(1) by (simp add: reads_back_def binary64_def)
  moreover have "m \<in> set (neighbours x shift)" by (simp add: neighbours_def m)
  ultimately show ?thesis by (auto simp: find_None_iff)
qed

lemma shortest_reads_back:
  assumes "binary64 x" "1074 \<le> shift + int fuel" "shortest fuel x shift = (d, e)"
  shows "f64_round (of_int d * 10 powi e) = Fin x"
  using assms(2,3)
proof (induction fuel arbitrary: shift)
  case 0
  then obtain c where "find (reads_back x shift) (neighbours x shift) = Some c"
    using exact_found [OF assms(1)] by auto
  then show ?case using 0 find_SomeD by (fastforce simp: shortest.simps reads_back_def)
next
  case (Suc m)
  show ?case
  proof (cases "find (reads_back x shift) (neighbours x shift)")
    case None
    then have "shortest m x (shift + 1) = (d, e)" using Suc.prems(2) by (simp add: shortest.simps [of "Suc m"])
    then show ?thesis using Suc.IH [of "shift + 1"] Suc.prems(1) by simp
  next
    case (Some c)
    then show ?thesis using Suc.prems find_SomeD [OF Some] by (auto simp: shortest.simps reads_back_def)
  qed
qed

lemma shortest_decimal_reads_back:
  assumes "binary64 x" "shortest_decimal x = (d, e)"
  shows "f64_round (of_int d * 10 powi e) = Fin x"
  using assms by (intro shortest_reads_back [of x "1 - decimal_exponent x" "nat (1074 + decimal_exponent x)"])
    (auto simp: shortest_decimal_def Let_def)

lemma neighbours_nonneg: "0 \<le> x \<Longrightarrow> d \<in> set (neighbours x shift) \<Longrightarrow> 0 \<le> d"
proof -
  assume x: "0 \<le> x" and d: "d \<in> set (neighbours x shift)"
  have "0 \<le> floor (x * 10 powi shift)" using x by simp
  then show ?thesis using d by (auto simp: neighbours_def Let_def split: if_splits)
qed

lemma shortest_nonneg: "0 \<le> x \<Longrightarrow> 0 \<le> fst (shortest fuel x shift)"
proof (induction fuel arbitrary: shift)
  case 0
  then show ?case using find_SomeD [of "reads_back x shift" "neighbours x shift"] neighbours_nonneg [of x _ shift]
    by (auto simp: shortest.simps split: option.split)
next
  case (Suc m)
  then show ?case using find_SomeD [of "reads_back x shift" "neighbours x shift"] neighbours_nonneg [of x _ shift]
    by (auto simp: shortest.simps [of "Suc m"] split: option.split)
qed

lemma shortest_decimal_pos:
  assumes "binary64 x" "0 < x" "shortest_decimal x = (d, e)"
  shows "0 < d"
proof -
  have "0 \<le> d" using shortest_nonneg [of x] assms by (metis fst_conv less_imp_le shortest_decimal_def)
  moreover have "d \<noteq> 0" using shortest_decimal_reads_back [OF assms(1,3)] assms(2) by (auto simp: f64_round_def)
  ultimately show ?thesis by simp
qed

subsection \<open>Reading digits\<close>

definition dec_value :: "string \<Rightarrow> nat" where
  "dec_value ds = foldl (\<lambda>a c. a * 10 + (byte c - 48)) 0 ds"

lemma foldl_dec: "foldl (\<lambda>a c. a * 10 + (byte c - 48)) a ds = a * 10 ^ length ds + dec_value ds"
proof (induction ds arbitrary: a)
  case (Cons c ds)
  have "dec_value (c # ds) = (byte c - 48) * 10 ^ length ds + dec_value ds"
    using Cons [of "byte c - 48"] by (simp add: dec_value_def)
  then show ?case using Cons [of "a * 10 + (byte c - 48)"] by (simp add: algebra_simps)
qed (simp add: dec_value_def)

lemma dec_value_append: "dec_value (xs @ ys) = dec_value xs * 10 ^ length ys + dec_value ys"
  using foldl_dec [of "dec_value xs" ys] by (simp add: dec_value_def)

lemma dec_value_Nil [simp]: "dec_value [] = 0"
  by (simp add: dec_value_def)

lemma dec_value_zeros [simp]: "dec_value (replicate n (CHR ''0'')) = 0"
proof (induction n)
  case (Suc n)
  then show ?case using dec_value_append [of "''0''" "replicate n (CHR ''0'')"] by (simp add: dec_value_def)
qed simp

lemma dec_value_digits: "dec_value (digits 10 n) = n"
proof (induction "10 :: nat" n rule: digits.induct)
  case (1 n)
  show ?case
  proof (cases "n < 10")
    case True
    then have "digits 10 n = [hex_digit n]" by (subst digits.simps) simp
    then show ?thesis using True by (simp add: dec_value_def hex_digit_def)
  next
    case False
    then have "digits 10 n = digits 10 (n div 10) @ [hex_digit (n mod 10)]" by (subst digits.simps) simp
    then show ?thesis using 1 False by (simp add: dec_value_append) (simp add: dec_value_def hex_digit_def)
  qed
qed

lemma digit_char: "is_digit c \<Longrightarrow> c \<noteq> CHR ''_'' \<and> c \<noteq> CHR ''.'' \<and> digit_val c = Some (byte c - 48) \<and> byte c - 48 < 10"
  by (auto simp: is_digit_def digit_val_def)

lemma scan_mantissa_digits:
  assumes "\<forall>c \<in> set ds. is_digit c"
  shows "scan_mantissa 10 m f dot saw (ds @ rest) =
    scan_mantissa 10 (m * 10 ^ length ds + dec_value ds) (if dot then f + length ds else f) dot (saw \<or> ds \<noteq> []) rest"
  using assms
proof (induction ds arbitrary: m f saw)
  case (Cons c ds)
  have c: "c \<noteq> CHR ''_''" "c \<noteq> CHR ''.''" "digit_val c = Some (byte c - 48)" "byte c - 48 < 10"
    using digit_char [of c] Cons.prems by auto
  have "dec_value (c # ds) = (byte c - 48) * 10 ^ length ds + dec_value ds"
    using dec_value_append [of "[c]" ds] by (simp add: dec_value_def)
  then show ?case using Cons.IH [of "m * 10 + (byte c - 48)"] Cons.prems c by (simp add: algebra_simps)
qed (simp add: dec_value_def)

text \<open>A text of digits with at most one point, as \<open>positional\<close> writes it.\<close>

definition decimal_text :: "string \<Rightarrow> string \<Rightarrow> bool" where
  "decimal_text i f =
    (i \<noteq> [] \<and> (\<forall>c \<in> set i. is_digit c) \<and> (\<forall>c \<in> set f. is_digit c) \<and> (hd i = CHR ''0'' \<longrightarrow> i = ''0''))"

definition point_text :: "string \<Rightarrow> string \<Rightarrow> string" where
  "point_text i f = i @ (if f = [] then [] else CHR ''.'' # f)"

lemma scan_point:
  assumes "decimal_text i f"
  shows "scan_mantissa 10 0 0 False False (point_text i f) = (dec_value (i @ f), length f, True, [])"
proof -
  have i: "\<forall>c \<in> set i. is_digit c" "\<forall>c \<in> set f. is_digit c" "i \<noteq> []" using assms by (auto simp: decimal_text_def)
  show ?thesis
    using scan_mantissa_digits [OF i(1), of 0 0 False False "if f = [] then [] else CHR ''.'' # f"]
      scan_mantissa_digits [OF i(2), of "dec_value i" 0 True True "[]"] i(3)
    by (simp add: point_text_def dec_value_append)
qed

lemma digit_letters: "is_digit c \<or> c = CHR ''.'' \<Longrightarrow> ascii_lower c = c \<and> c \<notin> {CHR ''x'', CHR ''b'', CHR ''o'', CHR ''_'', CHR ''i'', CHR ''n'', CHR ''-'', CHR ''+''}"
  by (auto simp: is_digit_def ascii_lower_def)

lemma point_chars: "decimal_text i f \<Longrightarrow> c \<in> set (point_text i f) \<Longrightarrow> is_digit c \<or> c = CHR ''.''"
  by (auto simp: decimal_text_def point_text_def split: if_splits)

lemma float_syntax_point:
  assumes "decimal_text i f"
  shows "float_syntax (point_text i f) = Some (of_nat (dec_value (i @ f)) * 10 powi (- int (length f)))"
proof -
  let ?s = "point_text i f"
  have ch: "ascii_lower c = c \<and> c \<notin> {CHR ''x'', CHR ''b'', CHR ''o'', CHR ''_'', CHR ''i'', CHR ''n'', CHR ''-'', CHR ''+''}"
    if "c \<in> set ?s" for c using digit_letters point_chars [OF assms that] by blast
  have one: "1 < length ?s \<Longrightarrow> ascii_lower (?s ! 1) \<notin> {CHR ''x'', CHR ''b'', CHR ''o''}"
    using ch [of "?s ! 1"] nth_mem [of 1 ?s] by auto
  have us: "CHR ''_'' \<notin> set ?s" using ch by blast
  have hex: "\<not> (2 < length ?s \<and> ?s ! 0 = CHR ''0'' \<and> ascii_lower (?s ! 1) = CHR ''x'')" using one by auto
  show ?thesis
    unfolding float_syntax_def Let_def if_not_P [OF hex] scan_point [OF assms]
    using us hex by simp
qed

lemma ParseFloat_point:
  assumes "decimal_text i f" "f64_round (of_nat (dec_value (i @ f)) * 10 powi (- int (length f))) = Fin v"
  shows "ParseFloat ((if neg then ''-'' else []) @ point_text i f) = Inr (Fin (if neg then - v else v))"
proof -
  let ?s = "point_text i f"
  obtain c cs where s: "?s = c # cs" using assms(1) by (cases ?s) (auto simp: decimal_text_def point_text_def)
  have c: "is_digit c" using assms(1) s by (cases i) (auto simp: decimal_text_def point_text_def)
  then have nc: "c \<noteq> CHR ''-''" "c \<noteq> CHR ''+''" "ascii_lower c = c" "c \<noteq> CHR ''i''" "c \<noteq> CHR ''n''"
    using digit_letters [of c] by auto
  have fs: "float_syntax (c # cs) = Some (of_nat (dec_value (i @ f)) * 10 powi (- int (length f)))"
    using float_syntax_point [OF assms(1)] s by simp
  show ?thesis unfolding s
    using nc fs assms(2) by (cases neg) (simp_all add: ParseFloat_def Let_def f64_round_neg)
qed

subsection \<open>The layout is read back\<close>

lemma digits_hd: "0 < n \<Longrightarrow> hd (digits 10 n) \<noteq> CHR ''0''"
proof
  assume "0 < n" "hd (digits 10 n) = CHR ''0''"
  then have "digits 10 n = ''0''" using digits_hd_zero by blast
  then have "n = dec_value ''0''" using dec_value_digits [of n] by simp
  then show False using \<open>0 < n\<close> by (simp add: dec_value_def)
qed

definition leading_digits :: "string \<Rightarrow> bool" where
  "leading_digits ds = (ds \<noteq> [] \<and> (\<forall>c \<in> set ds. is_digit c) \<and> hd ds \<noteq> CHR ''0'')"

lemma trim_zeros:
  obtains z where "xs = rev (dropWhile (\<lambda>c. c = CHR ''0'') (rev xs)) @ replicate z (CHR ''0'')"
proof -
  have "takeWhile (\<lambda>c. c = CHR ''0'') (rev xs) = replicate (length (takeWhile (\<lambda>c. c = CHR ''0'') (rev xs))) (CHR ''0'')"
    by (metis (full_types) replicate_length_same set_takeWhileD)
  then have "rev xs = replicate (length (takeWhile (\<lambda>c. c = CHR ''0'') (rev xs))) (CHR ''0'') @ dropWhile (\<lambda>c. c = CHR ''0'') (rev xs)"
    by (metis takeWhile_dropWhile_id)
  then have "xs = rev (dropWhile (\<lambda>c. c = CHR ''0'') (rev xs)) @ replicate (length (takeWhile (\<lambda>c. c = CHR ''0'') (rev xs))) (CHR ''0'')"
    by (metis rev_append rev_replicate rev_rev_ident)
  then show ?thesis by (rule that)
qed

lemma trimmed_value:
  assumes "trimmed (d, e) = (ds, p)" "0 < d"
  shows "leading_digits ds \<and> of_nat (dec_value ds) * (10 :: rat) powi (p - int (length ds)) = of_int d * 10 powi e"
proof -
  let ?all = "digits 10 (nat d)"
  obtain z where z: "?all = ds @ replicate z (CHR ''0'')"
    using trim_zeros [of ?all] assms(1) by (auto simp: trimmed_def Let_def)
  have p: "p = int (length ds) + int z + e" using assms(1) arg_cong [OF z, of length] by (auto simp: trimmed_def Let_def)
  have dv: "nat d = dec_value ds * 10 ^ z" using dec_value_digits [of "nat d"] z by (simp add: dec_value_append)
  then have ne: "ds \<noteq> []" using assms(2) by auto
  have "hd ds \<noteq> CHR ''0''" using digits_hd [of "nat d"] assms(2) z ne by simp
  moreover have "\<forall>c \<in> set ds. is_digit c" using digits_is_digit [of _ "nat d"] z by auto
  moreover have "(of_int d :: rat) = of_nat (nat d)" using assms(2) by simp
  then have "of_nat (dec_value ds) * (10 :: rat) powi (p - int (length ds)) = of_int d * 10 powi e"
    unfolding p dv by (simp add: power_int_add)
  ultimately show ?thesis using ne by (simp add: leading_digits_def)
qed

lemma positional_point:
  assumes "leading_digits ds"
  shows "\<exists>i f. decimal_text i f \<and> positional ds p = point_text i f \<and>
    of_nat (dec_value (i @ f)) * (10 :: rat) powi (- int (length f)) = of_nat (dec_value ds) * 10 powi (p - int (length ds))"
proof -
  have ds: "ds \<noteq> []" "\<forall>c \<in> set ds. is_digit c" "hd ds \<noteq> CHR ''0''" using assms by (auto simp: leading_digits_def)
  have z: "is_digit (CHR ''0'')" by (simp add: is_digit_def)
  consider (small) "p \<le> 0" | (large) "0 < p" "int (length ds) \<le> p" | (mid) "0 < p" "p < int (length ds)" by linarith
  then show ?thesis
  proof cases
    case small
    let ?f = "replicate (nat (- p)) (CHR ''0'') @ ds"
    have "dec_value (''0'' @ ?f) = dec_value ds"
      using dec_value_append [of "''0''" ?f] by (simp add: dec_value_append) (simp add: dec_value_def)
    moreover have "- int (length ?f) = p - int (length ds)" using small by simp
    ultimately show ?thesis using small ds z
      by (intro exI [of _ "''0''"] exI [of _ ?f]) (auto simp: decimal_text_def point_text_def positional_def)
  next
    case large
    let ?i = "ds @ replicate (nat (p - int (length ds))) (CHR ''0'')"
    have "(10 :: rat) powi (p - int (length ds)) = 10 ^ nat (p - int (length ds))" using large by (simp add: power_int_def)
    then show ?thesis using large ds z
      by (intro exI [of _ ?i] exI [of _ "[]"]) (auto simp: decimal_text_def point_text_def positional_def dec_value_append)
  next
    case mid
    have "drop (nat p) ds \<noteq> []" "take (nat p) ds \<noteq> []" using mid ds by auto
    moreover have "hd (take (nat p) ds) = hd ds" using mid ds by (simp add: hd_conv_nth)
    moreover have "- int (length (drop (nat p) ds)) = p - int (length ds)" using mid by simp
    ultimately show ?thesis using mid ds
      by (intro exI [of _ "take (nat p) ds"] exI [of _ "drop (nat p) ds"])
        (auto simp: decimal_text_def point_text_def positional_def dest: in_set_takeD in_set_dropD)
  qed
qed

lemma scan_int_point:
  assumes "decimal_text i f" "num_end t"
  shows "scan_int (point_text i f @ t) = Some (i, (if f = [] then [] else CHR ''.'' # f) @ t)"
proof -
  obtain c cs where i: "i = c # cs" using assms(1) by (cases i) (auto simp: decimal_text_def)
  let ?r = "(if f = [] then [] else CHR ''.'' # f) @ t"
  have dig: "\<forall>x \<in> set (c # cs). is_digit x" using assms(1) i by (auto simp: decimal_text_def)
  have r: "?r = [] \<or> \<not> is_digit (hd ?r)" using assms(2) by (auto simp: num_end_def is_digit_def)
  then have tw: "takeWhile is_digit (cs @ ?r) = cs" "dropWhile is_digit (cs @ ?r) = ?r"
    using dig by (induction cs; cases ?r; simp)+
  have "c = CHR ''0'' \<Longrightarrow> cs = []" using assms(1) i by (auto simp: decimal_text_def)
  then show ?thesis using tw dig i by (simp add: scan_int_def point_text_def)
qed

lemma scan_frac_point:
  assumes "decimal_text i f" "num_end t"
  shows "scan_frac ((if f = [] then [] else CHR ''.'' # f) @ t) = Some (if f = [] then [] else CHR ''.'' # f, t)"
proof (cases f)
  case Nil
  then show ?thesis using scan_tail [OF assms(2)] by simp
next
  case (Cons d ds)
  then have "\<forall>x \<in> set ds. is_digit x" "is_digit d" using assms(1) by (auto simp: decimal_text_def)
  then show ?thesis using Cons takeWhile_digits [of ds t] assms(2) by (simp add: scan_frac_def)
qed

lemma num_ok_point:
  assumes "decimal_text i f"
  shows "num_ok ((if neg then ''-'' else []) @ point_text i f)"
proof -
  obtain c cs where s: "point_text i f = c # cs" "is_digit c"
    using assms by (cases i) (auto simp: decimal_text_def point_text_def)
  have c: "c \<noteq> CHR ''-''" using s(2) by (auto simp: is_digit_def)
  have "lex_number ((if neg then ''-'' else []) @ point_text i f @ t) = Some ((if neg then ''-'' else []) @ point_text i f, t)"
    if t: "num_end t" for t
    using s c scan_int_point [OF assms t] scan_frac_point [OF assms t] scan_tail [OF t]
    by (cases neg) (simp_all add: lex_number_def Let_def, auto simp: point_text_def split: if_splits)
  then show ?thesis using s c by (simp add: num_ok_def)
qed

text \<open>Values printed in positional notation.\<close>

definition plain_value :: "rat \<Rightarrow> bool" where
  "plain_value x = (binary64 x \<and> (x = 0 \<or> 1 / 10 ^ 6 \<le> \<bar>x\<bar> \<and> \<bar>x\<bar> < 10 ^ 21))"

lemma float_text_ok:
  assumes "plain_value x"
  shows "num_ok (float_text x) \<and> ParseFloat (float_text x) = Inr (Fin x)"
proof (cases "x = 0")
  case True
  have "num_ok (FormatInt 0)" by simp
  moreover have "FormatInt 0 = ''0''" by code_simp
  moreover have "ParseFloat ''0'' = Inr (Fin 0)" by code_simp
  ultimately show ?thesis using True by (simp add: float_text_def)
next
  case False
  have b: "binary64 \<bar>x\<bar>" using assms binary64_abs by (simp add: plain_value_def)
  obtain d e where de: "shortest_decimal \<bar>x\<bar> = (d, e)" by (cases "shortest_decimal \<bar>x\<bar>")
  obtain ds p where t: "trimmed (d, e) = (ds, p)" by (cases "trimmed (d, e)")
  have ld: "leading_digits ds" "of_nat (dec_value ds) * (10 :: rat) powi (p - int (length ds)) = of_int d * 10 powi e"
    using trimmed_value [OF t] shortest_decimal_pos [OF b _ de] False by auto
  obtain i f where f: "decimal_text i f" "positional ds p = point_text i f"
      "of_nat (dec_value (i @ f)) * (10 :: rat) powi (- int (length f)) = of_nat (dec_value ds) * 10 powi (p - int (length ds))"
    using positional_point [OF ld(1)] by blast
  have r: "f64_round (of_nat (dec_value (i @ f)) * 10 powi (- int (length f))) = Fin \<bar>x\<bar>"
    using shortest_decimal_reads_back [OF b de] f(3) ld(2) by simp
  have "float_text x = (if x < 0 then ''-'' else []) @ point_text i f"
    using False assms de t f(2) by (auto simp: float_text_def plain_value_def)
  then show ?thesis using num_ok_point [OF f(1)] ParseFloat_point [OF f(1) r] by (auto simp: abs_if)
qed

lemma plain_int: "\<bar>m\<bar> < 2 ^ 53 \<Longrightarrow> plain_value (of_int m)"
proof -
  assume m: "\<bar>m\<bar> < 2 ^ 53"
  have "m = 0 \<or> 1 \<le> \<bar>m\<bar>" by auto
  then have "m = 0 \<or> (1 :: rat) \<le> \<bar>of_int m\<bar>" by (metis of_int_1 of_int_abs of_int_le_iff)
  moreover have "\<bar>of_int m :: rat\<bar> < 10 ^ 21"
  proof -
    have "\<bar>of_int m :: rat\<bar> < of_int (2 ^ 53)" using m by (simp only: of_int_less_iff flip: of_int_abs)
    then show ?thesis by simp
  qed
  ultimately show ?thesis using f64_round_of_int [OF m] by (auto simp: plain_value_def binary64_def)
qed

end
