(* ===== verification/Sensors_Model.thy ===== *)
theory Sensors_Model
  imports Go_Float
begin

text \<open>
  The data and the small helpers that all parts of the program share: the sensor model of
  \<^verbatim>\<open>internal/sensors/models.go\<close>, the address checks of \<^verbatim>\<open>internal/vsockaddr/address.go\<close> and the
  de-duplicated error log of \<^verbatim>\<open>logging.go\<close>. A slice that may be nil is an \<^typ>\<open>'a list option\<close>:
  a nil inventory is missing data, an empty one is authoritative. An optional temperature
  (\<^verbatim>\<open>*float64\<close>) is a \<^typ>\<open>float64 option\<close>.
\<close>

text \<open>Ranging over a slice that may be nil.\<close>

fun elements :: "'a list option \<Rightarrow> 'a list" where
  "elements None = []"
| "elements (Some xs) = xs"

subsection \<open>Sensor model\<close>

definition ProtocolVersion :: int where "ProtocolVersion = 1"

record Disk =
  disk_ID :: string
  disk_Name :: string
  disk_Device :: string
  disk_Transport :: string
  disk_Rotational :: bool
  disk_Temp :: float64
  disk_Unavailable :: bool

datatype DiskKind = DiskKindHDD | DiskKindSATASSD | DiskKindNVMe | DiskKindOtherSSD

fun kind_text :: "DiskKind \<Rightarrow> string" where
  "kind_text DiskKindHDD = ''hdd''"
| "kind_text DiskKindSATASSD = ''ssd''"
| "kind_text DiskKindNVMe = ''nvme''"
| "kind_text DiskKindOtherSSD = ''other-ssd''"

definition Kind :: "Disk \<Rightarrow> DiskKind" where
  "Kind d =
    (if disk_Rotational d then DiskKindHDD
     else if EqualFold (disk_Transport d) ''nvme'' \<or> HasPrefix (disk_Device d) ''nvme'' then DiskKindNVMe
     else if EqualFold (disk_Transport d) ''ata'' \<or> EqualFold (disk_Transport d) ''scsi-sata''
       \<or> EqualFold (disk_Transport d) ''scsi-1ata'' then DiskKindSATASSD
     else DiskKindOtherSSD)"

record HBA =
  hba_ID :: string
  hba_Model :: string
  hba_PCIAddress :: string
  hba_Temp :: float64
  hba_IOCTemp :: "float64 option"
  hba_BoardTemp :: "float64 option"

record Response =
  resp_Protocol :: int
  resp_Disks :: "Disk list option"
  resp_HBAs :: "HBA list option"
  resp_HBAError :: string
  resp_Error :: string

subsection \<open>VSOCK addresses\<close>

definition vsock_Max :: "64 word" where
  "vsock_Max = push_bit 32 1 - 2"

definition ValidateCID :: "64 word \<Rightarrow> go_error option" where
  "ValidateCID cid =
    (if cid < 3 \<or> cid > vsock_Max
     then Some (errors_New (''cid must be between 3 and '' @ digits 10 (unat vsock_Max)))
     else None)"

definition ValidatePort :: "64 word \<Rightarrow> go_error option" where
  "ValidatePort port =
    (if port = 0 \<or> port > vsock_Max
     then Some (errors_New (''port must be between 1 and '' @ digits 10 (unat vsock_Max)))
     else None)"

lemma vsock_Max_value: "unat vsock_Max = 2 ^ 32 - 2"
  by (simp add: vsock_Max_def)

lemma below_vsock_Max:
  assumes "\<not> p > vsock_Max"
  shows "unat (ucast p :: 32 word) = unat p" and "(ucast p :: 32 word) \<noteq> - 1"
proof -
  have p: "unat p \<le> 2 ^ 32 - 2"
    using assms vsock_Max_value by (simp add: word_less_nat_alt)
  then show u: "unat (ucast p :: 32 word) = unat p"
    by (simp add: unsigned_ucast_eq take_bit_eq_mod)
  have "unat (- 1 :: 32 word) = 2 ^ 32 - 1"
    by (simp add: unsigned_minus_1_eq_mask mask_eq_exp_minus_1)
  then show "(ucast p :: 32 word) \<noteq> - 1" using p u by fastforce
qed

subsection \<open>Error log\<close>

fun errorText :: "go_error option \<Rightarrow> string" where
  "errorText None = []"
| "errorText (Some e) = Error e"

record stickyErrorLog =
  sticky_context :: string
  sticky_last :: string

definition sticky_line :: "string \<Rightarrow> string \<Rightarrow> string" where
  "sticky_line ctx message =
    (if message = [] then ctx @ '' recovered'' else ctx @ '' warning: '' @ message)"

text \<open>The new state and the line it logs, if any.\<close>

definition sticky_update :: "stickyErrorLog \<Rightarrow> go_error option \<Rightarrow> stickyErrorLog \<times> string list" where
  "sticky_update st err =
    (let message = errorText err in
     if message = sticky_last st then (st, [])
     else (st\<lparr>sticky_last := message\<rparr>, [sticky_line (sticky_context st) message]))"

text \<open>The lines a sequence of updates logs.\<close>

fun sticky_run :: "stickyErrorLog \<Rightarrow> go_error option list \<Rightarrow> stickyErrorLog \<times> string list" where
  "sticky_run st [] = (st, [])"
| "sticky_run st (e # es) =
    (case sticky_update st e of (st1, out1) \<Rightarrow>
       case sticky_run st1 es of (st2, out2) \<Rightarrow> (st2, out1 @ out2))"

text \<open>
  The error log writes exactly one line per change of the error text: over any sequence of
  updates its lines are those of the sequence of texts, starting from the one already reported,
  with adjacent repetitions removed.
\<close>

lemma sticky_run_changes:
  "snd (sticky_run st es) =
    map (sticky_line (sticky_context st)) (tl (remdups_adj (sticky_last st # map errorText es)))"
proof (induction es arbitrary: st)
  case (Cons e es)
  let ?f = "sticky_line (sticky_context st)" and ?m = "errorText e" and ?ms = "map errorText es"
  show ?case
  proof (cases "?m = sticky_last st")
    case True
    then show ?thesis
      using Cons [of st] by (simp add: sticky_update_def split: prod.split)
  next
    case False
    then have "sticky_update st e = (st\<lparr>sticky_last := ?m\<rparr>, [?f ?m])"
      by (simp add: sticky_update_def Let_def)
    then have "snd (sticky_run st (e # es)) = ?f ?m # snd (sticky_run (st\<lparr>sticky_last := ?m\<rparr>) es)"
      by (simp split: prod.split)
    also have "\<dots> = map ?f (?m # tl (remdups_adj (?m # ?ms)))"
      using Cons [of "st\<lparr>sticky_last := ?m\<rparr>"] by (simp del: remdups_adj_Cons_alt)
    also have "\<dots> = map ?f (tl (remdups_adj (sticky_last st # ?m # ?ms)))"
      using False by simp
    finally show ?thesis by simp
  qed
qed simp

text \<open>
  A context ID or a port that passes validation survives the conversion to the 32 bits of a
  socket address unchanged, and is neither zero nor the reserved "any" value.
\<close>

lemma vsock_address_survives:
  assumes "ValidateCID a = None \<or> ValidatePort a = None"
  shows "unat (ucast a :: 32 word) = unat a \<and> (ucast a :: 32 word) \<noteq> - 1 \<and> (ucast a :: 32 word) \<noteq> 0"
proof -
  have le: "\<not> a > vsock_Max" and ne: "a \<noteq> 0"
    using assms by (auto simp: ValidateCID_def ValidatePort_def split: if_splits)
  have "unat (ucast a :: 32 word) = unat a" by (rule below_vsock_Max [OF le])
  moreover have "unat a \<noteq> 0" using ne by (simp add: unat_eq_zero)
  ultimately show ?thesis using below_vsock_Max(2) [OF le] by (metis unat_0)
qed

end
