(* ===== verification/Json_Cut.thy ===== *)
theory Json_Cut
  imports Json
begin

text \<open>
  Text that was cut off: no proper prefix of a printed JSON object is a JSON document. A line that
  arrives incomplete can therefore never be taken for a snapshot.
\<close>

subsection \<open>Lexing with more text behind\<close>

lemma hex4_suffix: "hex4 s = Some (r, rest) \<Longrightarrow> \<exists>p. s = p @ rest"
proof (induction s rule: hex4.induct)
  case (1 a b c d rest')
  then show ?case by (intro exI [of _ "[a, b, c, d]"]) (auto split: option.splits)
qed simp_all

lemma low_surrogate_suffix: "low_surrogate s = Some (r, rest) \<Longrightarrow> \<exists>p. s = p @ rest"
proof -
  assume "low_surrogate s = Some (r, rest)"
  then obtain a b ds where "s = a # b # ds" "hex4 ds = Some (r, rest)"
    by (auto simp: low_surrogate_def split: list.splits if_splits option.splits)
  then show ?thesis using hex4_suffix by (metis append_Cons)
qed

lemma decode_rune_more: "DQ \<in> set cs \<Longrightarrow> decode_rune (c # cs @ q) = decode_rune (c # cs)"
proof -
  assume dq: "DQ \<in> set cs"
  have no: "\<not> cont_byte DQ" "\<not> second_ok b DQ" for b by (auto simp: cont_byte_def second_ok_def second_lo_def)
  consider x y z ds where "cs = x # y # z # ds" | "cs = [DQ]" | x where "cs = [DQ, x]" | x where "cs = [x, DQ]"
    using dq by (cases cs; cases "tl cs"; cases "tl (tl cs)") auto
  then show ?thesis by cases (auto simp: no Let_def split: list.split)
qed

lemma hex4_more: "DQ \<in> set s \<or> hex4 s \<noteq> None \<Longrightarrow> hex4 (s @ q) = map_option (\<lambda>x. (fst x, snd x @ q)) (hex4 s)"
proof -
  assume a: "DQ \<in> set s \<or> hex4 s \<noteq> None"
  have no: "digit_val DQ = None" by (simp add: digit_val_def)
  consider x y z w ds where "s = x # y # z # w # ds" | "DQ \<in> set s" "length s < 4"
    using a by (cases s rule: hex4.cases) auto
  then show ?thesis
  proof cases
    case 2
    then have "hex4 s = None" by (cases s rule: hex4.cases) auto
    moreover have "hex4 (s @ q) = None"
      using 2 no by (cases "s @ q" rule: hex4.cases; cases s; cases "tl s"; cases "tl (tl s)") (auto split: option.split)
    ultimately show ?thesis by simp
  qed (auto split: option.split)
qed

lemma low_surrogate_more:
  "DQ \<in> set s \<Longrightarrow> low_surrogate (s @ q) = map_option (\<lambda>x. (fst x, snd x @ q)) (low_surrogate s)"
proof -
  assume dq: "DQ \<in> set s"
  consider "s = [DQ]" | a b ds where "s = a # b # ds" using dq by (cases s; cases "tl s") auto
  then show ?thesis
  proof cases
    case 1
    then show ?thesis by (simp add: low_surrogate_def split: list.split)
  next
    case 2
    then show ?thesis
      using hex4_more [of ds q] dq by (auto simp: low_surrogate_def split: option.split)
  qed
qed

text \<open>One character of a string literal, read the same with more text behind.\<close>

lemma lex_string_step:
  assumes "lex_string s = Some (t, rest)"
  obtains (close) "s = DQ # rest" "t = []"
  | (step) u p s' t' where "s = p @ s'" "p \<noteq> []" "lex_string s' = Some (t', rest)" "t = u @ t'"
      "\<And>q. DQ \<in> set s' \<Longrightarrow> lex_string (s @ q) = prepend u (lex_string (s' @ q))"
proof -
  obtain c cs where s: "s = c # cs" using assms by (cases s) auto
  consider "c = DQ" | "c = BS" | "c \<noteq> DQ" "c \<noteq> BS" by blast
  then show thesis
  proof cases
    case 1
    then show thesis using close assms s by simp
  next
    case 2
    obtain d ds where cs: "cs = d # ds" using assms s 2 by (cases cs) auto
    show thesis
    proof (cases "d = CHR ''u''")
      case True
      obtain r r1 where h: "hex4 ds = Some (r, r1)" using assms s 2 cs True by (auto split: option.splits)
      obtain p1 where p1: "ds = p1 @ r1" using hex4_suffix [OF h] by blast
      have hq: "hex4 (ds @ q) = Some (r, r1 @ q)" for q using hex4_more [of ds q] h by simp
      show thesis
      proof (cases "(0xD800 \<le> r \<and> r < 0xDC00) \<and> low_surrogate r1 \<noteq> None")
        case pair: True
        then obtain r2 rest2 where l: "low_surrogate r1 = Some (r2, rest2)" by auto
        obtain p2 where p2: "r1 = p2 @ rest2" using low_surrogate_suffix [OF l] by blast
        obtain t' where t': "lex_string rest2 = Some (t', rest)" "t = encode_rune (0x10000 + (r - 0xD800) * 1024 + (r2 - 0xDC00)) @ t'"
          using assms s 2 cs True h l pair by (auto simp: prepend_def)
        show thesis
        proof (rule step [of "c # d # p1 @ p2" rest2 t'])
          fix q assume "DQ \<in> set rest2"
          then have "low_surrogate (r1 @ q) = Some (r2, rest2 @ q)" using low_surrogate_more [of r1 q] l p2 by simp
          then show "lex_string (s @ q) = prepend (encode_rune (0x10000 + (r - 0xD800) * 1024 + (r2 - 0xDC00))) (lex_string (rest2 @ q))"
            using s 2 cs True hq pair by simp
        qed (use s cs p1 p2 t' in simp_all)
      next
        case single: False
        define u where "u = encode_rune (if 0xD800 \<le> r \<and> r < 0xDC00 then RuneError else r)"
        obtain t' where t': "lex_string r1 = Some (t', rest)" "t = u @ t'"
          using assms s 2 cs True h single by (cases "low_surrogate r1") (auto simp: prepend_def u_def split: if_splits)
        show thesis
        proof (rule step [of "c # d # p1" r1 t' u])
          fix q assume "DQ \<in> set r1"
          then have "low_surrogate (r1 @ q) = map_option (\<lambda>x. (fst x, snd x @ q)) (low_surrogate r1)" by (rule low_surrogate_more)
          then show "lex_string (s @ q) = prepend u (lex_string (r1 @ q))"
            using s 2 cs True hq single by (cases "low_surrogate r1") (auto simp: u_def)
        qed (use s cs p1 t' in simp_all)
      qed
    next
      case False
      then obtain r t' where "simple_escape d = Some r" "lex_string ds = Some (t', rest)" "t = [chr r] @ t'"
        using assms s 2 cs by (auto simp: prepend_def split: option.splits)
      then show thesis using step [of "[c, d]" ds t' "[chr r]"] s 2 cs False by auto
    qed
  next
    case 3
    obtain r w where d: "decode_rune (c # cs) = (r, w)" by (cases "decode_rune (c # cs)")
    have b: "\<not> byte c < 0x20" using assms s 3 by (auto split: if_splits)
    obtain t' where t': "lex_string (drop (w - 1) cs) = Some (t', rest)" "t = encode_rune r @ t'"
      using assms s 3 b d by (auto simp: prepend_def simp del: decode_rune.simps)
    have w: "w - 1 \<le> length cs" using decode_rune_width [of c cs] unfolding d by auto
    show thesis
    proof (rule step [of "c # take (w - 1) cs" "drop (w - 1) cs" t' "encode_rune r"])
      fix q assume "DQ \<in> set (drop (w - 1) cs)"
      then have "decode_rune (c # cs @ q) = (r, w)" using decode_rune_more [of cs c q] d in_set_dropD by metis
      then show "lex_string (s @ q) = prepend (encode_rune r) (lex_string (drop (w - 1) cs @ q))"
        using s 3 b w by (simp del: decode_rune.simps)
    qed (use s t' in simp_all)
  qed
qed

lemma lex_string_more: "lex_string s = Some (t, rest) \<Longrightarrow> DQ \<in> set s \<and> lex_string (s @ q) = Some (t, rest @ q)"
proof (induction s arbitrary: t rule: length_induct)
  case (1 s)
  from "1.prems" show ?case
  proof (cases rule: lex_string_step)
    case (step u p s' t')
    then have "DQ \<in> set s' \<and> lex_string (s' @ q) = Some (t', rest @ q)" using "1.IH" by auto
    then show ?thesis using step by (simp add: prepend_def)
  qed simp
qed

lemma scan_int_more: "scan_int s = Some (t, r) \<Longrightarrow> r \<noteq> [] \<Longrightarrow> scan_int (s @ q) = Some (t, r @ q)"
  by (auto simp: scan_int_def takeWhile_append dropWhile_append split: list.splits if_splits)

lemma scan_frac_more: "scan_frac s = Some (t, r) \<Longrightarrow> r \<noteq> [] \<Longrightarrow> scan_frac (s @ q) = Some (t, r @ q)"
  by (auto simp: scan_frac_def takeWhile_append dropWhile_append split: list.splits if_splits)

lemma scan_exp_more: "scan_exp s = Some (t, r) \<Longrightarrow> r \<noteq> [] \<Longrightarrow> scan_exp (s @ q) = Some (t, r @ q)"
  by (auto simp: scan_exp_def Let_def takeWhile_append dropWhile_append split: list.splits if_splits)

lemma scan_nonempty:
  "scan_frac s = Some (t, r) \<Longrightarrow> r \<noteq> [] \<Longrightarrow> s \<noteq> []" "scan_exp s = Some (t, r) \<Longrightarrow> r \<noteq> [] \<Longrightarrow> s \<noteq> []"
  by (auto simp: scan_frac_def scan_exp_def)

lemma lex_number_more:
  assumes "lex_number s = Some (t, r)" "r \<noteq> []"
  shows "lex_number (s @ q) = Some (t, r @ q)"
proof -
  define sign where "sign = (if s \<noteq> [] \<and> hd s = CHR ''-'' then [hd s] else [])"
  obtain i s1 f s2 e where p: "scan_int (drop (length sign) s) = Some (i, s1)" "scan_frac s1 = Some (f, s2)"
      "scan_exp s2 = Some (e, r)" "t = sign @ i @ f @ e"
    using assms(1) by (auto simp: lex_number_def Let_def sign_def [symmetric] split: option.splits prod.splits)
  have ne: "s2 \<noteq> []" "s1 \<noteq> []" using scan_nonempty p(2,3) assms(2) by blast+
  have s: "s \<noteq> []" using p(1) by (auto simp: scan_int_def)
  then have "(if s @ q \<noteq> [] \<and> hd (s @ q) = CHR ''-'' then [hd (s @ q)] else []) = sign" by (simp add: sign_def)
  moreover have "drop (length sign) (s @ q) = drop (length sign) s @ q" using s by (simp add: sign_def Suc_le_eq)
  ultimately show ?thesis
    using scan_int_more [OF p(1) ne(2), of q] scan_frac_more [OF p(2) ne(1), of q] scan_exp_more [OF p(3) assms(2), of q] p(4)
    by (simp add: lex_number_def Let_def)
qed

lemma json_lex_words:
  "json_lex (''null'' @ r) = emit [TNull] (json_lex r)" "json_lex (''true'' @ r) = emit [TTrue] (json_lex r)"
  "json_lex (''false'' @ r) = emit [TFalse] (json_lex r)"
  by (simp_all add: HasPrefix_def json_space_def punct_def)

lemma lex_number_start: "lex_number (c # cs) = Some x \<Longrightarrow> c = CHR ''-'' \<or> is_digit c"
  by (auto simp: lex_number_def scan_int_def Let_def is_digit_def split: if_splits option.splits list.splits)

lemma number_char:
  assumes "c = CHR ''-'' \<or> is_digit c"
  shows "\<not> json_space c" "punct c = None" "c \<notin> {DQ, CHR ''n'', CHR ''t'', CHR ''f''}"
  using assms by (auto simp: json_space_def punct_def is_digit_def)

lemma json_lex_digits:
  assumes "lex_number (c # cs) = Some (n, r)"
  shows "json_lex (c # cs) = emit [TNum n] (json_lex r)"
proof -
  note c = number_char [OF lex_number_start [OF assms]]
  then have "\<not> HasPrefix (c # cs) ''null''" "\<not> HasPrefix (c # cs) ''true''" "\<not> HasPrefix (c # cs) ''false''"
    by (auto simp: HasPrefix_def)
  then show ?thesis using c assms by (subst json_lex.simps) simp
qed

lemma emit_eq_Some: "emit xs r = Some ys \<longleftrightarrow> (\<exists>zs. r = Some zs \<and> ys = xs @ zs)"
  by (auto simp: emit_def)

text \<open>The first token of a text, and that it is the same with more text behind.\<close>

lemma json_lex_first:
  assumes "json_lex (c # cs) = Some ts"
  obtains (space) "json_space c" "json_lex cs = Some ts" "\<And>q. json_lex ((c # cs) @ q) = json_lex (cs @ q)"
  | (brace) us where "c = CHR ''}''" "ts = TRBrace # us" "json_lex cs = Some us" "\<And>q. json_lex ((c # cs) @ q) = emit [TRBrace] (json_lex (cs @ q))"
  | (token) t us r where "ts = t # us" "t \<noteq> TRBrace" "json_lex r = Some us" "length r \<le> length cs"
      "\<And>q. us \<noteq> [] \<Longrightarrow> json_lex ((c # cs) @ q) = emit [t] (json_lex (r @ q))"
proof -
  consider "json_space c" | t where "\<not> json_space c" "punct c = Some t" | "\<not> json_space c" "punct c = None" "c = DQ"
    | "\<not> json_space c" "punct c = None" "c \<noteq> DQ" by blast
  then show thesis
  proof cases
    case 1
    then show thesis using space assms by simp
  next
    case 2
    then obtain us where us: "ts = t # us" "json_lex cs = Some us" using assms by (auto simp: emit_eq_Some)
    show thesis
    proof (cases "t = TRBrace")
      case True
      moreover from this have "c = CHR ''}''" using 2(2) by (auto simp: punct_def split: if_splits)
      ultimately show thesis using brace us 2 by simp
    next
      case False
      then show thesis using token [of t us cs] us 2 by simp
    qed
  next
    case 3
    then obtain u r us where u: "lex_string cs = Some (u, r)" "json_lex r = Some us" "ts = TStr u # us"
      using assms by (auto simp: emit_eq_Some split: option.splits)
    then show thesis
      using token [of "TStr u" us r] 3 lex_string_length [OF u(1)] lex_string_more [OF u(1)] by simp
  next
    case 4
    show thesis
    proof (cases "\<exists>w r t. c # cs = w @ r \<and> (w, t) \<in> {(''null'', TNull), (''true'', TTrue), (''false'', TFalse)}")
      case True
      then obtain w r t where w: "c # cs = w @ r" "(w, t) \<in> {(''null'', TNull), (''true'', TTrue), (''false'', TFalse)}" by blast
      have lex: "json_lex (w @ x) = emit [t] (json_lex x)" for x using w(2) json_lex_words by auto
      then obtain us where us: "json_lex r = Some us" "ts = t # us" using assms w(1) by (auto simp: emit_eq_Some)
      have len: "length r \<le> length cs" using arg_cong [OF w(1), of length] w(2) by auto
      have "json_lex ((c # cs) @ q) = emit [t] (json_lex (r @ q))" for q
        using lex [of "r @ q"] w(1) by (metis append_assoc)
      then show thesis using token [of t us r] us len w(2) by auto
    next
      case False
      then have no: "\<not> HasPrefix (c # cs) ''null''" "\<not> HasPrefix (c # cs) ''true''" "\<not> HasPrefix (c # cs) ''false''"
        unfolding HasPrefix_def by (metis append_take_drop_id insertCI)+
      then obtain n r us where n: "lex_number (c # cs) = Some (n, r)" "json_lex r = Some us" "ts = TNum n # us"
        using assms 4 by (auto simp: emit_eq_Some split: option.splits)
      show thesis
      proof (rule token [of "TNum n" us r])
        fix q assume "us \<noteq> []"
        then have "r \<noteq> []" using n(2) by auto
        from lex_number_more [OF n(1) this, of q]
        show "json_lex ((c # cs) @ q) = emit [TNum n] (json_lex (r @ q))" by (simp only: append_Cons json_lex_digits)
      qed (use n lex_number_length [OF n(1)] in auto)
    qed
  qed
qed

lemma json_lex_Nil: "json_lex s = Some [] \<Longrightarrow> c \<in> set s \<Longrightarrow> json_space c"
proof (induction s)
  case (Cons d s)
  from Cons.prems(1) show ?case using Cons by (cases rule: json_lex_first) auto
qed simp

text \<open>Tokens that end with a closing brace are those of the text with more behind.\<close>

lemma json_lex_more:
  "json_lex p = Some ts \<Longrightarrow> ts = [] \<or> last ts = TRBrace \<Longrightarrow> json_lex (p @ q) = emit ts (json_lex q)"
proof (induction p arbitrary: ts rule: length_induct)
  case (1 p)
  show ?case
  proof (cases p)
    case Nil
    then show ?thesis using "1.prems" by simp
  next
    case (Cons c cs)
    from "1.prems"(1) [unfolded Cons] show ?thesis
    proof (cases rule: json_lex_first)
      case space
      then show ?thesis using "1.IH" "1.prems"(2) Cons by auto
    next
      case (brace us)
      then have "json_lex (cs @ q) = emit us (json_lex q)" using "1.IH" "1.prems"(2) Cons by (cases us) auto
      then show ?thesis using brace Cons by simp
    next
      case (token t us r)
      then have us: "us \<noteq> []" "last us = TRBrace" using "1.prems"(2) by (auto split: if_splits)
      then have "json_lex (r @ q) = emit us (json_lex q)" using "1.IH" token(3,4) Cons by simp
      then show ?thesis using token(1,5) us(1) Cons by simp
    qed
  qed
qed

subsection \<open>Parsing with more tokens behind\<close>

lemma parse_Nil: "parse_value n [] = None" "parse_elems n [] = None" "parse_members n [] = None"
  by (cases n; cases "n - 1"; simp)+

lemma parse_more:
  "(parse_value n ts = Some (v, r) \<longrightarrow> n \<le> m \<longrightarrow> parse_value m (ts @ us) = Some (v, r @ us)) \<and>
   (parse_elems n ts = Some (vs, r) \<longrightarrow> n \<le> m \<longrightarrow> parse_elems m (ts @ us) = Some (vs, r @ us)) \<and>
   (parse_members n ts = Some (kvs, r) \<longrightarrow> n \<le> m \<longrightarrow> parse_members m (ts @ us) = Some (kvs, r @ us))"
proof (induction n arbitrary: ts v vs kvs r m)
  case (Suc n)
  show ?case
  proof (cases m)
    case m: (Suc m')
    have v: "parse_value n xs = Some (x, y) \<Longrightarrow> n \<le> m' \<Longrightarrow> parse_value m' (xs @ us) = Some (x, y @ us)" for xs x y
      using Suc.IH by blast
    have e: "parse_elems n xs = Some (x, y) \<Longrightarrow> n \<le> m' \<Longrightarrow> parse_elems m' (xs @ us) = Some (x, y @ us)" for xs x y
      using Suc.IH by blast
    have b: "parse_members n xs = Some (x, y) \<Longrightarrow> n \<le> m' \<Longrightarrow> parse_members m' (xs @ us) = Some (x, y @ us)" for xs x y
      using Suc.IH by blast
    have "parse_value (Suc n) ts = Some (v, r) \<Longrightarrow> n \<le> m' \<Longrightarrow> parse_value (Suc m') (ts @ us) = Some (v, r @ us)"
      by (cases ts rule: tokens_cases) (auto split: token.splits list.splits simp: parse_Nil dest!: e b)
    moreover have "parse_elems (Suc n) ts = Some (vs, r) \<Longrightarrow> n \<le> m' \<Longrightarrow> parse_elems (Suc m') (ts @ us) = Some (vs, r @ us)"
      by (auto split: option.splits list.splits token.splits dest!: e v)
    moreover have "parse_members (Suc n) ts = Some (kvs, r) \<Longrightarrow> n \<le> m' \<Longrightarrow> parse_members (Suc m') (ts @ us) = Some (kvs, r @ us)"
      by (auto split: option.splits list.splits token.splits dest!: b v)
    ultimately show ?thesis using m by simp
  qed simp
qed simp

definition ends_brace :: "token list \<Rightarrow> bool" where
  "ends_brace zs = (zs \<noteq> [] \<and> last zs = TRBrace)"

lemma ends_brace_Cons [simp]: "ends_brace zs \<Longrightarrow> ends_brace (t # zs)"
  by (simp add: ends_brace_def)

lemma ends_brace_append [simp]: "ends_brace ys \<Longrightarrow> ends_brace (xs @ ys)"
  by (simp add: ends_brace_def)

lemma parse_consumes:
  "(parse_value n ts = Some (v, r) \<longrightarrow> (\<exists>zs. ts = zs @ r \<and> ((\<exists>kvs. v = JObj kvs) \<longrightarrow> ends_brace zs))) \<and>
   (parse_elems n ts = Some (vs, r) \<longrightarrow> (\<exists>zs. ts = zs @ r)) \<and>
   (parse_members n ts = Some (kvs, r) \<longrightarrow> (\<exists>zs. ts = zs @ r \<and> ends_brace zs))"
proof (induction n arbitrary: ts v vs kvs r)
  case (Suc n)
  have v: "parse_value n xs = Some (x, y) \<Longrightarrow> \<exists>zs. xs = zs @ y" for xs x y using Suc.IH by blast
  have e: "parse_elems n xs = Some (x, y) \<Longrightarrow> \<exists>zs. xs = zs @ y" for xs x y using Suc.IH by blast
  have b: "parse_members n xs = Some (x, y) \<Longrightarrow> \<exists>zs. xs = zs @ y \<and> ends_brace zs" for xs x y using Suc.IH by blast
  have one: "ends_brace [TLBrace, TRBrace]" "ends_brace (xs @ [TRBrace])" for xs by (simp_all add: ends_brace_def)
  have "parse_value (Suc n) ts = Some (v, r) \<Longrightarrow> \<exists>zs. ts = zs @ r \<and> ((\<exists>kvs. v = JObj kvs) \<longrightarrow> ends_brace zs)"
  proof (cases ts rule: tokens_cases)
    case (5 r')
    then show "parse_value (Suc n) ts = Some (v, r) \<Longrightarrow> ?thesis" using one(1) by (intro exI [of _ "[TLBrace, TRBrace]"]) auto
  next
    case (6 r')
    assume "parse_value (Suc n) ts = Some (v, r)"
    then obtain x where "parse_members n r' = Some (x, r)" "v = JObj x" using 6 by (auto split: list.splits token.splits)
    then obtain zs where "r' = zs @ r" "ends_brace zs" using b by blast
    then show ?thesis using 6 by (intro exI [of _ "TLBrace # zs"]) simp
  next
    case (2 a r')
    assume "parse_value (Suc n) ts = Some (v, r)"
    then show ?thesis using 2 by (intro exI [of _ "[a]"]) (auto split: token.splits)
  next
    case (3 r')
    assume "parse_value (Suc n) ts = Some (v, r)"
    then show ?thesis using 3 by (intro exI [of _ "[TLBrack, TRBrack]"]) auto
  next
    case (4 r')
    assume "parse_value (Suc n) ts = Some (v, r)"
    then obtain x where "parse_elems n r' = Some (x, r)" "v = JArr x" using 4 by (auto split: list.splits token.splits)
    then obtain zs where "r' = zs @ r" using e by blast
    then show ?thesis using 4 \<open>v = JArr x\<close> by (intro exI [of _ "TLBrack # zs"]) simp
  qed simp
  moreover have "parse_elems (Suc n) ts = Some (vs, r) \<Longrightarrow> \<exists>zs. ts = zs @ r"
    by (auto split: option.splits list.splits token.splits dest!: e v)
  moreover have "\<exists>zs. ts = zs @ r \<and> ends_brace zs" if p: "parse_members (Suc n) ts = Some (kvs, r)"
  proof -
    obtain k r0 v1 t r1 where ts: "ts = TStr k # TColon # r0" and pv: "parse_value n r0 = Some (v1, t # r1)"
      and rest: "t = TRBrace \<and> r1 = r \<or> t = TComma \<and> (\<exists>x. parse_members n r1 = Some (x, r))"
      using p by (auto split: option.splits list.splits token.splits)
    obtain zs where zs: "r0 = zs @ t # r1" using v [OF pv] by blast
    from rest show ?thesis
    proof
      assume "t = TRBrace \<and> r1 = r"
      then show ?thesis using ts zs one(2) [of "TStr k # TColon # zs"] by (intro exI [of _ "TStr k # TColon # zs @ [t]"]) simp
    next
      assume t: "t = TComma \<and> (\<exists>x. parse_members n r1 = Some (x, r))"
      then obtain ys where "r1 = ys @ r" "ends_brace ys" using b by blast
      then show ?thesis using ts zs by (intro exI [of _ "TStr k # TColon # zs @ t # ys"]) simp
    qed
  qed
  ultimately show ?case by blast
qed simp

lemma parse_brace: "parse_value n (TLBrace # us) = Some (w, r) \<Longrightarrow> \<exists>kvs. w = JObj kvs"
  by (cases n) (auto split: list.splits token.splits)

text \<open>A cut object is not a document.\<close>

lemma cut_object:
  assumes "nums_ok (JObj kvs)" "json_print (JObj kvs) = p @ q" "q \<noteq> []"
  shows "\<exists>e. json_parse p = Inl e"
proof (rule ccontr)
  assume "\<nexists>e. json_parse p = Inl e"
  then obtain ts w where lex: "json_lex p = Some ts" and parse: "parse_value (2 * length ts + 1) ts = Some (w, [])"
    by (auto simp: json_parse_def simp del: parse_value.simps split: option.splits list.splits)
  have "ts \<noteq> []" using parse by (auto simp: parse_Nil)
  then have "p \<noteq> []" using lex by auto
  then obtain p' where p: "p = CHR ''{'' # p'" using assms(2) by (cases p) auto
  have "json_lex (CHR ''{'' # p') = emit [TLBrace] (json_lex p')" by (rule json_lex_punct) (simp add: punct_def)
  then obtain us where ts: "ts = TLBrace # us" using lex p by (auto simp: emit_eq_Some)
  then have "\<exists>kvs. w = JObj kvs" using parse parse_brace by blast
  then have "ends_brace ts" using parse_consumes [THEN conjunct1, rule_format, OF parse] by simp
  then have all: "json_lex (p @ q) = emit ts (json_lex q)" using json_lex_more [OF lex] by (simp add: ends_brace_def)
  have "json_lex (p @ q) = Some (tokens (JObj kvs))"
    using json_lex_print [OF assms(1), of "[]"] unfolding assms(2) append_Nil2 by (simp add: num_end_def del: tokens.simps)
  then obtain xs where xs: "json_lex q = Some xs" "tokens (JObj kvs) = ts @ xs" using all by (auto simp: emit_eq_Some)
  have "parse_value (Suc (2 * length (ts @ xs))) (ts @ xs) = Some (w, [] @ xs)"
    by (rule parse_more [THEN conjunct1, rule_format, OF parse]) simp
  moreover have "parse_value (Suc (2 * length (ts @ xs))) (ts @ xs) = Some (json_clean (JObj kvs), [])"
    using parse_tokens [of "JObj kvs" "2 * length (ts @ xs)" "[]"] xs(2) by (simp del: tokens.simps json_clean.simps parse_value.simps)
  ultimately have "xs = []" by (simp del: parse_value.simps)
  moreover have "last q = CHR ''}''" using arg_cong [OF assms(2), of last] assms(3) by simp
  ultimately show False using json_lex_Nil [of q "CHR ''}''"] xs(1) assms(3) last_in_set [of q] by (simp add: json_space_def)
qed

end
