(* ===== verification/Sensor_Stream.thy ===== *)
theory Sensor_Stream
  imports Float_Text Sensors_Model Json_Cut
begin

text \<open>
  The wire format (\<^verbatim>\<open>internal/sensors/stream.go\<close> and the JSON tags of
  \<^verbatim>\<open>internal/sensors/models.go\<close>): a snapshot is one line of JSON of less than one mebibyte. The
  writer encodes, checks the size and appends the newline; the reader is a \<^verbatim>\<open>bufio.Scanner\<close> over
  the bytes that arrive, which end with an error of the connection or at its end.
\<close>

subsection \<open>Encoding\<close>

definition omit_empty :: "string \<Rightarrow> string \<Rightarrow> (string \<times> json) list" where
  "omit_empty key s = (if s = [] then [] else [(key, JStr s)])"

definition encode_disk :: "Disk \<Rightarrow> json result" where
  "encode_disk d =
    (case encode_float (disk_Temp d) of
       Inl e \<Rightarrow> Inl e
     | Inr temp \<Rightarrow>
         Inr (JObj ([(''id'', JStr (disk_ID d)), (''name'', JStr (disk_Name d)), (''device'', JStr (disk_Device d))] @
           omit_empty ''transport'' (disk_Transport d) @
           [(''rotational'', JBool (disk_Rotational d)), (''temp_c'', temp)] @
           (if disk_Unavailable d then [(''unavailable'', JBool True)] else []))))"

text \<open>An optional temperature, left out when it is nil.\<close>

definition encode_probe :: "string \<Rightarrow> float64 option \<Rightarrow> (string \<times> json) list result" where
  "encode_probe key t =
    (case t of
       None \<Rightarrow> Inr []
     | Some f \<Rightarrow> (case encode_float f of Inl e \<Rightarrow> Inl e | Inr v \<Rightarrow> Inr [(key, v)]))"

definition encode_hba :: "HBA \<Rightarrow> json result" where
  "encode_hba h =
    (case encode_float (hba_Temp h) of
       Inl e \<Rightarrow> Inl e
     | Inr temp \<Rightarrow>
         (case encode_probe ''ioc_temp_c'' (hba_IOCTemp h) of
            Inl e \<Rightarrow> Inl e
          | Inr ioc \<Rightarrow>
              (case encode_probe ''board_temp_c'' (hba_BoardTemp h) of
                 Inl e \<Rightarrow> Inl e
               | Inr board \<Rightarrow>
                   Inr (JObj ([(''id'', JStr (hba_ID h))] @ omit_empty ''model'' (hba_Model h) @
                     omit_empty ''pci_address'' (hba_PCIAddress h) @ [(''temp_c'', temp)] @ ioc @ board)))))"

fun encode_all :: "('a \<Rightarrow> json result) \<Rightarrow> 'a list \<Rightarrow> json list result" where
  "encode_all enc [] = Inr []"
| "encode_all enc (x # xs) =
    (case enc x of
       Inl e \<Rightarrow> Inl e
     | Inr v \<Rightarrow> (case encode_all enc xs of Inl e \<Rightarrow> Inl e | Inr vs \<Rightarrow> Inr (v # vs)))"

definition encode_slice :: "('a \<Rightarrow> json result) \<Rightarrow> 'a list option \<Rightarrow> json result" where
  "encode_slice enc xs =
    (case xs of
       None \<Rightarrow> Inr JNull
     | Some ys \<Rightarrow> (case encode_all enc ys of Inl e \<Rightarrow> Inl e | Inr vs \<Rightarrow> Inr (JArr vs)))"

definition encode_response :: "Response \<Rightarrow> json result" where
  "encode_response r =
    (case encode_slice encode_disk (resp_Disks r) of
       Inl e \<Rightarrow> Inl e
     | Inr disks \<Rightarrow>
         (case encode_slice encode_hba (resp_HBAs r) of
            Inl e \<Rightarrow> Inl e
          | Inr hbas \<Rightarrow>
              Inr (JObj ([(''protocol'', JNum (FormatInt (resp_Protocol r))), (''disks'', disks), (''hbas'', hbas)] @
                omit_empty ''hba_error'' (resp_HBAError r) @ omit_empty ''error'' (resp_Error r)))))"

subsection \<open>Decoding\<close>

definition Disk_zero :: Disk where
  "Disk_zero = \<lparr>disk_ID = [], disk_Name = [], disk_Device = [], disk_Transport = [], disk_Rotational = False,
     disk_Temp = Fin 0, disk_Unavailable = False\<rparr>"

definition HBA_zero :: HBA where
  "HBA_zero = \<lparr>hba_ID = [], hba_Model = [], hba_PCIAddress = [], hba_Temp = Fin 0, hba_IOCTemp = None, hba_BoardTemp = None\<rparr>"

definition Response_zero :: Response where
  "Response_zero = \<lparr>resp_Protocol = 0, resp_Disks = None, resp_HBAs = None, resp_HBAError = [], resp_Error = []\<rparr>"

definition decode_disk :: "Disk decoder" where
  "decode_disk = decode_struct ''sensors.Disk''
    [(''id'', decode_string (\<lambda>v r. r\<lparr>disk_ID := v\<rparr>)), (''name'', decode_string (\<lambda>v r. r\<lparr>disk_Name := v\<rparr>)),
     (''device'', decode_string (\<lambda>v r. r\<lparr>disk_Device := v\<rparr>)), (''transport'', decode_string (\<lambda>v r. r\<lparr>disk_Transport := v\<rparr>)),
     (''rotational'', decode_bool (\<lambda>v r. r\<lparr>disk_Rotational := v\<rparr>)), (''temp_c'', decode_float (\<lambda>v r. r\<lparr>disk_Temp := v\<rparr>)),
     (''unavailable'', decode_bool (\<lambda>v r. r\<lparr>disk_Unavailable := v\<rparr>))]"

definition decode_hba :: "HBA decoder" where
  "decode_hba = decode_struct ''sensors.HBA''
    [(''id'', decode_string (\<lambda>v r. r\<lparr>hba_ID := v\<rparr>)), (''model'', decode_string (\<lambda>v r. r\<lparr>hba_Model := v\<rparr>)),
     (''pci_address'', decode_string (\<lambda>v r. r\<lparr>hba_PCIAddress := v\<rparr>)), (''temp_c'', decode_float (\<lambda>v r. r\<lparr>hba_Temp := v\<rparr>)),
     (''ioc_temp_c'', decode_ptr (Fin 0) hba_IOCTemp (\<lambda>v r. r\<lparr>hba_IOCTemp := v\<rparr>) (decode_float (\<lambda>v _. v))),
     (''board_temp_c'', decode_ptr (Fin 0) hba_BoardTemp (\<lambda>v r. r\<lparr>hba_BoardTemp := v\<rparr>) (decode_float (\<lambda>v _. v)))]"

definition decode_response :: "Response decoder" where
  "decode_response = decode_struct ''sensors.Response''
    [(''protocol'', decode_int (\<lambda>v r. r\<lparr>resp_Protocol := v\<rparr>)),
     (''disks'', decode_slice Disk_zero (\<lambda>v r. r\<lparr>resp_Disks := v\<rparr>) decode_disk ''[]sensors.Disk''),
     (''hbas'', decode_slice HBA_zero (\<lambda>v r. r\<lparr>resp_HBAs := v\<rparr>) decode_hba ''[]sensors.HBA''),
     (''hba_error'', decode_string (\<lambda>v r. r\<lparr>resp_HBAError := v\<rparr>)),
     (''error'', decode_string (\<lambda>v r. r\<lparr>resp_Error := v\<rparr>))]"

subsection \<open>Frames\<close>

definition maxFrameSize :: nat where "maxFrameSize = 2 ^ 20"

definition frame_data :: "Response \<Rightarrow> string result" where
  "frame_data response =
    (case encode_response response of
       Inl err \<Rightarrow> Inl (Errorf_w ''encode stream snapshot: '' err [])
     | Inr v \<Rightarrow>
         let data = json_print v in
         if maxFrameSize \<le> length data
         then Inl (GoErr (''stream snapshot exceeds size limit: '' @ digits 10 (length data + 1) @
           '' bytes including newline, maximum '' @ digits 10 maxFrameSize) [ErrFrameTooLarge])
         else Inr (data @ [NL]))"

definition WriteFrame :: "(string \<Rightarrow> nat \<times> go_error option) \<Rightarrow> Response \<Rightarrow> go_error option" where
  "WriteFrame write response =
    (case frame_data response of
       Inl err \<Rightarrow> Some err
     | Inr data \<Rightarrow>
         (case write data of
            (n, Some err) \<Rightarrow> Some (Errorf_w ''write stream snapshot: '' err [])
          | (n, None) \<Rightarrow>
              if n \<noteq> length data then Some (GoErr ''write stream snapshot: short write'' [ErrShortWrite]) else None))"

record FrameReader =
  fr_rest :: string
  fr_end :: "go_error option"

definition NewFrameReader :: "string \<Rightarrow> go_error option \<Rightarrow> FrameReader" where
  "NewFrameReader bytes end_error = \<lparr>fr_rest = bytes, fr_end = end_error\<rparr>"

definition dropCR :: "string \<Rightarrow> string" where
  "dropCR l = (if l \<noteq> [] \<and> last l = CHR 0x0D then butlast l else l)"

text \<open>
  \<^verbatim>\<open>Scanner.Scan\<close> with \<^verbatim>\<open>ScanLines\<close>: a line and its newline have to fit the buffer; what precedes
  the end of the input is a line of its own when it is not empty. The reader of a connection is not
  used again after an error, so what the scanner keeps in its buffer after a line that is too long
  is not recorded.
\<close>

definition scan_frame :: "FrameReader \<Rightarrow> (go_error option + string) \<times> FrameReader" where
  "scan_frame r =
    (let line = takeWhile (\<lambda>c. c \<noteq> NL) (fr_rest r) in
     if maxFrameSize \<le> length line then (Inl (Some (GoErr ''bufio.Scanner: token too long'' [ErrTooLong])), r\<lparr>fr_rest := []\<rparr>)
     else if fr_rest r = [] then (Inl (fr_end r), r)
     else (Inr (dropCR line), r\<lparr>fr_rest := drop (length line + 1) (fr_rest r)\<rparr>))"

definition io_EOF :: go_error where "io_EOF = GoErr ''EOF'' [ErrEOF]"

definition FrameReader_Read :: "FrameReader \<Rightarrow> Response result \<times> FrameReader" where
  "FrameReader_Read r =
    (case scan_frame r of
       (Inl (Some err), r1) \<Rightarrow>
         (Inl (if errors_Is err ErrTooLong
               then GoErr ''read stream snapshot: stream snapshot exceeds size limit'' [ErrFrameTooLarge]
               else Errorf_w ''read stream snapshot: '' err []), r1)
     | (Inl None, r1) \<Rightarrow> (Inl io_EOF, r1)
     | (Inr line, r1) \<Rightarrow>
         (case json_Unmarshal decode_response Response_zero line of
            Inl err \<Rightarrow> (Inl (Errorf_w ''decode stream snapshot: '' err []), r1)
          | Inr response \<Rightarrow>
              if resp_Protocol response \<noteq> ProtocolVersion
              then (Inl (errors_New (''unsupported snapshot protocol '' @ FormatInt (resp_Protocol response) @
                '' (expected '' @ FormatInt ProtocolVersion @ '')'')), r1)
              else (Inr response, r1)))"

text \<open>Reading a connection until the first error.\<close>

lemma Read_shorter: "FrameReader_Read r = (Inr x, r1) \<Longrightarrow> length (fr_rest r1) < length (fr_rest r)"
  by (auto simp: FrameReader_Read_def scan_frame_def Let_def split: sum.splits option.splits if_splits prod.splits)

function read_stream :: "FrameReader \<Rightarrow> Response list \<times> go_error" where
  "read_stream r =
    (case FrameReader_Read r of
       (Inl err, _) \<Rightarrow> ([], err)
     | (Inr x, r1) \<Rightarrow> (case read_stream r1 of (xs, err) \<Rightarrow> (x # xs, err)))"
  by pat_completeness auto
termination by (relation "measure (\<lambda>r. length (fr_rest r))") (auto intro: Read_shorter dest: sym)

declare read_stream.simps [simp del]

subsection \<open>A printed value is one line\<close>

lemma decode_rune_rest: "decode_rune (c # cs) = (r, w) \<Longrightarrow> x \<in> set (take (w - 1) cs) \<Longrightarrow> 0x80 \<le> byte x"
  by (auto simp: Let_def second_ok_def second_lo_def cont_byte_def split: if_splits list.splits)

lemma u_escape_visible: "c \<in> set (u_escape r) \<Longrightarrow> 0x20 \<le> byte c"
proof -
  have d: "0x20 \<le> byte (hex_digit n)" if "n < 16" for n using that by (auto simp: hex_digit_def)
  assume "c \<in> set (u_escape r)"
  then show ?thesis by (auto simp: u_escape_def d)
qed

lemma escape_seg_visible:
  assumes d: "decode_rune (c # cs) = (r, w)" and x: "x \<in> set (escape_seg (r, c # take (w - 1) cs))"
  shows "0x20 \<le> byte x"
proof -
  have raw: "0x20 \<le> byte x" if "0x20 \<le> r" "x \<in> set (c # take (w - 1) cs)"
    using that decode_rune_ascii [OF d] decode_rune_first [OF d] decode_rune_rest [OF d, of x] by fastforce
  show ?thesis
    using x raw u_escape_visible
    by (auto simp: escape_seg_def split: if_splits simp del: set_simps) (auto)
qed

lemma json_string_visible: "x \<in> set (json_string s) \<Longrightarrow> 0x20 \<le> byte x"
proof -
  have "x \<in> set (concat (map escape_seg (utf8_segments s))) \<Longrightarrow> 0x20 \<le> byte x"
  proof (induction s rule: utf8_segments.induct)
    case (2 c cs)
    obtain r w where d: "decode_rune (c # cs) = (r, w)" by (cases "decode_rune (c # cs)")
    then have "utf8_segments (c # cs) = (r, c # take (w - 1) cs) # utf8_segments (drop (w - 1) cs)"
      by (simp add: Let_def del: decode_rune.simps)
    then show ?case using "2.IH" [OF refl] "2.prems" d escape_seg_visible [OF d] by (auto simp del: utf8_segments.simps decode_rune.simps)
  qed simp
  then show "x \<in> set (json_string s) \<Longrightarrow> 0x20 \<le> byte x" by (auto simp: json_string_def)
qed

lemma digits_visible: "c \<in> set (takeWhile is_digit cs) \<Longrightarrow> 0x20 \<le> byte c"
  by (auto dest!: set_takeWhileD simp: is_digit_def)

lemma scan_int_visible: "scan_int s = Some (t, r) \<Longrightarrow> c \<in> set t \<Longrightarrow> 0x20 \<le> byte c"
  by (auto simp: scan_int_def is_digit_def split: list.splits if_splits dest!: digits_visible)

lemma scan_frac_visible: "scan_frac s = Some (t, r) \<Longrightarrow> c \<in> set t \<Longrightarrow> 0x20 \<le> byte c"
  by (auto simp: scan_frac_def is_digit_def split: list.splits if_splits dest!: digits_visible)

lemma scan_exp_visible: "scan_exp s = Some (t, r) \<Longrightarrow> c \<in> set t \<Longrightarrow> 0x20 \<le> byte c"
  by (auto simp: scan_exp_def Let_def split: list.splits if_splits dest!: digits_visible)

lemma lex_number_visible:
  assumes "lex_number s = Some (t, r)" "c \<in> set t"
  shows "0x20 \<le> byte c"
proof -
  obtain i f e u v w where p: "scan_int u = Some (i, v)" "scan_frac v = Some (f, w)" "scan_exp w = Some (e, r)"
    and t: "t = [CHR ''-''] @ i @ f @ e \<or> t = i @ f @ e"
    using assms(1) by (auto simp: lex_number_def Let_def split: option.splits prod.splits if_splits)
  from t assms(2) consider "c = CHR ''-''" | "c \<in> set i" | "c \<in> set f" | "c \<in> set e" by auto
  then show ?thesis using p by cases (auto dest: scan_int_visible scan_frac_visible scan_exp_visible)
qed

lemma num_ok_visible: "num_ok n \<Longrightarrow> c \<in> set n \<Longrightarrow> 0x20 \<le> byte c"
proof -
  assume n: "num_ok n" and c: "c \<in> set n"
  from n have "num_end [] \<longrightarrow> lex_number (n @ []) = Some (n, [])" unfolding num_ok_def by blast
  then have "lex_number n = Some (n, [])" by (simp add: num_end_def)
  then show ?thesis using c by (rule lex_number_visible)
qed

lemma set_joinWith: "x \<in> set (joinWith sep xs) \<Longrightarrow> x \<in> set sep \<or> (\<exists>y \<in> set xs. x \<in> set y)"
  by (induction sep xs rule: joinWith.induct) auto

lemma json_print_visible: "nums_ok v \<Longrightarrow> x \<in> set (json_print v) \<Longrightarrow> 0x20 \<le> byte x"
proof (induction v)
  case (JArr xs)
  then show ?case by (auto simp: list_all_iff dest!: set_joinWith)
next
  case (JObj kvs)
  then show ?case by (fastforce simp: list_all_iff dest!: set_joinWith json_string_visible)
qed (auto dest: json_string_visible num_ok_visible split: if_splits)

corollary one_line: "nums_ok v \<Longrightarrow> NL \<notin> set (json_print v)" "nums_ok v \<Longrightarrow> CHR 0x0D \<notin> set (json_print v)"
  using json_print_visible [of v NL] json_print_visible [of v "CHR 0x0D"] by auto

subsection \<open>A snapshot survives the encoding\<close>

text \<open>What arrives: the snapshot with every invalid byte of its texts replaced.\<close>

definition clean_disk :: "Disk \<Rightarrow> Disk" where
  "clean_disk d = d\<lparr>disk_ID := utf8_clean (disk_ID d), disk_Name := utf8_clean (disk_Name d),
     disk_Device := utf8_clean (disk_Device d), disk_Transport := utf8_clean (disk_Transport d)\<rparr>"

definition clean_hba :: "HBA \<Rightarrow> HBA" where
  "clean_hba h = h\<lparr>hba_ID := utf8_clean (hba_ID h), hba_Model := utf8_clean (hba_Model h),
     hba_PCIAddress := utf8_clean (hba_PCIAddress h)\<rparr>"

definition clean_response :: "Response \<Rightarrow> Response" where
  "clean_response r = r\<lparr>resp_Disks := map_option (map clean_disk) (resp_Disks r),
     resp_HBAs := map_option (map clean_hba) (resp_HBAs r),
     resp_HBAError := utf8_clean (resp_HBAError r), resp_Error := utf8_clean (resp_Error r)\<rparr>"

fun plain_temp :: "float64 \<Rightarrow> bool" where
  "plain_temp (Fin x) = plain_value x"
| "plain_temp _ = False"

definition disk_plain :: "Disk \<Rightarrow> bool" where
  "disk_plain d = plain_temp (disk_Temp d)"

definition hba_plain :: "HBA \<Rightarrow> bool" where
  "hba_plain h = (plain_temp (hba_Temp h) \<and> pred_option plain_temp (hba_IOCTemp h) \<and> pred_option plain_temp (hba_BoardTemp h))"

definition response_plain :: "Response \<Rightarrow> bool" where
  "response_plain r = (int64_range (resp_Protocol r) \<and> list_all disk_plain (elements (resp_Disks r)) \<and>
     list_all hba_plain (elements (resp_HBAs r)))"

lemma encode_plain:
  assumes "plain_temp f"
  obtains n where "encode_float f = Inr (JNum n)" "num_ok n" "ParseFloat n = Inr f"
  using assms float_text_ok by (cases f) auto

lemma utf8_clean_Nil_iff [simp]: "utf8_clean s = [] \<longleftrightarrow> s = []"
proof
  assume "utf8_clean s = []"
  then show "s = []"
    by (cases s) (auto simp: utf8_clean_def runes_def Let_def encode_rune_def simp del: decode_rune.simps split: if_splits)
qed (simp add: utf8_clean_def runes_def)

lemma disk_roundtrip:
  assumes "disk_plain d"
  obtains v where "encode_disk d = Inr v" "nums_ok v" "decode_disk (json_clean v) Disk_zero = (None, clean_disk d)"
proof -
  obtain n where n: "encode_float (disk_Temp d) = Inr (JNum n)" "num_ok n" "ParseFloat n = Inr (disk_Temp d)"
    using assms by (auto simp: disk_plain_def elim: encode_plain)
  show thesis
  proof (rule that)
    show "encode_disk d = Inr (JObj ([(''id'', JStr (disk_ID d)), (''name'', JStr (disk_Name d)), (''device'', JStr (disk_Device d))] @
           omit_empty ''transport'' (disk_Transport d) @
           [(''rotational'', JBool (disk_Rotational d)), (''temp_c'', JNum n)] @
           (if disk_Unavailable d then [(''unavailable'', JBool True)] else [])))" (is "_ = Inr ?v")
      by (simp add: encode_disk_def n)
    show "nums_ok ?v" by (simp add: n omit_empty_def)
    show "decode_disk (json_clean ?v) Disk_zero = (None, clean_disk d)"
      by (cases d) (use n(3) in \<open>simp add: decode_disk_def decode_struct_def decode_string_def decode_bool_def decode_float_def
          omit_empty_def Disk_zero_def clean_disk_def clean_ascii first_error_def EqualFold_ascii rune_fold_def\<close>)
  qed
qed

lemma probe_roundtrip:
  assumes "pred_option plain_temp t"
  obtains kvs where "encode_probe key t = Inr kvs"
    "t = None \<and> kvs = [] \<or> (\<exists>n f. t = Some f \<and> kvs = [(key, JNum n)] \<and> num_ok n \<and> ParseFloat n = Inr f)"
proof (cases t)
  case (Some f)
  then obtain n where "encode_float f = Inr (JNum n)" "num_ok n" "ParseFloat n = Inr f"
    using assms by (auto elim: encode_plain)
  with Some that [of "[(key, JNum n)]"] show thesis by (simp add: encode_probe_def)
qed (use that [of "[]"] in \<open>simp add: encode_probe_def\<close>)

lemma decode_hba_member:
  "decode_hba (JObj []) r = (None, r)"
  "decode_hba (JObj ((''id'', JStr s) # kvs)) r = decode_hba (JObj kvs) (r\<lparr>hba_ID := s\<rparr>)"
  "decode_hba (JObj ((''model'', JStr s) # kvs)) r = decode_hba (JObj kvs) (r\<lparr>hba_Model := s\<rparr>)"
  "decode_hba (JObj ((''pci_address'', JStr s) # kvs)) r = decode_hba (JObj kvs) (r\<lparr>hba_PCIAddress := s\<rparr>)"
  "ParseFloat n = Inr f \<Longrightarrow> decode_hba (JObj ((''temp_c'', JNum n) # kvs)) r = decode_hba (JObj kvs) (r\<lparr>hba_Temp := f\<rparr>)"
  "ParseFloat n = Inr f \<Longrightarrow> decode_hba (JObj ((''ioc_temp_c'', JNum n) # kvs)) r = decode_hba (JObj kvs) (r\<lparr>hba_IOCTemp := Some f\<rparr>)"
  "ParseFloat n = Inr f \<Longrightarrow> decode_hba (JObj ((''board_temp_c'', JNum n) # kvs)) r = decode_hba (JObj kvs) (r\<lparr>hba_BoardTemp := Some f\<rparr>)"
  by (simp_all add: decode_hba_def decode_struct_def decode_string_def decode_float_def decode_ptr_def first_error_def
      EqualFold_ascii rune_fold_def)

lemma hba_roundtrip:
  assumes "hba_plain h"
  obtains v where "encode_hba h = Inr v" "nums_ok v" "decode_hba (json_clean v) HBA_zero = (None, clean_hba h)"
proof -
  obtain n where n: "encode_float (hba_Temp h) = Inr (JNum n)" "num_ok n" "ParseFloat n = Inr (hba_Temp h)"
    using assms by (auto simp: hba_plain_def elim: encode_plain)
  obtain i where i: "encode_probe ''ioc_temp_c'' (hba_IOCTemp h) = Inr i"
    "hba_IOCTemp h = None \<and> i = [] \<or> (\<exists>m f. hba_IOCTemp h = Some f \<and> i = [(''ioc_temp_c'', JNum m)] \<and> num_ok m \<and> ParseFloat m = Inr f)"
    using assms probe_roundtrip [of "hba_IOCTemp h"] unfolding hba_plain_def by blast
  obtain b where b: "encode_probe ''board_temp_c'' (hba_BoardTemp h) = Inr b"
    "hba_BoardTemp h = None \<and> b = [] \<or> (\<exists>m f. hba_BoardTemp h = Some f \<and> b = [(''board_temp_c'', JNum m)] \<and> num_ok m \<and> ParseFloat m = Inr f)"
    using assms probe_roundtrip [of "hba_BoardTemp h"] unfolding hba_plain_def by blast
  show thesis
  proof (rule that)
    show "encode_hba h = Inr (JObj ([(''id'', JStr (hba_ID h))] @ omit_empty ''model'' (hba_Model h) @
        omit_empty ''pci_address'' (hba_PCIAddress h) @ [(''temp_c'', JNum n)] @ i @ b))" (is "_ = Inr ?v")
      by (simp add: encode_hba_def n i(1) b(1))
    show "nums_ok ?v" using i(2) b(2) n(2) by (auto simp: omit_empty_def)
    show "decode_hba (json_clean ?v) HBA_zero = (None, clean_hba h)"
      using n(3) i(2) b(2)
      by (cases h; elim disjE conjE exE)
        (simp_all add: decode_hba_member omit_empty_def HBA_zero_def clean_hba_def clean_ascii)
  qed
qed

lemma slice_roundtrip:
  assumes "\<And>x. x \<in> set (elements xs) \<Longrightarrow> \<exists>v. enc x = Inr v \<and> nums_ok v \<and> dec (json_clean v) zero = (None, clean x)"
  obtains v where "encode_slice enc xs = Inr v" "nums_ok v"
    "\<And>put typ r. decode_slice zero put dec typ (json_clean v) r = (None, put (map_option (map clean) xs) r)"
proof (cases xs)
  case None
  then show thesis using that [of JNull] by (simp add: encode_slice_def decode_slice_def)
next
  case (Some ys)
  have "\<exists>vs. encode_all enc ys = Inr vs \<and> list_all nums_ok vs \<and>
      decode_elements zero dec (map json_clean vs) = (None, map clean ys)"
    using assms unfolding Some elements.simps
  proof (induction ys)
    case (Cons y ys)
    then obtain vs where "encode_all enc ys = Inr vs" "list_all nums_ok vs"
      "decode_elements zero dec (map json_clean vs) = (None, map clean ys)" by auto
    moreover obtain v where "enc y = Inr v" "nums_ok v" "dec (json_clean v) zero = (None, clean y)"
      using Cons.prems by auto
    ultimately show ?case by (intro exI [of _ "v # vs"]) (simp add: first_error_def)
  qed simp
  then obtain vs where "encode_all enc ys = Inr vs" "list_all nums_ok vs"
    "decode_elements zero dec (map json_clean vs) = (None, map clean ys)" by blast
  then show thesis using that [of "JArr vs"] Some by (simp add: encode_slice_def decode_slice_def)
qed

lemma response_roundtrip:
  assumes "response_plain r"
  obtains v where "encode_response r = Inr v" "nums_ok v"
    "decode_response (json_clean v) Response_zero = (None, clean_response r)"
proof -
  have "\<And>x. x \<in> set (elements (resp_Disks r)) \<Longrightarrow> \<exists>v. encode_disk x = Inr v \<and> nums_ok v \<and>
      decode_disk (json_clean v) Disk_zero = (None, clean_disk x)"
    using assms by (meson disk_roundtrip response_plain_def list_all_iff)
  then obtain d where d: "encode_slice encode_disk (resp_Disks r) = Inr d" "nums_ok d"
    "\<And>put typ (q :: Response). decode_slice Disk_zero put decode_disk typ (json_clean d) q = (None, put (map_option (map clean_disk) (resp_Disks r)) q)"
    using slice_roundtrip [of "resp_Disks r" encode_disk decode_disk Disk_zero clean_disk] by blast
  have "\<And>x. x \<in> set (elements (resp_HBAs r)) \<Longrightarrow> \<exists>v. encode_hba x = Inr v \<and> nums_ok v \<and>
      decode_hba (json_clean v) HBA_zero = (None, clean_hba x)"
    using assms by (meson hba_roundtrip response_plain_def list_all_iff)
  then obtain h where h: "encode_slice encode_hba (resp_HBAs r) = Inr h" "nums_ok h"
    "\<And>put typ (q :: Response). decode_slice HBA_zero put decode_hba typ (json_clean h) q = (None, put (map_option (map clean_hba) (resp_HBAs r)) q)"
    using slice_roundtrip [of "resp_HBAs r" encode_hba decode_hba HBA_zero clean_hba] by blast
  show thesis
  proof (rule that)
    show "encode_response r = Inr (JObj ([(''protocol'', JNum (FormatInt (resp_Protocol r))), (''disks'', d), (''hbas'', h)] @
                omit_empty ''hba_error'' (resp_HBAError r) @ omit_empty ''error'' (resp_Error r)))" (is "_ = Inr ?v")
      by (simp add: encode_response_def d(1) h(1))
    show "nums_ok ?v" using d(2) h(2) by (simp add: omit_empty_def)
    have "int64_range (resp_Protocol r)" using assms by (simp add: response_plain_def)
    then show "decode_response (json_clean ?v) Response_zero = (None, clean_response r)"
      by (cases r) (simp add: decode_response_def decode_struct_def decode_string_def decode_int_def d(3) h(3) ParseInt10_FormatInt
          omit_empty_def Response_zero_def clean_response_def clean_ascii first_error_def EqualFold_ascii rune_fold_def)
  qed
qed

lemma frame_text:
  assumes "response_plain r" "frame_data r = Inr data"
  obtains line where "data = line @ [NL]" "NL \<notin> set line" "CHR 0x0D \<notin> set line" "length line < maxFrameSize"
    "json_Unmarshal decode_response Response_zero line = Inr (clean_response r)"
proof -
  obtain v where v: "encode_response r = Inr v" "nums_ok v"
    "decode_response (json_clean v) Response_zero = (None, clean_response r)"
    using response_roundtrip [OF assms(1)] by blast
  show thesis
    using that [of "json_print v"] assms(2) one_line [OF v(2)] json_parse_print [OF v(2)] v(1,3)
    by (auto simp: frame_data_def json_Unmarshal_def Let_def split: if_splits)
qed

text \<open>Reading the next frame of a stream.\<close>

lemma Read_frame:
  assumes "response_plain r" "resp_Protocol r = ProtocolVersion" "frame_data r = Inr data"
  shows "FrameReader_Read \<lparr>fr_rest = data @ rest, fr_end = e\<rparr> = (Inr (clean_response r), \<lparr>fr_rest = rest, fr_end = e\<rparr>)"
proof -
  obtain line where l: "data = line @ [NL]" "NL \<notin> set line" "CHR 0x0D \<notin> set line" "length line < maxFrameSize"
    "json_Unmarshal decode_response Response_zero line = Inr (clean_response r)"
    using frame_text [OF assms(1,3)] by blast
  have t: "takeWhile (\<lambda>c. c \<noteq> NL) (data @ rest) = line"
    using l(2) unfolding l(1) append_assoc by (subst takeWhile_append2) auto
  have "dropCR line = line" using l(3) last_in_set by (fastforce simp: dropCR_def)
  then have "scan_frame \<lparr>fr_rest = data @ rest, fr_end = e\<rparr> = (Inr line, \<lparr>fr_rest = rest, fr_end = e\<rparr>)"
    using t l(1,4) by (simp add: scan_frame_def)
  moreover have "resp_Protocol (clean_response r) = ProtocolVersion" using assms(2) by (simp add: clean_response_def)
  ultimately show ?thesis using l(5) by (simp add: FrameReader_Read_def)
qed

lemma read_frames:
  assumes "list_all2 (\<lambda>r data. response_plain r \<and> resp_Protocol r = ProtocolVersion \<and> frame_data r = Inr data) rs frames"
  shows "read_stream \<lparr>fr_rest = concat frames @ rest, fr_end = e\<rparr> =
    (case read_stream \<lparr>fr_rest = rest, fr_end = e\<rparr> of (xs, err) \<Rightarrow> (map clean_response rs @ xs, err))"
  using assms
proof (induction rs frames rule: list_all2_induct)
  case Nil
  then show ?case by simp
next
  case (Cons r rs data frames)
  then have "FrameReader_Read \<lparr>fr_rest = data @ concat frames @ rest, fr_end = e\<rparr> =
      (Inr (clean_response r), \<lparr>fr_rest = concat frames @ rest, fr_end = e\<rparr>)"
    by (intro Read_frame) auto
  then show ?case using Cons.IH by (subst read_stream.simps) (simp split: prod.split)
qed

lemma read_empty [simp]: "read_stream \<lparr>fr_rest = [], fr_end = e\<rparr> =
    ([], case e of None \<Rightarrow> io_EOF
         | Some err \<Rightarrow> if errors_Is err ErrTooLong
             then GoErr ''read stream snapshot: stream snapshot exceeds size limit'' [ErrFrameTooLarge]
             else Errorf_w ''read stream snapshot: '' err [])"
  by (subst read_stream.simps) (simp add: FrameReader_Read_def scan_frame_def maxFrameSize_def split: option.split)

text \<open>A frame that was cut off: nothing is read from it, unless only its newline is missing.\<close>

lemma encode_response_object: "encode_response r = Inr v \<Longrightarrow> \<exists>kvs. v = JObj kvs"
  by (auto simp: encode_response_def split: sum.splits)

lemma Read_unterminated:
  assumes "NL \<notin> set p" "CHR 0x0D \<notin> set p" "p \<noteq> []" "length p < maxFrameSize"
  shows "FrameReader_Read \<lparr>fr_rest = p, fr_end = e\<rparr> =
    (case json_Unmarshal decode_response Response_zero p of
       Inl err \<Rightarrow> (Inl (Errorf_w ''decode stream snapshot: '' err []), \<lparr>fr_rest = [], fr_end = e\<rparr>)
     | Inr response \<Rightarrow>
         if resp_Protocol response \<noteq> ProtocolVersion
         then (Inl (errors_New (''unsupported snapshot protocol '' @ FormatInt (resp_Protocol response) @
           '' (expected '' @ FormatInt ProtocolVersion @ '')'')), \<lparr>fr_rest = [], fr_end = e\<rparr>)
         else (Inr response, \<lparr>fr_rest = [], fr_end = e\<rparr>))"
proof -
  have t: "takeWhile (\<lambda>c. c \<noteq> NL) p = p" using assms(1) by (auto simp: takeWhile_eq_all_conv)
  have "last p \<in> set p" using assms(3) by simp
  then have d: "dropCR p = p" using assms(2) by (auto simp: dropCR_def)
  have "scan_frame \<lparr>fr_rest = p, fr_end = e\<rparr> = (Inr p, \<lparr>fr_rest = [], fr_end = e\<rparr>)"
    using assms(3,4) by (simp add: scan_frame_def t d)
  then show ?thesis by (simp add: FrameReader_Read_def split: sum.split)
qed

lemma read_cut:
  assumes "response_plain r" "resp_Protocol r = ProtocolVersion" "frame_data r = Inr (p @ q)" "q \<noteq> []"
  shows "\<exists>k. fst (read_stream \<lparr>fr_rest = p, fr_end = e\<rparr>) = take k [clean_response r]"
proof -
  obtain v where v: "encode_response r = Inr v" "nums_ok v"
    "decode_response (json_clean v) Response_zero = (None, clean_response r)"
    using response_roundtrip [OF assms(1)] by blast
  have data: "p @ q = json_print v @ [NL]" "length (json_print v) < maxFrameSize"
    using assms(3) v(1) by (auto simp: frame_data_def Let_def split: if_splits)
  then obtain q' where q': "json_print v = p @ q'"
    using assms(4) that by (cases q rule: rev_cases) (simp_all, metis)
  have p: "NL \<notin> set p" "CHR 0x0D \<notin> set p" "length p < maxFrameSize"
    using one_line [OF v(2)] data(2) unfolding q' by auto
  consider "p = []" | "p \<noteq> []" "q' = []" | "p \<noteq> []" "q' \<noteq> []" by blast
  then show ?thesis
  proof cases
    case 1
    then show ?thesis by (intro exI [of _ 0]) simp
  next
    case 2
    have "json_Unmarshal decode_response Response_zero p = Inr (clean_response r)"
      using json_parse_print [OF v(2)] v(3) q' 2(2) by (simp add: json_Unmarshal_def)
    then have "FrameReader_Read \<lparr>fr_rest = p, fr_end = e\<rparr> = (Inr (clean_response r), \<lparr>fr_rest = [], fr_end = e\<rparr>)"
      using Read_unterminated [OF p(1,2) 2(1) p(3)] assms(2) by (simp add: clean_response_def)
    then show ?thesis by (intro exI [of _ 1], subst read_stream.simps) simp
  next
    case 3
    obtain kvs where "v = JObj kvs" using encode_response_object [OF v(1)] by blast
    then obtain err where "json_parse p = Inl err" using cut_object v(2) q' 3(2) by metis
    then have "FrameReader_Read \<lparr>fr_rest = p, fr_end = e\<rparr> =
        (Inl (Errorf_w ''decode stream snapshot: '' err []), \<lparr>fr_rest = [], fr_end = e\<rparr>)"
      using Read_unterminated [OF p(1,2) 3(1) p(3)] by (simp add: json_Unmarshal_def)
    then show ?thesis by (intro exI [of _ 0], subst read_stream.simps) simp
  qed
qed

definition framed :: "Response \<Rightarrow> string \<Rightarrow> bool" where
  "framed r data = (response_plain r \<and> resp_Protocol r = ProtocolVersion \<and> frame_data r = Inr data)"

lemma read_frames_framed:
  "list_all2 framed rs frames \<Longrightarrow> read_stream \<lparr>fr_rest = concat frames @ rest, fr_end = e\<rparr> =
    (case read_stream \<lparr>fr_rest = rest, fr_end = e\<rparr> of (xs, err) \<Rightarrow> (map clean_response rs @ xs, err))"
  by (rule read_frames) (simp add: framed_def [abs_def])

text \<open>Whatever part of a stream of frames arrives, what is read are the first snapshots sent.\<close>

lemma read_prefix:
  assumes "list_all2 framed rs frames" "concat frames = bytes @ missing"
  shows "\<exists>k. fst (read_stream \<lparr>fr_rest = bytes, fr_end = e\<rparr>) = map clean_response (take k rs)"
  using assms
proof (induction rs frames arbitrary: bytes rule: list_all2_induct)
  case Nil
  then show ?case by simp
next
  case (Cons r rs data frames)
  then have f: "response_plain r" "resp_Protocol r = ProtocolVersion" "frame_data r = Inr data" by (simp_all add: framed_def)
  from Cons.prems obtain u where u: "data @ u = bytes \<and> concat frames = u @ missing \<or> data = bytes @ u \<and> u @ concat frames = missing"
    by (auto simp: append_eq_append_conv2)
  show ?case
  proof (cases "u \<noteq> [] \<and> data = bytes @ u")
    case True
    then obtain k where "fst (read_stream \<lparr>fr_rest = bytes, fr_end = e\<rparr>) = take k [clean_response r]"
      using read_cut [OF f(1,2), of bytes u] f(3) by auto
    then show ?thesis by (cases k) (auto intro: exI [of _ 0] exI [of _ 1])
  next
    case False
    then obtain u where u: "bytes = data @ u" "concat frames = u @ missing" using u by auto
    obtain k where "fst (read_stream \<lparr>fr_rest = u, fr_end = e\<rparr>) = map clean_response (take k rs)"
      using Cons.IH [OF u(2)] by blast
    then have "fst (read_stream \<lparr>fr_rest = bytes, fr_end = e\<rparr>) = map clean_response (take (Suc k) (r # rs))"
      using Read_frame [OF f, of u e] u(1)
      by (subst read_stream.simps) (cases "read_stream \<lparr>fr_rest = u, fr_end = e\<rparr>", simp)
    then show ?thesis by blast
  qed
qed

text \<open>A snapshot is refused for its size by the writer, and a line of that size by the reader.\<close>

lemma oversize_refused:
  "encode_response r = Inr v \<Longrightarrow> maxFrameSize \<le> length (json_print v) \<Longrightarrow>
    \<exists>err. WriteFrame write r = Some err \<and> errors_Is err ErrFrameTooLarge"
  "maxFrameSize \<le> length line \<Longrightarrow> NL \<notin> set line \<Longrightarrow>
    \<exists>err r1. FrameReader_Read \<lparr>fr_rest = line @ rest, fr_end = e\<rparr> = (Inl err, r1) \<and> errors_Is err ErrFrameTooLarge"
proof -
  show "encode_response r = Inr v \<Longrightarrow> maxFrameSize \<le> length (json_print v) \<Longrightarrow>
      \<exists>err. WriteFrame write r = Some err \<and> errors_Is err ErrFrameTooLarge"
    by (simp add: WriteFrame_def frame_data_def Let_def errors_Is_def)
  assume l: "maxFrameSize \<le> length line" "NL \<notin> set line"
  have "length line \<le> length (takeWhile (\<lambda>c. c \<noteq> NL) (line @ rest))"
    using l(2) by (subst takeWhile_append2) auto
  then show "\<exists>err r1. FrameReader_Read \<lparr>fr_rest = line @ rest, fr_end = e\<rparr> = (Inl err, r1) \<and> errors_Is err ErrFrameTooLarge"
    using l(1) by (simp add: FrameReader_Read_def scan_frame_def Let_def errors_Is_def)
qed

text \<open>A snapshot all of whose texts are valid UTF-8 arrives unchanged.\<close>

definition valid_texts :: "Response \<Rightarrow> bool" where
  "valid_texts r =
    (list_all (\<lambda>d. well_text (disk_ID d) \<and> well_text (disk_Name d) \<and> well_text (disk_Device d) \<and> well_text (disk_Transport d))
       (elements (resp_Disks r)) \<and>
     list_all (\<lambda>h. well_text (hba_ID h) \<and> well_text (hba_Model h) \<and> well_text (hba_PCIAddress h)) (elements (resp_HBAs r)) \<and>
     well_text (resp_HBAError r) \<and> well_text (resp_Error r))"

lemma clean_valid: "valid_texts r \<Longrightarrow> clean_response r = r"
proof -
  assume v: "valid_texts r"
  have "map_option (map clean_disk) (resp_Disks r) = resp_Disks r"
    using v by (cases "resp_Disks r") (auto simp: valid_texts_def clean_disk_def well_text_def list_all_iff intro: map_idI)
  moreover have "map_option (map clean_hba) (resp_HBAs r) = resp_HBAs r"
    using v by (cases "resp_HBAs r") (auto simp: valid_texts_def clean_hba_def well_text_def list_all_iff intro: map_idI)
  ultimately show ?thesis using v by (simp add: clean_response_def valid_texts_def well_text_def)
qed

text \<open>
  C8: The stream between guest and host loses and invents nothing. For snapshots of the current
  protocol whose temperatures are finite and printed without an exponent (0, or of a magnitude from
  a millionth of a degree to below ten to the 21st), reading the frames written for them gives them
  back in order, with invalid UTF-8 in their texts replaced, and then the end of the stream; the
  temperatures are the same binary64 values, and snapshots whose texts are valid UTF-8 are given
  back exactly. When the connection breaks at any byte, what was read are the first of them.
\<close>

theorem stream_roundtrip:
  assumes "list_all2 framed rs frames"
  shows "read_stream (NewFrameReader (concat frames) None) = (map clean_response rs, io_EOF) \<and>
    (\<forall>bytes missing e. concat frames = bytes @ missing \<longrightarrow>
      (\<exists>k. fst (read_stream (NewFrameReader bytes e)) = map clean_response (take k rs))) \<and>
    (list_all valid_texts rs \<longrightarrow> map clean_response rs = rs)"
proof -
  have "read_stream (NewFrameReader (concat frames) None) = (map clean_response rs, io_EOF)"
    using read_frames_framed [OF assms, of "[]" None] by (simp add: NewFrameReader_def)
  moreover have "\<exists>k. fst (read_stream (NewFrameReader bytes e)) = map clean_response (take k rs)"
    if "concat frames = bytes @ missing" for bytes missing e
    using read_prefix [OF assms that, of e] by (simp add: NewFrameReader_def)
  moreover have "list_all valid_texts rs \<Longrightarrow> map clean_response rs = rs"
    by (rule map_idI) (auto simp: list_all_iff clean_valid)
  ultimately show ?thesis by blast
qed

definition example_response :: "rat \<Rightarrow> Response" where
  "example_response t =
    \<lparr>resp_Protocol = 1,
     resp_Disks = Some [\<lparr>disk_ID = ''S1'', disk_Name = ''disk1'', disk_Device = ''sdb'', disk_Transport = ''sata'',
       disk_Rotational = True, disk_Temp = Fin t, disk_Unavailable = False\<rparr>],
     resp_HBAs = None, resp_HBAError = ''expired'', resp_Error = []\<rparr>"

definition example_line :: string where
  "example_line = (case frame_data (example_response 37) of Inr data \<Rightarrow> data | Inl _ \<Rightarrow> [])"

lemma example_line_ok: "frame_data (example_response 37) = Inr example_line" "length example_line = 150"
proof -
  have "frame_data (example_response 37) = Inr example_line \<and> length example_line = 150"
    by code_simp
  then show "frame_data (example_response 37) = Inr example_line" "length example_line = 150" by blast+
qed

theorem stream_roundtrip_witness:
  "read_stream (NewFrameReader (example_line @ example_line) None) =
    (map clean_response [example_response 37, example_response 37], io_EOF) \<and>
   (\<exists>k. fst (read_stream (NewFrameReader (take 200 (example_line @ example_line)) None)) =
     map clean_response (take k [example_response 37, example_response 37])) \<and> length example_line = 150"
proof -
  have "plain_value 37" using plain_int [of 37] by simp
  then have "response_plain (example_response 37)"
    by (simp add: response_plain_def example_response_def disk_plain_def int64_range_def)
  then have f: "list_all2 framed [example_response 37, example_response 37] [example_line, example_line]"
    using example_line_ok(1) by (simp add: framed_def example_response_def ProtocolVersion_def)
  note r = stream_roundtrip [OF f]
  have "concat [example_line, example_line] = take 200 (example_line @ example_line) @ drop 200 (example_line @ example_line)"
    by (simp only: append_take_drop_id) simp
  then have "\<exists>k. fst (read_stream (NewFrameReader (take 200 (example_line @ example_line)) None)) =
      map clean_response (take k [example_response 37, example_response 37])"
    using r by blast
  then show ?thesis using r example_line_ok(2) by simp
qed

end
