(* ===== verification/Go_Path.thy ===== *)
theory Go_Path
  imports Go_Text
begin

text \<open>
  The package \<^verbatim>\<open>path/filepath\<close> on Unix as far as the program uses it: \<^verbatim>\<open>Clean\<close>, \<^verbatim>\<open>Join\<close>,
  \<^verbatim>\<open>Dir\<close>, \<^verbatim>\<open>Base\<close>, \<^verbatim>\<open>IsAbs\<close> and \<^verbatim>\<open>Rel\<close>, on the components between slashes.
\<close>

abbreviation (input) slash :: char where "slash \<equiv> CHR ''/''"

text \<open>\<^verbatim>\<open>strings.Split(s, sep)\<close> for a one-character separator: never empty.\<close>

fun split_on :: "char \<Rightarrow> string \<Rightarrow> string list" where
  "split_on sep [] = [[]]"
| "split_on sep (c # cs) =
    (if c = sep then [] # split_on sep cs
     else case split_on sep cs of
       [] \<Rightarrow> [[c]]
     | w # ws \<Rightarrow> (c # w) # ws)"

fun clean_comps :: "bool \<Rightarrow> string list \<Rightarrow> string list \<Rightarrow> string list" where
  "clean_comps rooted acc [] = rev acc"
| "clean_comps rooted acc (c # cs) =
    (if c = [] \<or> c = ''.'' then clean_comps rooted acc cs
     else if c = ''..'' then
       (case acc of
          [] \<Rightarrow> clean_comps rooted (if rooted then [] else [c]) cs
        | a # as \<Rightarrow> clean_comps rooted (if a = ''..'' then c # acc else as) cs)
     else clean_comps rooted (c # acc) cs)"

definition IsAbs :: "string \<Rightarrow> bool" where
  "IsAbs p = HasPrefix p ''/''"

definition path_comps :: "string \<Rightarrow> string list" where
  "path_comps p = clean_comps (IsAbs p) [] (split_on slash p)"

definition abs_path :: "string list \<Rightarrow> string" where
  "abs_path cs = slash # joinWith ''/'' cs"

definition Clean :: "string \<Rightarrow> string" where
  "Clean p =
    (if IsAbs p then abs_path (path_comps p)
     else if path_comps p = [] then ''.''
     else joinWith ''/'' (path_comps p))"

definition path_Join :: "string list \<Rightarrow> string" where
  "path_Join elems =
    (case dropWhile (\<lambda>e. e = []) elems of
       [] \<Rightarrow> []
     | es \<Rightarrow> Clean (joinWith ''/'' es))"

text \<open>Everything up to and including the last slash, and what follows it.\<close>

definition dir_part :: "string \<Rightarrow> string" where
  "dir_part p = rev (dropWhile (\<lambda>c. c \<noteq> slash) (rev p))"

definition Dir :: "string \<Rightarrow> string" where
  "Dir p = Clean (dir_part p)"

definition Base :: "string \<Rightarrow> string" where
  "Base p =
    (if p = [] then ''.''
     else let q = rev (dropWhile (\<lambda>c. c = slash) (rev p)) in
       if q = [] then ''/'' else rev (takeWhile (\<lambda>c. c \<noteq> slash) (rev q)))"

fun strip_common :: "'a list \<Rightarrow> 'a list \<Rightarrow> 'a list \<times> 'a list" where
  "strip_common (x # xs) (y # ys) = (if x = y then strip_common xs ys else (x # xs, y # ys))"
| "strip_common xs ys = (xs, ys)"

definition path_Rel :: "string \<Rightarrow> string \<Rightarrow> string result" where
  "path_Rel base targ =
    (if Clean base = Clean targ then Inr ''.''
     else if IsAbs (Clean base) \<noteq> IsAbs (Clean targ)
     then Inl (errors_New (''Rel: can't make '' @ targ @ '' relative to '' @ base))
     else case strip_common (path_comps base) (path_comps targ) of
       (bs, ts) \<Rightarrow>
         if bs \<noteq> [] \<and> hd bs = ''..''
         then Inl (errors_New (''Rel: can't make '' @ targ @ '' relative to '' @ base))
         else Inr (joinWith ''/'' (map (\<lambda>_. ''..'') bs @ ts)))"

subsection \<open>Absolute paths and their components\<close>

definition plain_comp :: "string \<Rightarrow> bool" where
  "plain_comp c = (c \<noteq> [] \<and> c \<noteq> ''.'' \<and> c \<noteq> ''..'' \<and> slash \<notin> set c)"

lemma split_on_ne [simp]: "split_on sep s \<noteq> []"
  by (induction s) (auto split: list.split)

lemma split_on_free: "sep \<notin> set s \<Longrightarrow> split_on sep s = [s]"
  by (induction s) auto

lemma split_on_append: "sep \<notin> set s \<Longrightarrow> split_on sep (s @ sep # t) = s # split_on sep t"
  by (induction s) auto

lemma split_on_join:
  "cs \<noteq> [] \<Longrightarrow> \<forall>c \<in> set cs. sep \<notin> set c \<Longrightarrow> split_on sep (joinWith [sep] cs) = cs"
  by (induction cs rule: induct_list012) (auto simp: split_on_free split_on_append)

lemma split_on_parts: "c \<in> set (split_on sep s) \<Longrightarrow> sep \<notin> set c"
proof (induction s arbitrary: c)
  case (Cons a s)
  obtain w ws where w: "split_on sep s = w # ws" by (cases "split_on sep s") auto
  have "sep \<notin> set w" "\<And>x. x \<in> set ws \<Longrightarrow> sep \<notin> set x" using Cons.IH w by auto
  with Cons.prems w show ?case by (auto split: if_splits)
qed simp

lemma clean_comps_append:
  "\<forall>c \<in> set cs. plain_comp c \<Longrightarrow> clean_comps rooted acc (cs @ ds) = clean_comps rooted (rev cs @ acc) ds"
  by (induction cs arbitrary: acc) (auto simp: plain_comp_def)

lemma clean_comps_plain:
  "\<forall>c \<in> set cs. plain_comp c \<Longrightarrow> clean_comps rooted acc cs = rev acc @ cs"
  using clean_comps_append [of cs rooted acc "[]"] by simp

lemma split_on_join_tail:
  "cs \<noteq> [] \<Longrightarrow> \<forall>c \<in> set cs. sep \<notin> set c \<Longrightarrow> split_on sep (joinWith [sep] cs @ [sep]) = cs @ [[]]"
  by (induction cs rule: induct_list012) (auto simp: split_on_append)

lemma clean_comps_rooted_plain:
  "\<forall>c \<in> set acc. plain_comp c \<Longrightarrow> \<forall>c \<in> set cs. slash \<notin> set c \<Longrightarrow>
   \<forall>c \<in> set (clean_comps True acc cs). plain_comp c"
proof (induction cs arbitrary: acc)
  case (Cons c cs)
  have rest: "\<forall>d \<in> set (clean_comps True as cs). plain_comp d" if "\<forall>d \<in> set as. plain_comp d" for as
    using Cons that by simp
  consider "c = [] \<or> c = ''.''" | "c = ''..''" | "plain_comp c"
    using Cons.prems(2) by (auto simp: plain_comp_def)
  then show ?case
  proof cases
    case 1
    then show ?thesis using rest [OF Cons.prems(1)] by auto
  next
    case 2
    have "a \<noteq> ''..''" if "acc = a # as" for a as
      using Cons.prems(1) that by (simp add: plain_comp_def [of a])
    with 2 have "clean_comps True acc (c # cs) = clean_comps True (tl acc) cs"
      by (cases acc) simp_all
    then show ?thesis using rest [of "tl acc"] Cons.prems(1) by (cases acc) simp_all
  next
    case 3
    then have eq: "clean_comps True acc (c # cs) = clean_comps True (c # acc) cs"
      by (simp add: plain_comp_def)
    have "\<forall>d \<in> set (c # acc). plain_comp d" using 3 Cons.prems(1) by simp
    then show ?thesis unfolding eq by (rule rest)
  qed
qed simp

lemma path_comps_plain: "IsAbs p \<Longrightarrow> \<forall>c \<in> set (path_comps p). plain_comp c"
  unfolding path_comps_def using clean_comps_rooted_plain [of "[]"] split_on_parts by fastforce

lemma IsAbs_abs_path [simp]: "IsAbs (abs_path cs)"
  by (simp add: IsAbs_def abs_path_def HasPrefix_def)

lemma path_comps_abs_path [simp]: "\<forall>c \<in> set cs. plain_comp c \<Longrightarrow> path_comps (abs_path cs) = cs"
proof (cases "cs = []")
  case True
  then show ?thesis by (simp add: path_comps_def abs_path_def)
next
  case False
  assume cs: "\<forall>c \<in> set cs. plain_comp c"
  have "split_on slash (joinWith ''/'' cs) = cs"
    using False cs by (intro split_on_join) (auto simp: plain_comp_def)
  then show ?thesis
    using cs clean_comps_plain [of cs] by (simp add: path_comps_def abs_path_def)
qed

lemma Clean_abs_path [simp]: "\<forall>c \<in> set cs. plain_comp c \<Longrightarrow> Clean (abs_path cs) = abs_path cs"
  by (simp add: Clean_def)

text \<open>The clean absolute paths are those of lists of plain components.\<close>

lemma clean_abs_cases:
  assumes "IsAbs p" "Clean p = p"
  obtains cs where "p = abs_path cs" "\<forall>c \<in> set cs. plain_comp c"
  using assms path_comps_plain that unfolding Clean_def by metis

lemma abs_path_inj: "\<forall>c \<in> set cs. plain_comp c \<Longrightarrow> \<forall>c \<in> set ds. plain_comp c \<Longrightarrow>
  abs_path cs = abs_path ds \<longleftrightarrow> cs = ds"
  by (metis path_comps_abs_path)

lemma joinWith_snoc: "cs \<noteq> [] \<Longrightarrow> joinWith sep (cs @ [c]) = joinWith sep cs @ sep @ c"
  by (induction cs rule: induct_list012) auto

lemma dropWhile_rev_plain:
  "slash \<notin> set c \<Longrightarrow> rev (dropWhile (\<lambda>x. x \<noteq> slash) (rev (p @ [slash] @ c))) = p @ [slash]"
proof -
  assume c: "slash \<notin> set c"
  have "dropWhile (\<lambda>x. x \<noteq> slash) (rev c @ slash # rev p) = slash # rev p"
    using c by (subst dropWhile_append2) auto
  then show ?thesis by simp
qed

lemma Dir_abs_path:
  assumes "\<forall>c \<in> set (cs @ [c]). plain_comp c"
  shows "Dir (abs_path (cs @ [c])) = abs_path cs"
proof -
  define q where "q = (if cs = [] then [] else abs_path cs)"
  have "abs_path (cs @ [c]) = q @ [slash] @ c"
    by (simp add: q_def abs_path_def joinWith_snoc)
  then have d: "dir_part (abs_path (cs @ [c])) = q @ [slash]"
    using assms dropWhile_rev_plain [of c q] by (simp add: dir_part_def plain_comp_def)
  show ?thesis
  proof (cases "cs = []")
    case True
    then show ?thesis using d by (simp add: Dir_def q_def Clean_def path_comps_def IsAbs_def HasPrefix_def abs_path_def)
  next
    case False
    have "split_on slash (joinWith ''/'' cs @ [slash]) = cs @ [[]]"
      using False assms by (intro split_on_join_tail) (auto simp: plain_comp_def)
    then have "path_comps (q @ [slash]) = cs"
      using False assms clean_comps_append [of cs True "[]" "[[]]"]
      by (simp add: q_def path_comps_def abs_path_def IsAbs_def HasPrefix_def)
    then show ?thesis
      using d False by (simp add: Dir_def Clean_def q_def abs_path_def IsAbs_def HasPrefix_def)
  qed
qed

end
