(* ===== verification/Os_Files.thy ===== *)
theory Os_Files
  imports Go_Path
begin

text \<open>
  The file operations behind the atomic replacement of a file: create a temporary file, write
  and sync it, rename it over the target and sync the directory (\<^verbatim>\<open>syncDirectory\<close> of
  \<^verbatim>\<open>fs.go\<close>). The operating system is explicit. A file system has directory entries and
  file contents in memory and their durable copies on disk; every call may fail with any error
  (a write also after writing part of its data); a crash keeps the durable copies, may keep a
  directory change that was not synced, and leaves arbitrary contents in a file that was not
  synced.
\<close>

subsection \<open>File system\<close>

record fs_core =
  fs_dir :: "string \<rightharpoonup> nat"
  fs_ddir :: "string \<rightharpoonup> nat"
  fs_data :: "nat \<rightharpoonup> string"
  fs_sdata :: "nat \<rightharpoonup> string"

text \<open>
  A running program sees the file system, the temporary file it created, the outcomes the
  environment has in store for its next calls (an error and the part of the data a failed write
  leaves) and the names it will draw for temporary files. \<open>os_log\<close> records the file system after
  every call: the states in which a crash can strike.
\<close>

record os_state =
  os_core :: fs_core
  os_log :: "fs_core list"
  os_tmp :: "(string \<times> nat) option"
  os_next :: nat
  os_faults :: "(go_error \<times> nat) option list"
  os_random :: "string list"

datatype syscall =
    SMkdirAll
  | SCreateTemp string
  | SChmod
  | SWrite string
  | SSync
  | SClose
  | SRename
  | SSyncDir

definition take_fault :: "os_state \<Rightarrow> (go_error \<times> nat) option \<times> os_state" where
  "take_fault s = (case os_faults s of [] \<Rightarrow> (None, s) | f # fs \<Rightarrow> (f, s\<lparr>os_faults := fs\<rparr>))"

definition visit :: "fs_core \<Rightarrow> os_state \<Rightarrow> os_state" where
  "visit c s = s\<lparr>os_core := c, os_log := os_log s @ [c]\<rparr>"

text \<open>\<^verbatim>\<open>os.CreateTemp\<close> draws names until one does not exist.\<close>

fun fresh_name :: "(string \<rightharpoonup> nat) \<Rightarrow> string \<Rightarrow> string list \<Rightarrow> (string \<times> string list) option" where
  "fresh_name d prefix [] = None"
| "fresh_name d prefix (r # rs) =
    (if d (prefix @ r) = None then Some (prefix @ r, rs) else fresh_name d prefix rs)"

definition exec_ok :: "string \<Rightarrow> syscall \<Rightarrow> os_state \<Rightarrow> go_error option \<times> os_state" where
  "exec_ok path c s =
    (let k = os_core s in
     case c of
       SMkdirAll \<Rightarrow> (None, visit k s)
     | SCreateTemp prefix \<Rightarrow>
         (case fresh_name (fs_dir k) prefix (os_random s) of
            None \<Rightarrow> (Some (GoErr ''file exists'' [ErrExist]), visit k s)
          | Some (name, rs) \<Rightarrow>
              (None, visit (k\<lparr>fs_dir := (fs_dir k)(name \<mapsto> os_next s),
                             fs_data := (fs_data k)(os_next s \<mapsto> [])\<rparr>)
                       (s\<lparr>os_tmp := Some (name, os_next s), os_next := Suc (os_next s), os_random := rs\<rparr>)))
     | SChmod \<Rightarrow> (None, visit k s)
     | SWrite bytes \<Rightarrow>
         (case os_tmp s of
            None \<Rightarrow> (None, visit k s)
          | Some (name, i) \<Rightarrow> (None, visit (k\<lparr>fs_data := (fs_data k)(i \<mapsto> bytes)\<rparr>) s))
     | SSync \<Rightarrow>
         (case os_tmp s of
            None \<Rightarrow> (None, visit k s)
          | Some (name, i) \<Rightarrow> (None, visit (k\<lparr>fs_sdata := (fs_sdata k)(i := fs_data k i)\<rparr>) s))
     | SClose \<Rightarrow> (None, visit k s)
     | SRename \<Rightarrow>
         (case os_tmp s of
            None \<Rightarrow> (None, visit k s)
          | Some (name, i) \<Rightarrow> (None, visit (k\<lparr>fs_dir := (fs_dir k)(path \<mapsto> i, name := None)\<rparr>) s))
     | SSyncDir \<Rightarrow> (None, visit (k\<lparr>fs_ddir := fs_dir k\<rparr>) s))"

definition exec_fail :: "syscall \<Rightarrow> nat \<Rightarrow> os_state \<Rightarrow> os_state" where
  "exec_fail c n s =
    (let k = os_core s in
     case (c, os_tmp s) of
       (SWrite bytes, Some (name, i)) \<Rightarrow> visit (k\<lparr>fs_data := (fs_data k)(i \<mapsto> take n bytes)\<rparr>) s
     | _ \<Rightarrow> visit k s)"

definition exec_call :: "string \<Rightarrow> syscall \<Rightarrow> os_state \<Rightarrow> go_error option \<times> os_state" where
  "exec_call path c s =
    (case take_fault s of
       (None, s1) \<Rightarrow> exec_ok path c s1
     | (Some (e, n), s1) \<Rightarrow> (Some e, exec_fail c n s1))"

text \<open>A sequence of calls that returns at the first error, with the message of that call.\<close>

fun run_calls :: "string \<Rightarrow> (syscall \<times> (go_error \<Rightarrow> go_error)) list \<Rightarrow> os_state \<Rightarrow> go_error option \<times> os_state" where
  "run_calls path [] s = (None, s)"
| "run_calls path ((c, wrap) # cs) s =
    (case exec_call path c s of
       (Some e, s1) \<Rightarrow> (Some (wrap e), s1)
     | (None, s1) \<Rightarrow> run_calls path cs s1)"

text \<open>The deferred \<^verbatim>\<open>os.Remove\<close> of the temporary name, whose error is ignored.\<close>

definition remove_tmp :: "os_state \<Rightarrow> os_state" where
  "remove_tmp s =
    (case os_tmp s of
       None \<Rightarrow> s
     | Some (name, i) \<Rightarrow>
         (case take_fault s of
            (None, s1) \<Rightarrow>
              visit ((os_core s1)\<lparr>fs_dir := (fs_dir (os_core s1))(name := None)\<rparr>) (s1\<lparr>os_tmp := None\<rparr>)
          | (Some _, s1) \<Rightarrow> visit (os_core s1) (s1\<lparr>os_tmp := None\<rparr>)))"

definition replace_file ::
    "string \<Rightarrow> (syscall \<times> (go_error \<Rightarrow> go_error)) list \<Rightarrow> os_state \<Rightarrow> go_error option \<times> os_state" where
  "replace_file path calls s =
    (case run_calls path calls (s\<lparr>os_tmp := None\<rparr>) of (err, s1) \<Rightarrow> (err, remove_tmp s1))"

definition not_exist_error :: go_error where
  "not_exist_error = GoErr ''no such file or directory'' [ErrNotExist]"

definition os_ReadFile :: "string \<Rightarrow> os_state \<Rightarrow> string result \<times> os_state" where
  "os_ReadFile path s =
    (case take_fault s of
       (Some (e, _), s1) \<Rightarrow> (Inl e, s1)
     | (None, s1) \<Rightarrow>
         (case fs_dir (os_core s1) path of
            None \<Rightarrow> (Inl not_exist_error, s1)
          | Some i \<Rightarrow> (Inr (case fs_data (os_core s1) i of None \<Rightarrow> [] | Some t \<Rightarrow> t), s1)))"

text \<open>
  \<^verbatim>\<open>os.Lstat\<close>, reporting whether the entry is a directory; \<open>is_dir\<close> are the paths that are
  directories.
\<close>

definition os_Lstat :: "(string \<Rightarrow> bool) \<Rightarrow> string \<Rightarrow> os_state \<Rightarrow> bool result \<times> os_state" where
  "os_Lstat is_dir path s =
    (case take_fault s of
       (Some (e, _), s1) \<Rightarrow> (Inl e, s1)
     | (None, s1) \<Rightarrow>
         (if is_dir path then Inr True
          else if fs_dir (os_core s1) path = None then Inl not_exist_error else Inr False, s1))"

definition os_Remove :: "string \<Rightarrow> os_state \<Rightarrow> go_error option \<times> os_state" where
  "os_Remove path s =
    (case take_fault s of
       (Some (e, _), s1) \<Rightarrow> (Some e, visit (os_core s1) s1)
     | (None, s1) \<Rightarrow>
         (if fs_dir (os_core s1) path = None then (Some not_exist_error, s1)
          else (None, visit ((os_core s1)\<lparr>fs_dir := (fs_dir (os_core s1))(path := None)\<rparr>) s1)))"

definition syncDirectory :: "string \<Rightarrow> os_state \<Rightarrow> go_error option \<times> os_state" where
  "syncDirectory path s = exec_call path SSyncDir s"

subsection \<open>What a program and a crash see\<close>

definition file_content :: "fs_core \<Rightarrow> string \<Rightarrow> string option" where
  "file_content k path =
    (case fs_dir k path of None \<Rightarrow> None
     | Some i \<Rightarrow> Some (case fs_data k i of None \<Rightarrow> [] | Some t \<Rightarrow> t))"

definition crash_via :: "(string \<rightharpoonup> nat) \<Rightarrow> fs_core \<Rightarrow> string \<Rightarrow> string option \<Rightarrow> bool" where
  "crash_via d k path r =
    (case d path of
       None \<Rightarrow> r = None
     | Some i \<Rightarrow> (\<exists>t. r = Some t \<and> (fs_sdata k i = Some t \<or> fs_sdata k i \<noteq> fs_data k i)))"

text \<open>The contents of \<open>path\<close> that a crash in this state may leave.\<close>

definition crash_content :: "fs_core \<Rightarrow> string \<Rightarrow> string option \<Rightarrow> bool" where
  "crash_content k path r = (crash_via (fs_dir k) k path r \<or> crash_via (fs_ddir k) k path r)"

text \<open>The file is on disk as the program sees it.\<close>

definition durable :: "fs_core \<Rightarrow> string \<Rightarrow> bool" where
  "durable k path =
    (fs_ddir k path = fs_dir k path \<and>
     (\<forall>i. fs_dir k path = Some i \<longrightarrow> fs_data k i \<noteq> None \<and> fs_sdata k i = fs_data k i))"

lemma durable_crash: "durable k path \<Longrightarrow> crash_content k path r \<longleftrightarrow> r = file_content k path"
  by (auto simp: durable_def crash_content_def crash_via_def file_content_def split: option.splits)

text \<open>File numbers are not reused.\<close>

definition fresh_inode :: "os_state \<Rightarrow> string \<Rightarrow> bool" where
  "fresh_inode s path =
    (\<forall>i. fs_dir (os_core s) path = Some i \<or> fs_ddir (os_core s) path = Some i \<longrightarrow> i < os_next s)"

subsection \<open>Atomic replacement\<close>

text \<open>
  The states of an atomic replacement, relative to the file system \<open>k0\<close> at the start, whose target
  need not be on disk. Until the rename the target is untouched and the temporary file is another
  file; after it the target is the synced temporary file.
\<close>

abbreviation target_inode :: "fs_core \<Rightarrow> string \<Rightarrow> nat \<Rightarrow> bool" where
  "target_inode k0 path i \<equiv> fs_dir k0 path = Some i \<or> fs_ddir k0 path = Some i"

definition keeps :: "fs_core \<Rightarrow> string \<Rightarrow> fs_core \<Rightarrow> bool" where
  "keeps k0 path k =
    (fs_dir k path = fs_dir k0 path \<and> fs_ddir k path = fs_ddir k0 path \<and>
     (\<forall>i. target_inode k0 path i \<longrightarrow> fs_data k i = fs_data k0 i \<and> fs_sdata k i = fs_sdata k0 i))"

lemma keeps_content: "keeps k0 path k \<Longrightarrow> file_content k path = file_content k0 path"
  by (auto simp: keeps_def file_content_def split: option.split)

lemma keeps_crash: "keeps k0 path k \<Longrightarrow> crash_content k path r \<longleftrightarrow> crash_content k0 path r"
  by (auto simp: keeps_def crash_content_def crash_via_def split: option.splits)

definition untouched :: "string \<Rightarrow> fs_core \<Rightarrow> os_state \<Rightarrow> bool" where
  "untouched path k0 s =
    (keeps k0 path (os_core s) \<and> (\<forall>i. target_inode k0 path i \<longrightarrow> i < os_next s) \<and>
     (\<forall>n j. os_tmp s = Some (n, j) \<longrightarrow> n \<noteq> path \<and> \<not> target_inode k0 path j \<and> j < os_next s))"

definition tmp_written :: "string \<Rightarrow> os_state \<Rightarrow> bool" where
  "tmp_written new s =
    (\<exists>n j. os_tmp s = Some (n, j) \<and> fs_data (os_core s) j = Some new)"

definition tmp_synced :: "string \<Rightarrow> os_state \<Rightarrow> bool" where
  "tmp_synced new s =
    (\<exists>n j. os_tmp s = Some (n, j) \<and> fs_data (os_core s) j = Some new \<and> fs_sdata (os_core s) j = Some new)"

text \<open>Every state added to the log since \<open>s\<close> satisfies \<open>P\<close>.\<close>

definition log_grows :: "(fs_core \<Rightarrow> bool) \<Rightarrow> os_state \<Rightarrow> os_state \<Rightarrow> bool" where
  "log_grows P s s' = (\<exists>ks. os_log s' = os_log s @ ks \<and> list_all P ks)"

lemma log_grows_refl [simp]: "log_grows P s s"
  by (simp add: log_grows_def)

lemma log_grows_trans: "log_grows P s t \<Longrightarrow> log_grows P t u \<Longrightarrow> log_grows P s u"
  by (auto simp: log_grows_def)

lemma log_grows_visit: "os_log t = os_log s \<Longrightarrow> P k \<Longrightarrow> log_grows P s (visit k t)"
  by (auto simp: log_grows_def visit_def)

lemma fresh_name_SomeD: "fresh_name d prefix rs = Some (name, rest) \<Longrightarrow> \<exists>r. name = prefix @ r \<and> d name = None"
  by (induction rs) (auto split: if_splits)

lemma untouched_keeps: "untouched path k0 s \<Longrightarrow> keeps k0 path (os_core s)"
  by (simp add: untouched_def)

lemma untouched_fault [simp]: "untouched path k0 (s\<lparr>os_faults := fs\<rparr>) = untouched path k0 s"
  by (simp add: untouched_def)

lemma take_fault_cases:
  obtains fs where "take_fault s = (None, s\<lparr>os_faults := fs\<rparr>)"
  | e n fs where "take_fault s = (Some (e, n), s\<lparr>os_faults := fs\<rparr>)"
proof (cases "os_faults s")
  case Nil
  then have "take_fault s = (None, s\<lparr>os_faults := []\<rparr>)" by (simp add: take_fault_def)
  then show ?thesis using that by blast
next
  case (Cons f fs)
  then show ?thesis using that by (cases f) (auto simp: take_fault_def)
qed

text \<open>The calls before the rename leave the target alone.\<close>

definition prep_call :: "string \<Rightarrow> syscall \<Rightarrow> bool" where
  "prep_call path c =
    (case c of SRename \<Rightarrow> False | SSyncDir \<Rightarrow> False | SCreateTemp prefix \<Rightarrow> \<not> HasPrefix path prefix | _ \<Rightarrow> True)"

text \<open>Every call adds the state it leads to to the log.\<close>

lemma exec_call_log: "os_log (snd (exec_call path c s)) = os_log s @ [os_core (snd (exec_call path c s))]"
proof -
  have "os_log (snd (exec_ok path c t)) = os_log t @ [os_core (snd (exec_ok path c t))]" for t
    by (auto simp: exec_ok_def visit_def Let_def split: syscall.split option.split)
  moreover have "os_log (exec_fail c n t) = os_log t @ [os_core (exec_fail c n t)]" for n t
    by (auto simp: exec_fail_def visit_def Let_def split: syscall.split option.split)
  ultimately show ?thesis
    by (cases s rule: take_fault_cases) (simp_all add: exec_call_def)
qed

lemma exec_call_grows: "P (os_core (snd (exec_call path c s))) \<Longrightarrow> log_grows P s (snd (exec_call path c s))"
  by (simp add: log_grows_def exec_call_log)

lemma exec_call_untouched:
  assumes u: "untouched path k0 s" and p: "prep_call path c"
  shows "untouched path k0 (snd (exec_call path c s))"
proof -
  have "untouched path k0 (exec_fail c n t)" if "untouched path k0 t" for n t
    using that by (auto simp: exec_fail_def untouched_def keeps_def visit_def Let_def split: syscall.split option.split)
  moreover have "untouched path k0 (snd (exec_ok path c t))" if "untouched path k0 t" for t
    using that p
    by (auto simp: exec_ok_def prep_call_def untouched_def keeps_def visit_def Let_def less_Suc_eq
        split: syscall.splits option.splits dest!: fresh_name_SomeD)
  ultimately show ?thesis
    using u by (cases s rule: take_fault_cases) (simp_all add: exec_call_def)
qed

lemma run_calls_append:
  "run_calls path (xs @ ys) s =
    (case run_calls path xs s of (Some e, t) \<Rightarrow> (Some e, t) | (None, t) \<Rightarrow> run_calls path ys t)"
  by (induction xs arbitrary: s) (auto split: prod.split option.split)

lemma run_calls_untouched:
  assumes "untouched path k0 s" and "\<forall>c \<in> set calls. prep_call path (fst c)"
  shows "untouched path k0 (snd (run_calls path calls s)) \<and>
    log_grows (keeps k0 path) s (snd (run_calls path calls s))"
  using assms
proof (induction calls arbitrary: s)
  case (Cons c calls)
  obtain cl w where c: "c = (cl, w)" by (cases c)
  obtain e t where ex: "exec_call path cl s = (e, t)" by (cases "exec_call path cl s")
  have t: "untouched path k0 t" using exec_call_untouched [of path k0 s cl] Cons.prems c ex by simp
  then have g: "log_grows (keeps k0 path) s t"
    using exec_call_grows [of _ path cl s] untouched_keeps [OF t] ex by simp
  show ?case
  proof (cases e)
    case None
    then show ?thesis using Cons.IH [OF t] Cons.prems c ex log_grows_trans [OF g] by simp
  next
    case (Some err)
    then show ?thesis using t g c ex by simp
  qed
qed simp

lemma exec_call_None:
  assumes "exec_call path c s = (None, t)"
  shows "\<exists>fs. exec_ok path c (s\<lparr>os_faults := fs\<rparr>) = (None, t)"
  using assms by (cases s rule: take_fault_cases) (auto simp: exec_call_def)

lemma write_ok: "exec_call path (SWrite new) s = (None, t) \<Longrightarrow> os_tmp s \<noteq> None \<Longrightarrow> tmp_written new t"
  by (drule exec_call_None) (auto simp: exec_ok_def tmp_written_def visit_def Let_def)

lemma sync_ok: "exec_call path SSync s = (None, t) \<Longrightarrow> tmp_written new s \<Longrightarrow> tmp_synced new t"
  by (drule exec_call_None) (auto simp: exec_ok_def tmp_written_def tmp_synced_def visit_def Let_def)

lemma close_ok: "exec_call path SClose s = (None, t) \<Longrightarrow> tmp_synced new s \<Longrightarrow> tmp_synced new t"
  by (drule exec_call_None) (auto simp: exec_ok_def tmp_synced_def visit_def Let_def)

lemma open_ok:
  "run_calls path calls s = (None, t) \<Longrightarrow> \<forall>c \<in> set calls. fst c \<in> {SMkdirAll, SCreateTemp prefix, SChmod} \<Longrightarrow>
   os_tmp s \<noteq> None \<or> SCreateTemp prefix \<in> fst ` set calls \<Longrightarrow> os_tmp t \<noteq> None"
proof (induction calls arbitrary: s)
  case (Cons c calls)
  obtain cl w where c: "c = (cl, w)" by (cases c)
  from Cons.prems c obtain u where u: "exec_call path cl s = (None, u)" "run_calls path calls u = (None, t)"
    by (auto split: prod.splits option.splits)
  have "cl = SCreateTemp prefix \<or> os_tmp s \<noteq> None \<Longrightarrow> os_tmp u \<noteq> None"
    using exec_call_None [OF u(1)] Cons.prems(2) c
    by (auto simp: exec_ok_def visit_def Let_def split: option.splits)
  then show ?case using Cons.IH [OF u(2)] Cons.prems c by auto
qed simp

text \<open>The calls of an atomic replacement: prepare, write, sync, close, rename, sync the directory.\<close>

definition prepare_calls :: "string \<Rightarrow> string \<Rightarrow> (syscall \<times> (go_error \<Rightarrow> go_error)) list \<Rightarrow> bool" where
  "prepare_calls path prefix calls =
    ((\<forall>c \<in> set calls. fst c \<in> {SMkdirAll, SCreateTemp prefix, SChmod}) \<and>
     SCreateTemp prefix \<in> fst ` set calls \<and> \<not> HasPrefix path prefix)"

lemma prepared:
  assumes "prepare_calls path prefix pre" and "untouched path k0 s"
    and "run_calls path (pre @ [(SWrite new, w1), (SSync, w2), (SClose, w3)]) s = (None, t)"
  shows "tmp_synced new t"
proof -
  obtain u where u: "run_calls path pre s = (None, u)"
    and rest: "run_calls path [(SWrite new, w1), (SSync, w2), (SClose, w3)] u = (None, t)"
    using assms(3) by (auto simp: run_calls_append split: prod.splits option.splits)
  have tmp: "os_tmp u \<noteq> None"
    using open_ok [OF u, of prefix] assms(1) unfolding prepare_calls_def by blast
  from rest obtain a b where "exec_call path (SWrite new) u = (None, a)"
      "exec_call path SSync a = (None, b)" "exec_call path SClose b = (None, t)"
    by (auto split: prod.splits option.splits)
  then show ?thesis using tmp write_ok sync_ok close_ok by blast
qed

text \<open>After the rename the target is the new file; the directory may or may not be on disk.\<close>

definition renamed :: "string \<Rightarrow> fs_core \<Rightarrow> string \<Rightarrow> fs_core \<Rightarrow> bool" where
  "renamed path k0 new k =
    (\<exists>j. fs_dir k path = Some j \<and> fs_data k j = Some new \<and> fs_sdata k j = Some new \<and>
      (fs_ddir k path = Some j \<or>
       fs_ddir k path = fs_ddir k0 path \<and>
       (\<forall>i. fs_ddir k0 path = Some i \<longrightarrow> fs_data k i = fs_data k0 i \<and> fs_sdata k i = fs_sdata k0 i)))"

text \<open>A crash leaves what it could have left at the start, or the new contents.\<close>

definition crash_safe :: "fs_core \<Rightarrow> string \<Rightarrow> string \<Rightarrow> fs_core \<Rightarrow> bool" where
  "crash_safe k0 new path k = (\<forall>r. crash_content k path r \<longrightarrow> crash_content k0 path r \<or> r = Some new)"

lemma renamed_safe: "renamed path k0 new k \<Longrightarrow> crash_safe k0 new path k"
  by (auto simp: renamed_def crash_safe_def crash_content_def crash_via_def split: option.splits)

lemma keeps_safe: "keeps k0 path k \<Longrightarrow> crash_safe k0 new path k"
  by (simp add: crash_safe_def keeps_crash)

lemma log_grows_mono: "log_grows P s t \<Longrightarrow> (\<And>k. P k \<Longrightarrow> Q k) \<Longrightarrow> log_grows Q s t"
  by (auto simp: log_grows_def list_all_iff)

lemma exec_call_fails: "exec_call path c s = (Some e, t) \<Longrightarrow> c \<in> {SRename, SSyncDir} \<Longrightarrow> os_core t = os_core s \<and> os_tmp t = os_tmp s"
  by (cases s rule: take_fault_cases)
    (auto simp: exec_call_def exec_ok_def exec_fail_def visit_def Let_def split: option.splits)

lemma rename_ok:
  assumes "exec_call path SRename s = (None, t)" "untouched path k0 s" "tmp_synced new s"
  shows "renamed path k0 new (os_core t)" and "os_tmp t = os_tmp s"
proof -
  obtain fs where "exec_ok path SRename (s\<lparr>os_faults := fs\<rparr>) = (None, t)"
    using exec_call_None [OF assms(1)] by blast
  with assms(2,3) show "renamed path k0 new (os_core t)" "os_tmp t = os_tmp s"
    by (auto simp: exec_ok_def tmp_synced_def untouched_def keeps_def renamed_def visit_def Let_def)
qed

lemma sync_dir_ok:
  assumes "exec_call path SSyncDir s = (None, t)" "renamed path k0 new (os_core s)"
  shows "renamed path k0 new (os_core t)" "os_tmp t = os_tmp s"
    "durable (os_core t) path" "file_content (os_core t) path = Some new"
proof -
  obtain fs where "exec_ok path SSyncDir (s\<lparr>os_faults := fs\<rparr>) = (None, t)"
    using exec_call_None [OF assms(1)] by blast
  with assms(2) show "renamed path k0 new (os_core t)" "os_tmp t = os_tmp s"
      "durable (os_core t) path" "file_content (os_core t) path = Some new"
    by (auto simp: exec_ok_def renamed_def durable_def file_content_def visit_def Let_def)
qed

text \<open>Removing the temporary name changes nothing about the target.\<close>

lemma remove_tmp_dir:
  assumes "\<forall>n j. os_tmp s = Some (n, j) \<longrightarrow> n \<noteq> path"
  shows "fs_dir (os_core (remove_tmp s)) path = fs_dir (os_core s) path"
  using assms
  by (cases s rule: take_fault_cases; auto simp: remove_tmp_def visit_def split: option.splits)

lemma remove_tmp_core:
  "fs_ddir (os_core (remove_tmp s)) = fs_ddir (os_core s)"
  "fs_data (os_core (remove_tmp s)) = fs_data (os_core s)"
  "fs_sdata (os_core (remove_tmp s)) = fs_sdata (os_core s)"
  by (cases s rule: take_fault_cases; auto simp: remove_tmp_def visit_def split: option.splits)+

lemma remove_tmp_same:
  assumes "\<forall>n j. os_tmp s = Some (n, j) \<longrightarrow> n \<noteq> path"
  shows "durable (os_core (remove_tmp s)) path = durable (os_core s) path"
    "file_content (os_core (remove_tmp s)) path = file_content (os_core s) path"
    "crash_safe old new path (os_core (remove_tmp s)) = crash_safe old new path (os_core s)"
  by (simp_all add: durable_def file_content_def crash_safe_def crash_content_def crash_via_def
      remove_tmp_core remove_tmp_dir [OF assms] cong: option.case_cong)

lemma remove_tmp_log: "P (os_core (remove_tmp s)) \<Longrightarrow> log_grows P s (remove_tmp s)"
  by (cases s rule: take_fault_cases)
    (auto simp: remove_tmp_def log_grows_def visit_def split: option.splits)

text \<open>The whole sequence of calls, whatever each of them returns.\<close>

lemma run_atomic:
  fixes new :: string
  assumes pre: "prepare_calls path prefix pre" and u: "untouched path k0 s"
    and run: "run_calls path (pre @ [(SWrite new, w1), (SSync, w2), (SClose, w3), (SRename, w4), (SSyncDir, w5)]) s = (err, t)"
  shows "log_grows (crash_safe k0 new path) s t \<and> crash_safe k0 new path (os_core t) \<and>
    (\<forall>n j. os_tmp t = Some (n, j) \<longrightarrow> n \<noteq> path) \<and>
    (file_content (os_core t) path = file_content k0 path \<or> file_content (os_core t) path = Some new) \<and>
    (err = None \<longrightarrow> durable (os_core t) path \<and> file_content (os_core t) path = Some new)"
proof -
  let ?prep = "pre @ [(SWrite new, w1), (SSync, w2), (SClose, w3)]"
  obtain e1 a where a: "run_calls path ?prep s = (e1, a)" by (cases "run_calls path ?prep s")
  have "\<forall>c \<in> set ?prep. prep_call path (fst c)"
    using pre by (auto simp: prepare_calls_def prep_call_def split: syscall.split)
  then have "untouched path k0 a \<and> log_grows (keeps k0 path) s a"
    using run_calls_untouched [OF u, of ?prep] a by simp
  then have ua: "untouched path k0 a" and ga: "log_grows (crash_safe k0 new path) s a"
    by (simp, metis log_grows_mono keeps_safe)
  have na: "\<forall>n j. os_tmp a = Some (n, j) \<longrightarrow> n \<noteq> path" using ua by (simp add: untouched_def)
  have ka: "keeps k0 path (os_core a)" using untouched_keeps [OF ua] by simp
  have "run_calls path (?prep @ [(SRename, w4), (SSyncDir, w5)]) s = (err, t)" using run by simp
  then have run': "(case e1 of Some e \<Rightarrow> (Some e, a) | None \<Rightarrow> run_calls path [(SRename, w4), (SSyncDir, w5)] a) = (err, t)"
    by (simp only: run_calls_append [of path ?prep] a) (simp split: option.splits)
  show ?thesis
  proof (cases e1)
    case (Some x)
    then have "err = Some x" "t = a" using run' by simp_all
    then show ?thesis using ga na ka keeps_safe by (auto simp: keeps_content)
  next
    case None
    then have ts: "tmp_synced new a" using prepared [OF pre u] a by blast
    obtain e2 b where b: "exec_call path SRename a = (e2, b)" by (cases "exec_call path SRename a")
    show ?thesis
    proof (cases e2)
      case (Some x)
      then have t: "err = Some (w4 x)" "t = b" using run' None b by simp_all
      have "os_core b = os_core a" "os_tmp b = os_tmp a" using exec_call_fails [of path SRename a] b Some by auto
      then show ?thesis
        using t na ka keeps_safe [OF ka] exec_call_grows [of _ path SRename a] b log_grows_trans [OF ga]
        by (auto simp: keeps_content)
    next
      case e2: None
      have rb: "renamed path k0 new (os_core b)" and tb: "os_tmp b = os_tmp a"
        using rename_ok [OF b [unfolded e2] ua ts] by auto
      have gb: "log_grows (crash_safe k0 new path) s b"
        using log_grows_trans [OF ga] exec_call_grows [of "crash_safe k0 new path" path SRename a]
          b renamed_safe [OF rb] by auto
      obtain e3 c where c: "exec_call path SSyncDir b = (e3, c)" by (cases "exec_call path SSyncDir b")
      have t: "t = c" "err = map_option w5 e3" using run' None b e2 c
        by (auto split: option.splits)
      have rc: "renamed path k0 new (os_core c)" "os_tmp c = os_tmp b"
        using sync_dir_ok(1,2) [OF _ rb, of c] exec_call_fails [of path SSyncDir b _ c] rb c
        by (cases e3; simp)+
      have gc: "log_grows (crash_safe k0 new path) s c"
        using log_grows_trans [OF gb] exec_call_grows [of "crash_safe k0 new path" path SSyncDir b]
          c renamed_safe [OF rc(1)] by auto
      have "file_content (os_core c) path = Some new" using rc(1) by (auto simp: renamed_def file_content_def)
      moreover have "e3 = None \<Longrightarrow> durable (os_core c) path" using sync_dir_ok(3) [OF _ rb] c by simp
      ultimately show ?thesis
        using t gc na tb rc renamed_safe [OF rc(1)] by auto
    qed
  qed
qed

text \<open>
  What an atomic replacement promises of the file at \<open>path\<close>: whatever the calls return, a crash
  in any state it went through leaves what a crash at the start could have left or the new
  contents, and the running program sees the old contents or the new ones; when it reports
  success the new contents are there and on disk. The file need not be on disk at the start.
\<close>

definition replaced_atomically ::
    "string \<Rightarrow> string \<Rightarrow> os_state \<Rightarrow> go_error option \<times> os_state \<Rightarrow> bool" where
  "replaced_atomically path new s r =
    (let k0 = os_core s; t = snd r in
     (\<exists>ks. os_log t = os_log s @ ks \<and>
       (\<forall>k \<in> set ks. \<forall>c. crash_content k path c \<longrightarrow> crash_content k0 path c \<or> c = Some new)) \<and>
     (file_content (os_core t) path = file_content k0 path \<or> file_content (os_core t) path = Some new) \<and>
     (fst r = None \<longrightarrow> durable (os_core t) path \<and> file_content (os_core t) path = Some new))"

lemma replace_file_atomic:
  assumes pre: "prepare_calls path prefix pre" and f: "fresh_inode s path"
  shows "replaced_atomically path new s
    (replace_file path (pre @ [(SWrite new, w1), (SSync, w2), (SClose, w3), (SRename, w4), (SSyncDir, w5)]) s)"
proof -
  let ?calls = "pre @ [(SWrite new, w1), (SSync, w2), (SClose, w3), (SRename, w4), (SSyncDir, w5)]"
  define s0 where "s0 = s\<lparr>os_tmp := None\<rparr>"
  define k0 where "k0 = os_core s"
  have u: "untouched path k0 s0"
    using f by (simp add: untouched_def keeps_def fresh_inode_def s0_def k0_def)
  obtain err t where r: "run_calls path ?calls s0 = (err, t)" by (cases "run_calls path ?calls s0")
  note all = run_atomic [OF pre u r]
  then have n: "\<forall>n j. os_tmp t = Some (n, j) \<longrightarrow> n \<noteq> path" by blast
  have "log_grows (crash_safe k0 new path) s0 (remove_tmp t)"
    using all log_grows_trans remove_tmp_log [of "crash_safe k0 new path" t] remove_tmp_same [OF n] by blast
  then show ?thesis
    using all remove_tmp_same [OF n]
    by (simp add: replaced_atomically_def replace_file_def r [unfolded s0_def] k0_def [symmetric] Let_def
        log_grows_def s0_def crash_safe_def list_all_iff)
qed

subsection \<open>Files that hold a value\<close>

text \<open>
  What an operation on a file that holds an encoded value promises, when it should turn the value
  \<open>v\<close> into \<open>w\<close>. Success means that \<open>w\<close> is there; if the operation \<open>writes\<close>, that it is on disk, and
  otherwise that nothing was done to the file system. An error leaves \<open>v\<close> or \<open>w\<close>. A crash at any
  moment leaves \<open>w\<close> or what a crash before the operation could have left: \<open>v\<close>, if it was on disk.
\<close>

definition store_updated ::
    "(string option \<Rightarrow> 'v \<Rightarrow> bool) \<Rightarrow> string \<Rightarrow> bool \<Rightarrow> 'v \<Rightarrow> 'v \<Rightarrow> os_state \<Rightarrow> go_error option \<times> os_state \<Rightarrow> bool" where
  "store_updated holds path writes v w s r =
    (let t = snd r in
     (fst r = None \<longrightarrow> holds (file_content (os_core t) path) w \<and>
        (if writes then durable (os_core t) path else os_core t = os_core s)) \<and>
     (holds (file_content (os_core t) path) v \<or> holds (file_content (os_core t) path) w) \<and>
     (\<exists>ks. os_log t = os_log s @ ks \<and>
       (\<forall>k \<in> set ks. \<forall>c. crash_content k path c \<longrightarrow>
          holds c w \<or> crash_content (os_core s) path c \<and> (durable (os_core s) path \<longrightarrow> holds c v))))"

locale file_store =
  fixes holds :: "string option \<Rightarrow> 'v \<Rightarrow> bool"
    and encode :: "'v \<Rightarrow> string"
    and wf :: "'v \<Rightarrow> bool"
  assumes holds_encode: "wf v \<Longrightarrow> holds (Some (encode v)) v"
begin

lemma write_updates:
  assumes "prepare_calls path prefix pre" "fresh_inode s path"
    and "holds (file_content (os_core s) path) v" and "wf w"
  shows "store_updated holds path True v w s
    (replace_file path (pre @ [(SWrite (encode w), w1), (SSync, w2), (SClose, w3), (SRename, w4), (SSyncDir, w5)]) s)"
  using replace_file_atomic [OF assms(1,2), of "encode w" w1 w2 w3 w4 w5] holds_encode [OF assms(4)] assms(3)
    durable_crash [of "os_core s" path]
  by (fastforce simp: replaced_atomically_def store_updated_def Let_def)

end

text \<open>
  The errors in store for the next calls do not say that the file is missing: only
  \<^verbatim>\<open>os_ReadFile\<close> says so, and only when it is.
\<close>

definition honest_faults :: "os_state \<Rightarrow> bool" where
  "honest_faults s = (\<forall>e n. Some (e, n) \<in> set (os_faults s) \<longrightarrow> \<not> errors_Is e ErrNotExist)"

lemma take_fault_honest: "take_fault s = (Some (e, n), t) \<Longrightarrow> honest_faults s \<Longrightarrow> \<not> errors_Is e ErrNotExist"
  by (auto simp: take_fault_def honest_faults_def split: list.splits)

lemma take_fault_rest: "take_fault s = (f, t) \<Longrightarrow> honest_faults s \<Longrightarrow> honest_faults t"
  by (fastforce simp: take_fault_def honest_faults_def split: list.splits)

end
