(* ===== verification/Disk_Bus.thy ===== *)
theory Disk_Bus
  imports Os_Files
begin

text \<open>
  Which disks are watched (\<^verbatim>\<open>disk_policy.go\<close>, and \<^verbatim>\<open>normalizeDiskDevice\<close> of
  \<^verbatim>\<open>disk_inventory.go\<close>): the bus of a block device, found by walking sysfs from the device to
  the root of the device tree, and the decision made from bus, name and policy.
\<close>

subsection \<open>Policies and buses\<close>

abbreviation (input) diskPolicyAuto :: string where "diskPolicyAuto \<equiv> ''auto''"
abbreviation (input) diskPolicyInclude :: string where "diskPolicyInclude \<equiv> ''include''"
abbreviation (input) diskPolicyExclude :: string where "diskPolicyExclude \<equiv> ''exclude''"

datatype diskBus = diskBusUSB | diskBusNonUSB | diskBusUnknown

fun bus_text :: "diskBus \<Rightarrow> string" where
  "bus_text diskBusUSB = ''USB''"
| "bus_text diskBusNonUSB = ''non-USB''"
| "bus_text diskBusUnknown = ''unknown''"

definition maxUnraidDiskIDSize :: nat where
  "maxUnraidDiskIDSize = 79"

definition defaultSysBlockRoot :: string where
  "defaultSysBlockRoot = ''/sys/class/block''"

definition normalizeDiskDevice :: "string \<Rightarrow> string" where
  "normalizeDiskDevice device =
    (let d = TrimPrefix (TrimSpace device) ''/dev/'' in
     if d = ''.'' \<or> d = ''..'' \<or> slash \<in> set d then [] else d)"

subsection \<open>The bus of a block device\<close>

text \<open>
  What the walk sees of the operating system: the working directory, the resolution of symbolic
  links and the presence of a directory entry.
\<close>

record sysfs =
  fs_Getwd :: "string result"
  fs_EvalSymlinks :: "string \<Rightarrow> string result"
  fs_Lstat :: "string \<Rightarrow> go_error option"

definition path_Abs :: "sysfs \<Rightarrow> string \<Rightarrow> string result" where
  "path_Abs os p =
    (if IsAbs p then Inr (Clean p)
     else case fs_Getwd os of Inl e \<Rightarrow> Inl e | Inr wd \<Rightarrow> Inr (path_Join [wd, p]))"

text \<open>One node of the walk: go on (with whether a subsystem was seen) or return.\<close>

datatype walk_step = Continue bool | Return "bool result"

definition walk_node :: "sysfs \<Rightarrow> string \<Rightarrow> bool \<Rightarrow> walk_step" where
  "walk_node os node seen =
    (let link = path_Join [node, ''subsystem''] in
     case fs_EvalSymlinks os link of
       Inl err \<Rightarrow>
         if errors_Is err ErrNotExist then
           (case fs_Lstat os link of
              None \<Rightarrow> Return (Inl (errors_New (''broken subsystem link at '' @ node)))
            | Some linkErr \<Rightarrow>
                if errors_Is linkErr ErrNotExist then Continue seen
                else Return (Inl (Errorf_w (''inspect subsystem at '' @ node @ '': '') linkErr [])))
         else Return (Inl (Errorf_w (''resolve subsystem at '' @ node @ '': '') err []))
     | Inr target \<Rightarrow> if Base target = ''usb'' then Return (Inr True) else Continue True)"

text \<open>The loop, which returns nothing when it never reaches \<open>devicesRoot\<close>.\<close>

partial_function (option) usb_walk ::
    "sysfs \<Rightarrow> string \<Rightarrow> string \<Rightarrow> string \<Rightarrow> bool \<Rightarrow> bool result option" where
  [code]: "usb_walk os device devicesRoot node seen =
    (if node = devicesRoot then
       Some (if seen then Inr False
             else Inl (errors_New (''block device '' @ device @ '' has no sysfs subsystem'')))
     else case walk_node os node seen of
       Return r \<Rightarrow> Some r
     | Continue seen2 \<Rightarrow> usb_walk os device devicesRoot (Dir node) seen2)"

definition outside_root :: "string result \<Rightarrow> bool" where
  "outside_root r =
    (case r of Inl _ \<Rightarrow> True
     | Inr relative \<Rightarrow> relative = ''..'' \<or> HasPrefix relative ''../'' \<or> IsAbs relative)"

definition isUSBBlockDevice :: "sysfs \<Rightarrow> string \<Rightarrow> string \<Rightarrow> bool result option" where
  "isUSBBlockDevice os sysBlockRoot device =
    (if device = [] \<or> normalizeDiskDevice device \<noteq> device
     then Some (Inl (errors_New ''invalid block device name''))
     else case path_Abs os sysBlockRoot of
       Inl err \<Rightarrow> Some (Inl err)
     | Inr root \<Rightarrow>
         let devicesRoot = Clean (path_Join [root, ''..'', ''..'', ''devices'']) in
         case fs_EvalSymlinks os (path_Join [root, device, ''device'']) of
           Inl err \<Rightarrow> Some (Inl (Errorf_w (''resolve block device '' @ device @ '': '') err []))
         | Inr physical \<Rightarrow>
             if outside_root (path_Rel devicesRoot physical)
             then Some (Inl (errors_New (''block device '' @ device @ '' resolves outside sysfs devices'')))
             else usb_walk os device devicesRoot physical False)"

record diskSelector =
  sel_sysBlockRoot :: string
  sel_policies :: "(string \<times> string) list"

text \<open>
  A walk that does not end has no bus; \<open>isUSBBlockDevice_correct\<close> below shows that every walk
  ends.
\<close>

definition detectBus :: "sysfs \<Rightarrow> diskSelector \<Rightarrow> string \<Rightarrow> diskBus" where
  "detectBus os sel device =
    (let root = (if sel_sysBlockRoot sel = [] then defaultSysBlockRoot else sel_sysBlockRoot sel) in
     case isUSBBlockDevice os root device of
       Some (Inr usb) \<Rightarrow> if usb then diskBusUSB else diskBusNonUSB
     | _ \<Rightarrow> diskBusUnknown)"

definition selector_evaluate ::
    "sysfs \<Rightarrow> diskSelector \<Rightarrow> string \<Rightarrow> string \<Rightarrow> string \<Rightarrow> diskBus \<times> string \<times> bool" where
  "selector_evaluate os sel did name device =
    (let policy0 = (case map_of (sel_policies sel) did of None \<Rightarrow> [] | Some p \<Rightarrow> p);
         policy = (if policy0 = [] then diskPolicyAuto else policy0);
         bus = detectBus os sel device
     in if EqualFold name ''flash'' then (bus, policy, False)
        else if policy = diskPolicyInclude then (bus, policy, True)
        else if policy = diskPolicyExclude then (bus, policy, False)
        else (bus, policy, bus \<noteq> diskBusUSB))"

subsection \<open>The walk ends\<close>

text \<open>
  \<^verbatim>\<open>filepath.EvalSymlinks\<close> returns a clean path, absolute when its argument is; the working
  directory is a clean absolute path.
\<close>

definition clean_abs :: "string \<Rightarrow> bool" where
  "clean_abs p = (IsAbs p \<and> Clean p = p)"

definition sysfs_contract :: "sysfs \<Rightarrow> bool" where
  "sysfs_contract os =
    ((\<forall>wd. fs_Getwd os = Inr wd \<longrightarrow> clean_abs wd) \<and>
     (\<forall>p q. IsAbs p \<longrightarrow> fs_EvalSymlinks os p = Inr q \<longrightarrow> clean_abs q))"

text \<open>The walk as a recursion over the components below \<open>devicesRoot\<close>, innermost first.\<close>

fun walk_below :: "sysfs \<Rightarrow> string \<Rightarrow> string list \<Rightarrow> string list \<Rightarrow> bool \<Rightarrow> bool result" where
  "walk_below os device root [] seen =
    (if seen then Inr False
     else Inl (errors_New (''block device '' @ device @ '' has no sysfs subsystem'')))"
| "walk_below os device root (c # cs) seen =
    (case walk_node os (abs_path (root @ rev (c # cs))) seen of
       Return r \<Rightarrow> r
     | Continue seen2 \<Rightarrow> walk_below os device root cs seen2)"

lemma usb_walk_below:
  assumes "\<forall>c \<in> set root. plain_comp c" and "\<forall>c \<in> set cs. plain_comp c"
  shows "usb_walk os device (abs_path root) (abs_path (root @ rev cs)) seen =
    Some (walk_below os device root cs seen)"
  using assms
proof (induction cs arbitrary: seen)
  case Nil
  then show ?case by (simp add: usb_walk.simps)
next
  case (Cons c cs)
  have plain: "\<forall>d \<in> set (root @ rev cs @ [c]). plain_comp d" using Cons.prems by auto
  then have "abs_path (root @ rev (c # cs)) \<noteq> abs_path root"
    using Cons.prems by (subst abs_path_inj) auto
  moreover have "Dir (abs_path (root @ rev (c # cs))) = abs_path (root @ rev cs)"
    using plain Dir_abs_path [of "root @ rev cs" c] by simp
  ultimately show ?case
    using Cons by (subst usb_walk.simps) (auto split: walk_step.split)
qed

lemma strip_common_prefix: "strip_common xs ys = ([], ts) \<Longrightarrow> ys = xs @ ts"
  by (induction xs ys rule: strip_common.induct) (auto split: if_splits)

lemma joinWith_hd: "xs \<noteq> [] \<Longrightarrow> joinWith sep (x # xs) = x @ sep @ joinWith sep xs"
  by (cases xs) auto

lemma inside_root:
  assumes "clean_abs root" "clean_abs p" "\<not> outside_root (path_Rel root p)"
  obtains cs ds where "root = abs_path cs" "p = abs_path (cs @ ds)" "\<forall>c \<in> set (cs @ ds). plain_comp c"
proof -
  obtain cs ps where cs: "root = abs_path cs" "\<forall>c \<in> set cs. plain_comp c"
    and ps: "p = abs_path ps" "\<forall>c \<in> set ps. plain_comp c"
    using assms by (metis clean_abs_def clean_abs_cases)
  obtain bs ts where st: "strip_common cs ps = (bs, ts)" by (cases "strip_common cs ps")
  have "bs = []" if "root \<noteq> p"
  proof (rule ccontr)
    assume bs: "bs \<noteq> []"
    then have "path_Rel root p \<in> {Inl e | e. True} \<union> {Inr (joinWith ''/'' (map (\<lambda>_. ''..'') bs @ ts))}"
      using st cs ps that by (auto simp: path_Rel_def)
    moreover have "joinWith ''/'' (map (\<lambda>_. ''..'') bs @ ts) = ''..'' \<or>
        HasPrefix (joinWith ''/'' (map (\<lambda>_. ''..'') bs @ ts)) ''../''"
      using bs by (cases bs; cases "map (\<lambda>_. ''..'') (tl bs) @ ts") (auto simp: HasPrefix_def)
    ultimately show False using assms(3) by (auto simp: outside_root_def)
  qed
  then have "\<exists>ds. ps = cs @ ds"
    using st strip_common_prefix cs ps by (cases "root = p") (auto simp: abs_path_inj)
  then show ?thesis using that cs ps by blast
qed

lemma clean_abs_Clean: "IsAbs p \<Longrightarrow> clean_abs (Clean p)"
  using path_comps_plain by (simp add: clean_abs_def Clean_def)

lemma path_Join_abs: "IsAbs p \<Longrightarrow> clean_abs (path_Join (p # ps))"
proof -
  assume p: "IsAbs p"
  then obtain q where q: "p = slash # q" by (auto simp: IsAbs_def HasPrefix_iff)
  then have "IsAbs (joinWith ''/'' (p # ps))"
    by (cases ps) (simp_all add: IsAbs_def HasPrefix_def)
  then show ?thesis using q clean_abs_Clean by (simp add: path_Join_def)
qed

lemma path_Abs_clean: "sysfs_contract os \<Longrightarrow> path_Abs os p = Inr root \<Longrightarrow> clean_abs root"
  using clean_abs_Clean [of p] path_Join_abs
  by (auto simp: path_Abs_def sysfs_contract_def split: if_splits sum.splits) (simp add: clean_abs_def)

definition devices_root :: "string \<Rightarrow> string" where
  "devices_root root = Clean (path_Join [root, ''..'', ''..'', ''devices''])"

lemma clean_abs_IsAbs: "clean_abs p \<Longrightarrow> IsAbs p"
  by (simp add: clean_abs_def)

text \<open>
  The nodes the walk may visit: the physical node of the device and its ancestors strictly below
  the root of the device tree, innermost first.
\<close>

fun nodes_below :: "string list \<Rightarrow> string list \<Rightarrow> string list" where
  "nodes_below root [] = []"
| "nodes_below root (c # cs) = abs_path (root @ rev (c # cs)) # nodes_below root cs"

text \<open>What the links of a node say: no subsystem, the name of one, or nothing readable.\<close>

datatype node_bus = NoSubsystem | Subsystem string | Unreadable

definition node_bus :: "sysfs \<Rightarrow> string \<Rightarrow> node_bus" where
  "node_bus os node =
    (let link = path_Join [node, ''subsystem''] in
     case fs_EvalSymlinks os link of
       Inr target \<Rightarrow> Subsystem (Base target)
     | Inl err \<Rightarrow>
         if errors_Is err ErrNotExist \<and> (\<exists>e. fs_Lstat os link = Some e \<and> errors_Is e ErrNotExist)
         then NoSubsystem else Unreadable)"

lemma walk_node_bus:
  "node_bus os node = NoSubsystem \<Longrightarrow> walk_node os node seen = Continue seen"
  "node_bus os node = Subsystem b \<Longrightarrow> walk_node os node seen = (if b = ''usb'' then Return (Inr True) else Continue True)"
  "node_bus os node = Unreadable \<Longrightarrow> \<exists>e. walk_node os node seen = Return (Inl e)"
  by (auto simp: node_bus_def walk_node_def Let_def split: sum.splits if_splits option.splits)

text \<open>Some node is on USB and every node nearer to the device is readable.\<close>

definition reaches_usb :: "sysfs \<Rightarrow> string list \<Rightarrow> bool" where
  "reaches_usb os nodes =
    (\<exists>ns n ms. nodes = ns @ n # ms \<and> node_bus os n = Subsystem ''usb'' \<and>
       Unreadable \<notin> node_bus os ` set ns)"

lemma reaches_usb_Cons:
  "reaches_usb os (m # nodes) \<longleftrightarrow>
    node_bus os m = Subsystem ''usb'' \<or> (node_bus os m \<noteq> Unreadable \<and> reaches_usb os nodes)"
    (is "?l \<longleftrightarrow> ?r")
proof
  show "?l \<Longrightarrow> ?r" by (auto simp: reaches_usb_def Cons_eq_append_conv) blast
  show "?r \<Longrightarrow> ?l"
  proof (elim disjE conjE)
    show ?l if "node_bus os m = Subsystem ''usb''" using that by (fastforce simp: reaches_usb_def)
    show ?l if r: "node_bus os m \<noteq> Unreadable" "reaches_usb os nodes"
    proof -
      obtain ns n ms where "nodes = ns @ n # ms" "node_bus os n = Subsystem ''usb''"
          "Unreadable \<notin> node_bus os ` set ns"
        using r by (auto simp: reaches_usb_def)
      then show ?thesis using r unfolding reaches_usb_def
        by (intro exI [of _ "m # ns"] exI [of _ n] exI [of _ ms]) auto
    qed
  qed
qed

lemma walk_below_True:
  "walk_below os device root cs seen = Inr True \<longleftrightarrow> reaches_usb os (nodes_below root cs)"
proof (induction cs arbitrary: seen)
  case (Cons c cs)
  let ?n = "abs_path (root @ rev (c # cs))"
  show ?case
    using Cons.IH walk_node_bus(2) [of os ?n _ seen] walk_node_bus(1) [of os ?n seen]
      walk_node_bus(3) [of os ?n seen]
    by (cases "node_bus os ?n") (auto simp: reaches_usb_Cons)
qed (simp add: reaches_usb_def)

lemma walk_below_False:
  "walk_below os device root cs seen = Inr False \<longleftrightarrow>
    (\<forall>n \<in> set (nodes_below root cs). node_bus os n \<noteq> Unreadable \<and> node_bus os n \<noteq> Subsystem ''usb'') \<and>
    (seen \<or> (\<exists>n \<in> set (nodes_below root cs). node_bus os n \<noteq> NoSubsystem))"
proof (induction cs arbitrary: seen)
  case (Cons c cs)
  let ?n = "abs_path (root @ rev (c # cs))"
  show ?case
    using Cons.IH walk_node_bus(2) [of os ?n _ seen] walk_node_bus(1) [of os ?n seen]
      walk_node_bus(3) [of os ?n seen]
    by (cases "node_bus os ?n") auto
qed simp

subsection \<open>The walk and the device tree\<close>

lemma strip_common_append: "strip_common xs (xs @ ts) = ([], ts)"
  by (induction xs) auto

lemma plain_not_dotdot: "\<forall>c \<in> set (d # ds). plain_comp c \<Longrightarrow>
  joinWith ''/'' (d # ds) \<noteq> ''..'' \<and> \<not> HasPrefix (joinWith ''/'' (d # ds)) ''../'' \<and> \<not> IsAbs (joinWith ''/'' (d # ds))"
proof -
  assume d: "\<forall>c \<in> set (d # ds). plain_comp c"
  then have p: "d \<noteq> []" "d \<noteq> ''..''" "slash \<notin> set d" by (simp_all add: plain_comp_def)
  obtain t where t: "joinWith ''/'' (d # ds) = d @ t" "t = [] \<or> hd t = slash"
    by (cases ds) auto
  obtain x y where xy: "d = x # y" "x \<noteq> slash" using p by (cases d) auto
  have "d @ t \<noteq> ''..''"
  proof
    assume e: "d @ t = ''..''"
    then show False using p t(2) by (cases t) (auto simp: append_eq_Cons_conv)
  qed
  moreover have "\<not> HasPrefix (d @ t) ''../''"
  proof
    assume "HasPrefix (d @ t) ''../''"
    then obtain u where u: "d @ t = ''../'' @ u" by (auto simp: HasPrefix_iff)
    have "takeWhile (\<lambda>c. c \<noteq> slash) (d @ t) = d"
      using p(3) t(2) by (induction d; cases t; auto)
    then show False using u p by simp
  qed
  ultimately show ?thesis using t xy by (simp add: IsAbs_def HasPrefix_def)
qed

lemma inside_root_iff:
  assumes "\<forall>c \<in> set cs. plain_comp c" "\<forall>c \<in> set ps. plain_comp c"
  shows "\<not> outside_root (path_Rel (abs_path cs) (abs_path ps)) \<longleftrightarrow> (\<exists>ds. ps = cs @ ds)"
proof
  assume "\<not> outside_root (path_Rel (abs_path cs) (abs_path ps))"
  moreover have "clean_abs (abs_path cs)" "clean_abs (abs_path ps)" using assms by (simp_all add: clean_abs_def)
  ultimately obtain cs' ds where c: "abs_path cs = abs_path cs'" "abs_path ps = abs_path (cs' @ ds)"
      "\<forall>c \<in> set (cs' @ ds). plain_comp c" by (metis inside_root)
  have "cs' = cs" using c assms by (metis abs_path_inj set_append UnI1)
  moreover have "ps = cs' @ ds" using c assms by (metis abs_path_inj)
  ultimately show "\<exists>ds. ps = cs @ ds" by blast
next
  assume "\<exists>ds. ps = cs @ ds"
  then obtain ds where ds: "ps = cs @ ds" by blast
  show "\<not> outside_root (path_Rel (abs_path cs) (abs_path ps))"
  proof (cases ds)
    case Nil
    then show ?thesis using ds by (simp add: path_Rel_def outside_root_def IsAbs_def HasPrefix_def)
  next
    case (Cons d es)
    then have ne: "abs_path cs \<noteq> abs_path ps" using ds assms by (simp add: abs_path_inj)
    have "path_Rel (abs_path cs) (abs_path ps) = Inr (joinWith ''/'' ds)"
      using ne assms ds strip_common_append [of cs ds] by (simp add: path_Rel_def)
    then show ?thesis using plain_not_dotdot [of d es] Cons ds assms by (simp add: outside_root_def)
  qed
qed

text \<open>
  The nodes between a device and the root of the device tree, innermost first; none when the
  device has no name, cannot be resolved or lies outside the tree.
\<close>

definition walk_nodes :: "sysfs \<Rightarrow> string \<Rightarrow> string \<Rightarrow> string list option" where
  "walk_nodes os sysroot device =
    (if device = [] \<or> normalizeDiskDevice device \<noteq> device then None
     else case path_Abs os sysroot of
       Inl _ \<Rightarrow> None
     | Inr root \<Rightarrow>
         (case fs_EvalSymlinks os (path_Join [root, device, ''device'']) of
            Inl _ \<Rightarrow> None
          | Inr physical \<Rightarrow>
              let base = path_comps (devices_root root); comps = path_comps physical in
              if take (length base) comps = base
              then Some (nodes_below base (rev (drop (length base) comps))) else None))"

lemma isUSBBlockDevice_nodes:
  assumes "sysfs_contract os"
  shows "\<exists>r. isUSBBlockDevice os sysroot device = Some r \<and>
    (case walk_nodes os sysroot device of
       None \<Rightarrow> \<exists>e. r = Inl e
     | Some nodes \<Rightarrow> \<exists>base ds. nodes = nodes_below base ds \<and> r = walk_below os device base ds False)"
proof (cases "device = [] \<or> normalizeDiskDevice device \<noteq> device")
  case True
  then show ?thesis by (auto simp: isUSBBlockDevice_def walk_nodes_def)
next
  case dev: False
  show ?thesis
  proof (cases "path_Abs os sysroot")
    case (Inl e)
    then show ?thesis by (auto simp: isUSBBlockDevice_def walk_nodes_def)
  next
    case (Inr root)
    note r = this
    note root = clean_abs_IsAbs [OF path_Abs_clean [OF assms r]]
    show ?thesis
    proof (cases "fs_EvalSymlinks os (path_Join [root, device, ''device''])")
      case (Inl e)
      then show ?thesis using r dev by (auto simp: isUSBBlockDevice_def walk_nodes_def)
    next
      case (Inr p)
      have "clean_abs p"
        using assms Inr clean_abs_IsAbs path_Join_abs [OF root] unfolding sysfs_contract_def by metis
      then obtain ps where ps: "p = abs_path ps" "\<forall>c \<in> set ps. plain_comp c"
        unfolding clean_abs_def by (metis clean_abs_cases)
      have "clean_abs (devices_root root)"
        using path_Join_abs [OF root] clean_abs_Clean clean_abs_IsAbs by (auto simp: devices_root_def)
      then obtain cs where cs: "devices_root root = abs_path cs" "\<forall>c \<in> set cs. plain_comp c"
        unfolding clean_abs_def by (metis clean_abs_cases)
      let ?in = "take (length cs) ps = cs" and ?ds = "rev (drop (length cs) ps)"
      have eq: "isUSBBlockDevice os sysroot device =
          (if outside_root (path_Rel (abs_path cs) (abs_path ps))
           then Some (Inl (errors_New (''block device '' @ device @ '' resolves outside sysfs devices'')))
           else usb_walk os device (abs_path cs) (abs_path ps) False)"
        using dev r Inr ps cs by (simp add: isUSBBlockDevice_def devices_root_def Let_def)
      have inn: "outside_root (path_Rel (abs_path cs) (abs_path ps)) \<longleftrightarrow> \<not> ?in"
        using inside_root_iff [OF cs(2) ps(2)] by (metis append_eq_conv_conj append_take_drop_id)
      have nodes: "walk_nodes os sysroot device = (if ?in then Some (nodes_below cs ?ds) else None)"
        using dev r Inr ps cs by (simp add: walk_nodes_def Let_def)
      show ?thesis
      proof (cases ?in)
        case True
        then have p2: "ps = cs @ rev ?ds" by (metis append_take_drop_id rev_rev_ident)
        have "\<forall>c \<in> set ?ds. plain_comp c" using ps(2) by (auto dest: in_set_dropD)
        then have "usb_walk os device (abs_path cs) (abs_path ps) False = Some (walk_below os device cs ?ds False)"
          using usb_walk_below [OF cs(2), of ?ds os device False] p2 by simp
        then show ?thesis using eq inn nodes True by auto
      next
        case False
        then show ?thesis using eq inn nodes by auto
      qed
    qed
  qed
qed

subsection \<open>Properties\<close>

text \<open>
  C19: The walk through sysfs always ends, and its result is that of the device tree: it answers
  "USB" exactly when a node between the device and the root of the device tree is on the usb
  subsystem and every node nearer to the device is readable, and "not USB" exactly when all these
  nodes are readable, none is on usb and at least one has a subsystem. In every other case, and
  when the device lies outside the tree, it returns an error.
\<close>

theorem isUSBBlockDevice_correct:
  assumes "sysfs_contract os"
  shows "\<exists>r. isUSBBlockDevice os sysroot device = Some r \<and>
    (r = Inr True \<longleftrightarrow> (\<exists>nodes. walk_nodes os sysroot device = Some nodes \<and> reaches_usb os nodes)) \<and>
    (r = Inr False \<longleftrightarrow> (\<exists>nodes. walk_nodes os sysroot device = Some nodes \<and>
       (\<forall>n \<in> set nodes. node_bus os n \<noteq> Unreadable \<and> node_bus os n \<noteq> Subsystem ''usb'') \<and>
       (\<exists>n \<in> set nodes. node_bus os n \<noteq> NoSubsystem)))"
  using isUSBBlockDevice_nodes [OF assms, of sysroot device]
  by (cases "walk_nodes os sysroot device") (auto simp: walk_below_True walk_below_False)

text \<open>A tree with one USB disk and one SATA disk.\<close>

definition example_sysfs :: sysfs where
  "example_sysfs =
    \<lparr>fs_Getwd = Inr ''/'',
     fs_EvalSymlinks = (\<lambda>p.
       if p = ''/sys/class/block/sda/device'' then Inr ''/sys/devices/pci0/usb1''
       else if p = ''/sys/class/block/sdb/device'' then Inr ''/sys/devices/pci0/ata1''
       else if p = ''/sys/devices/pci0/usb1/subsystem'' then Inr ''/sys/bus/usb''
       else if p = ''/sys/devices/pci0/ata1/subsystem'' then Inr ''/sys/bus/scsi''
       else Inl not_exist_error),
     fs_Lstat = (\<lambda>p. Some not_exist_error)\<rparr>"

lemma example_sysfs_contract: "sysfs_contract example_sysfs"
  unfolding sysfs_contract_def example_sysfs_def clean_abs_def
  by (auto simp: IsAbs_def HasPrefix_def Clean_def abs_path_def path_comps_def split: if_splits)

theorem isUSBBlockDevice_correct_witness:
  "(\<exists>nodes. walk_nodes example_sysfs ''/sys/class/block'' ''sda'' = Some nodes \<and> reaches_usb example_sysfs nodes) \<and>
   (\<exists>nodes. walk_nodes example_sysfs ''/sys/class/block'' ''sdb'' = Some nodes \<and> \<not> reaches_usb example_sysfs nodes)"
proof -
  have a: "isUSBBlockDevice example_sysfs ''/sys/class/block'' ''sda'' = Some (Inr True)" by code_simp
  have b: "isUSBBlockDevice example_sysfs ''/sys/class/block'' ''sdb'' = Some (Inr False)" by code_simp
  show ?thesis
    using isUSBBlockDevice_correct [OF example_sysfs_contract, of "''/sys/class/block''" "''sda''"]
      isUSBBlockDevice_correct [OF example_sysfs_contract, of "''/sys/class/block''" "''sdb''"] a b
    by auto
qed

end
