(* ===== verification/Disk_Policy.thy ===== *)
theory Disk_Policy
  imports Disk_Bus Json
begin

text \<open>
  The persistent disk policies (\<^verbatim>\<open>disk_policy.go\<close>): reading and validating the policy file, its
  atomic replacement, and the operations \<^verbatim>\<open>Set\<close> and \<^verbatim>\<open>Reset\<close> of the store.
\<close>

subsection \<open>The policy file\<close>

text \<open>
  A \<^verbatim>\<open>map[string]diskPolicy\<close> is the list of its entries in the order of their keys, the order in
  which it is encoded.
\<close>

type_synonym policies = "(string \<times> string) list"

fun map_put :: "string \<Rightarrow> string \<Rightarrow> policies \<Rightarrow> policies" where
  "map_put k v [] = [(k, v)]"
| "map_put k v ((k2, v2) # kvs) =
    (if k < k2 then (k, v) # (k2, v2) # kvs
     else if k = k2 then (k, v) # kvs
     else (k2, v2) # map_put k v kvs)"

definition map_delete :: "string \<Rightarrow> policies \<Rightarrow> policies" where
  "map_delete k kvs = filter (\<lambda>kv. fst kv \<noteq> k) kvs"

definition invalidPoliciesFile :: "string \<Rightarrow> string \<Rightarrow> go_error" where
  "invalidPoliciesFile path reason =
    GoErr (''disk policies file is invalid at '' @ quote path @ '': '' @ reason) [ErrInvalidPoliciesFile]"

text \<open>
  \<^verbatim>\<open>json.Unmarshal\<close> into the map: a later member replaces an earlier one of the same key,
  \<^verbatim>\<open>null\<close> is the zero value, any other value that is not a string is an error, and a document
  \<^verbatim>\<open>null\<close> is the nil map.
\<close>

definition policy_value :: "json \<Rightarrow> string result" where
  "policy_value v =
    (case v of JStr s \<Rightarrow> Inr s | JNull \<Rightarrow> Inr [] | _ \<Rightarrow> Inl (unmarshal_type_error v ''main.diskPolicy''))"

definition put_member :: "policies \<Rightarrow> string \<times> json \<Rightarrow> policies" where
  "put_member m kv = map_put (fst kv) (case policy_value (snd kv) of Inr s \<Rightarrow> s | Inl _ \<Rightarrow> []) m"

definition unmarshal_policies :: "json \<Rightarrow> policies option result" where
  "unmarshal_policies v =
    (case v of
       JNull \<Rightarrow> Inr None
     | JObj kvs \<Rightarrow>
         (case first_some (\<lambda>kv. result_err (policy_value (snd kv))) kvs of
            Some e \<Rightarrow> Inl e
          | None \<Rightarrow> Inr (Some (foldl put_member [] kvs)))
     | _ \<Rightarrow> Inl (unmarshal_type_error v ''map[string]main.diskPolicy''))"

definition valid_id :: "string \<Rightarrow> bool" where
  "valid_id did = (did \<noteq> [] \<and> length did \<le> maxUnraidDiskIDSize)"

text \<open>
  The checks on one entry. Go visits the entries in no particular order; here it is the order of
  the keys, which only decides which of several errors is reported.
\<close>

definition policy_entry_error :: "string \<Rightarrow> string \<times> string \<Rightarrow> go_error option" where
  "policy_entry_error path kv =
    (case kv of (did, policy) \<Rightarrow>
      if \<not> valid_id did then Some (invalidPoliciesFile path (''invalid ID '' @ quote did))
      else if policy \<noteq> diskPolicyInclude \<and> policy \<noteq> diskPolicyExclude
      then Some (invalidPoliciesFile path (''invalid policy '' @ quote policy @ '' for ID '' @ quote did))
      else None)"

definition parse_policies :: "string \<Rightarrow> string \<Rightarrow> policies result" where
  "parse_policies path data =
    (case json_parse data of
       Inl e \<Rightarrow> Inl (invalidPoliciesFile path (''parse: '' @ Error e))
     | Inr v \<Rightarrow>
         (case unmarshal_policies v of
            Inl e \<Rightarrow> Inl (invalidPoliciesFile path (''parse: '' @ Error e))
          | Inr None \<Rightarrow> Inl (invalidPoliciesFile path ''must be a JSON object'')
          | Inr (Some ps) \<Rightarrow>
              (case first_some (policy_entry_error path) ps of
                 Some e \<Rightarrow> Inl e
               | None \<Rightarrow> Inr ps)))"

definition readDiskPolicies :: "string \<Rightarrow> os_state \<Rightarrow> policies result \<times> os_state" where
  "readDiskPolicies path s =
    (case os_ReadFile path s of
       (Inl e, s1) \<Rightarrow>
         if errors_Is e ErrNotExist then (Inr [], s1)
         else (Inl (Errorf_w (''read disk policies '' @ quote path @ '': '') e []), s1)
     | (Inr data, s1) \<Rightarrow> (parse_policies path data, s1))"

definition encode_policies :: "policies \<Rightarrow> string" where
  "encode_policies ps = json_print (JObj (map (\<lambda>kv. (fst kv, JStr (snd kv))) ps)) @ [NL]"

definition policy_tmp_prefix :: "string \<Rightarrow> string" where
  "policy_tmp_prefix path = path_Join [Dir path, ''.disk-policies-'']"

definition policy_write_calls :: "string \<Rightarrow> policies \<Rightarrow> (syscall \<times> (go_error \<Rightarrow> go_error)) list" where
  "policy_write_calls path ps =
    (let at = (\<lambda>what e. Errorf_w (what @ quote path @ '': '') e []) in
     [(SMkdirAll, at ''create directory for disk policies ''),
      (SCreateTemp (policy_tmp_prefix path), at ''create temporary disk policies for ''),
      (SChmod, at ''set temporary disk policies mode for ''),
      (SWrite (encode_policies ps), at ''encode temporary disk policies for ''),
      (SSync, at ''sync temporary disk policies for ''),
      (SClose, at ''close temporary disk policies for ''),
      (SRename, at ''replace disk policies ''),
      (SSyncDir, at ''sync disk policies directory for '')])"

definition writeDiskPoliciesAtomic :: "string \<Rightarrow> policies \<Rightarrow> os_state \<Rightarrow> go_error option \<times> os_state" where
  "writeDiskPoliciesAtomic path ps s = replace_file path (policy_write_calls path ps) s"

text \<open>\<^verbatim>\<open>(*diskPolicyStore).Set\<close>; the mutex makes it one step.\<close>

definition policy_Set :: "string \<Rightarrow> string \<Rightarrow> string \<Rightarrow> os_state \<Rightarrow> go_error option \<times> os_state" where
  "policy_Set path did policy s =
    (if \<not> valid_id did
     then (Some (GoErr (''invalid disk ID: must contain 1 to '' @ FormatInt (int maxUnraidDiskIDSize) @ '' bytes'')
             [ErrInvalidDiskID]), s)
     else if policy \<noteq> diskPolicyAuto \<and> policy \<noteq> diskPolicyInclude \<and> policy \<noteq> diskPolicyExclude
     then (Some (GoErr (''invalid disk policy '' @ quote policy) [ErrInvalidDiskPolicy]), s)
     else case readDiskPolicies path s of
       (Inl e, s1) \<Rightarrow> (Some e, s1)
     | (Inr ps, s1) \<Rightarrow>
         if policy = diskPolicyAuto then
           (if map_of ps did = None then (None, s1)
            else writeDiskPoliciesAtomic path (map_delete did ps) s1)
         else if map_of ps did = Some policy then (None, s1)
         else writeDiskPoliciesAtomic path (map_put did policy ps) s1)"

text \<open>\<^verbatim>\<open>Reset\<close>; \<open>is_dir\<close> says whether the path is a directory.\<close>

definition policy_Reset :: "(string \<Rightarrow> bool) \<Rightarrow> string \<Rightarrow> os_state \<Rightarrow> go_error option \<times> os_state" where
  "policy_Reset is_dir path s =
    (case os_Lstat is_dir path s of
       (Inl e, s1) \<Rightarrow>
         if errors_Is e ErrNotExist then (None, s1)
         else (Some (Errorf_w (''inspect disk policies '' @ quote path @ '': '') e []), s1)
     | (Inr isDir, s1) \<Rightarrow>
         if isDir then (Some (errors_New (''disk policies path '' @ quote path @ '' is a directory'')), s1)
         else
           (case os_Remove path s1 of
              (Some e, s2) \<Rightarrow>
                if errors_Is e ErrNotExist then (None, s2)
                else (Some (Errorf_w (''remove disk policies '' @ quote path @ '': '') e []), s2)
            | (None, s2) \<Rightarrow>
                (case syncDirectory (Dir path) s2 of
                   (Some e, s3) \<Rightarrow> (Some (Errorf_w (''sync disk policies directory for '' @ quote path @ '': '') e []), s3)
                 | (None, s3) \<Rightarrow> (None, s3))))"

subsection \<open>The policies are a finite map\<close>

definition policies_wf :: "policies \<Rightarrow> bool" where
  "policies_wf ps = (sorted_wrt (<) (map fst ps) \<and>
    (\<forall>kv \<in> set ps. valid_id (fst kv) \<and> well_text (fst kv) \<and> snd kv \<in> {diskPolicyInclude, diskPolicyExclude}))"

lemma set_map_put: "kv \<in> set (map_put k v ps) \<Longrightarrow> kv = (k, v) \<or> kv \<in> set ps"
  by (induction k v ps rule: map_put.induct) (auto split: if_splits)

lemma sorted_map_put: "sorted_wrt (<) (map fst ps) \<Longrightarrow> sorted_wrt (<) (map fst (map_put k v ps))"
proof (induction k v ps rule: map_put.induct)
  case (2 k v k2 v2 kvs)
  then show ?case by (fastforce dest: set_map_put)
qed simp

lemma map_of_map_put: "map_of (map_put k v ps) = (map_of ps)(k \<mapsto> v)"
  by (induction k v ps rule: map_put.induct) auto

lemma map_of_map_delete: "map_of (map_delete k ps) = (map_of ps)(k := None)"
  by (induction ps) (auto simp: map_delete_def)

lemma sorted_map_delete: "sorted_wrt (<) (map fst ps) \<Longrightarrow> sorted_wrt (<) (map fst (map_delete k ps))"
  by (induction ps) (auto simp: map_delete_def)

lemma map_put_last: "\<forall>kv \<in> set ps. fst kv < k \<Longrightarrow> map_put k v ps = ps @ [(k, v)]"
  by (induction k v ps rule: map_put.induct) (auto simp: less_not_sym)

lemma foldl_put_sorted:
  "sorted_wrt (<) (map fst (acc @ ps)) \<Longrightarrow>
   foldl put_member acc (map (\<lambda>kv. (fst kv, JStr (snd kv))) ps) = acc @ ps"
proof (induction ps arbitrary: acc)
  case (Cons kv ps)
  then have "map_put (fst kv) (snd kv) acc = acc @ [kv]"
    by (subst map_put_last) (auto simp: sorted_wrt_append)
  then show ?case using Cons by (simp add: put_member_def policy_value_def)
qed simp

lemma policies_wf_put:
  "policies_wf ps \<Longrightarrow> valid_id k \<Longrightarrow> well_text k \<Longrightarrow> v \<in> {diskPolicyInclude, diskPolicyExclude} \<Longrightarrow>
   policies_wf (map_put k v ps)"
  by (auto simp: policies_wf_def sorted_map_put dest!: set_map_put)

lemma policies_wf_delete: "policies_wf ps \<Longrightarrow> policies_wf (map_delete k ps)"
  by (auto simp: policies_wf_def sorted_map_delete) (auto simp: map_delete_def)

lemma policy_entry_ok:
  "policy_entry_error path kv = None \<longleftrightarrow> valid_id (fst kv) \<and> snd kv \<in> {diskPolicyInclude, diskPolicyExclude}"
  by (cases kv) (simp add: policy_entry_error_def)

lemma policy_entries_ok:
  "first_some (policy_entry_error path) ps = None \<longleftrightarrow>
    (\<forall>kv \<in> set ps. valid_id (fst kv) \<and> snd kv \<in> {diskPolicyInclude, diskPolicyExclude})"
  by (simp add: policy_entry_ok)

subsection \<open>Reading back what was written\<close>

lemma parse_encode_policies: "policies_wf ps \<Longrightarrow> parse_policies path (encode_policies ps) = Inr ps"
proof -
  assume wf: "policies_wf ps"
  let ?kvs = "map (\<lambda>kv. (fst kv, JStr (snd kv))) ps"
  have c: "well_text ''include''" "well_text ''exclude''"
    by (rule well_text_ascii, simp)+
  have j: "json_parse (encode_policies ps) = Inr (json_clean (JObj ?kvs))"
    unfolding encode_policies_def by (rule json_parse_print_nl) (simp add: list_all_iff)
  have cl: "json_clean (JObj ?kvs) = JObj ?kvs"
    using wf c by (auto simp: policies_wf_def well_text_def)
  have un: "unmarshal_policies (JObj ?kvs) = Inr (Some ps)"
  proof -
    have "first_some (\<lambda>kv. result_err (policy_value (snd kv))) ?kvs = None"
      by (simp add: policy_value_def)
    then show ?thesis
      using foldl_put_sorted [of "[]" ps] wf
      by (simp add: unmarshal_policies_def policies_wf_def del: first_some_None_iff)
  qed
  have "first_some (policy_entry_error path) ps = None"
    using wf unfolding policy_entries_ok policies_wf_def by blast
  then show ?thesis
    by (simp only: parse_policies_def j cl un sum.case option.case)
qed

lemma foldl_put_wf:
  "list_all (\<lambda>kv. well_text (fst kv)) kvs \<Longrightarrow> sorted_wrt (<) (map fst acc) \<Longrightarrow> \<forall>kv \<in> set acc. well_text (fst kv) \<Longrightarrow>
   sorted_wrt (<) (map fst (foldl put_member acc kvs)) \<and> (\<forall>kv \<in> set (foldl put_member acc kvs). well_text (fst kv))"
proof (induction kvs arbitrary: acc)
  case (Cons kv kvs)
  have "sorted_wrt (<) (map fst (put_member acc kv))"
    using Cons.prems sorted_map_put by (simp add: put_member_def)
  moreover have "\<forall>x \<in> set (put_member acc kv). well_text (fst x)"
    using Cons.prems by (auto simp: put_member_def dest!: set_map_put)
  ultimately show ?case using Cons.IH [of "put_member acc kv"] Cons.prems(1) by simp
qed simp

lemma parse_policies_wf: "parse_policies path data = Inr ps \<Longrightarrow> policies_wf ps"
proof -
  assume p: "parse_policies path data = Inr ps"
  then obtain v where v: "json_parse data = Inr v" "unmarshal_policies v = Inr (Some ps)"
      "first_some (policy_entry_error path) ps = None"
    unfolding parse_policies_def
    by (cases "json_parse data") (auto simp del: first_some_None_iff split: sum.splits option.splits)
  from v(2) obtain kvs where kvs: "v = JObj kvs" "ps = foldl put_member [] kvs"
    by (cases v) (auto simp: unmarshal_policies_def simp del: first_some_None_iff split: option.splits)
  have "list_all (\<lambda>kv. well_text (fst kv)) kvs"
    using json_parse_well [OF v(1)] kvs by (auto simp: list_all_iff)
  from foldl_put_wf [OF this, of "[]"] show ?thesis
    using v(3) kvs(2) unfolding policies_wf_def policy_entries_ok by auto
qed

subsection \<open>The store\<close>

text \<open>The policies that a file system state holds at a path: none when there is no file.\<close>

definition stored_policies :: "string \<Rightarrow> string option \<Rightarrow> policies result" where
  "stored_policies path content =
    (case content of None \<Rightarrow> Inr [] | Some data \<Rightarrow> parse_policies path data)"

lemma stored_policies_wf: "stored_policies path c = Inr ps \<Longrightarrow> policies_wf ps"
  by (auto simp: stored_policies_def policies_wf_def split: option.splits dest: parse_policies_wf [unfolded policies_wf_def])

text \<open>The policies after a successful \<^verbatim>\<open>Set\<close>.\<close>

definition set_policies :: "string \<Rightarrow> string \<Rightarrow> policies \<Rightarrow> policies" where
  "set_policies did policy ps = (if policy = diskPolicyAuto then map_delete did ps else map_put did policy ps)"

lemma set_policies_lookup:
  "map_of (set_policies did policy ps) = (map_of ps)(did := if policy = diskPolicyAuto then None else Some policy)"
  by (simp add: set_policies_def map_of_map_put map_of_map_delete)

lemma set_policies_same:
  assumes "policies_wf ps" "if policy = diskPolicyAuto then map_of ps did = None else map_of ps did = Some policy"
  shows "set_policies did policy ps = ps"
proof (cases "policy = diskPolicyAuto")
  case True
  then show ?thesis using assms(2)
    by (auto simp: set_policies_def map_delete_def map_of_eq_None_iff filter_id_conv)
next
  case False
  then have "map_of ps did = Some policy" using assms(2) by simp
  moreover have "sorted_wrt (<) (map fst ps)" using assms(1) by (simp add: policies_wf_def)
  ultimately have "map_put did policy ps = ps"
  proof (induction did policy ps rule: map_put.induct)
    case (2 k v k2 v2 kvs)
    then show ?case by (auto dest!: map_of_SomeD split: if_splits)
  qed simp
  then show ?thesis using False by (simp add: set_policies_def)
qed

lemma readDiskPolicies_cases:
  assumes "honest_faults s"
  obtains fs where "readDiskPolicies path s = (stored_policies path (file_content (os_core s) path), s\<lparr>os_faults := fs\<rparr>)"
  | e fs where "readDiskPolicies path s = (Inl e, s\<lparr>os_faults := fs\<rparr>)"
proof (cases s rule: take_fault_cases)
  case (1 fs)
  then show ?thesis
    by (intro that(1)) (auto simp: readDiskPolicies_def os_ReadFile_def not_exist_error_def errors_Is_def
        stored_policies_def file_content_def split: option.split)
next
  case (2 e n fs)
  then show ?thesis
    using take_fault_honest [OF 2 assms]
    by (intro that(2)) (simp add: readDiskPolicies_def os_ReadFile_def)
qed

definition policy_file_ok :: "string \<Rightarrow> os_state \<Rightarrow> bool" where
  "policy_file_ok path s =
    (fresh_inode s path \<and> \<not> HasPrefix path (policy_tmp_prefix path))"

definition policies_updated ::
    "string \<Rightarrow> bool \<Rightarrow> policies \<Rightarrow> policies \<Rightarrow> os_state \<Rightarrow> go_error option \<times> os_state \<Rightarrow> bool" where
  "policies_updated path = store_updated (\<lambda>c ps. stored_policies path c = Inr ps) path"

lemmas policies_updated_unfold = policies_updated_def store_updated_def Let_def

interpretation policy_file: file_store "\<lambda>c ps. stored_policies path c = Inr ps" encode_policies policies_wf
  by unfold_locales (simp add: stored_policies_def parse_encode_policies)

lemma policy_write_updates:
  assumes ok: "policy_file_ok path s" and st: "stored_policies path (file_content (os_core s) path) = Inr ps"
    and wf: "policies_wf qs"
  shows "policies_updated path True ps qs s (writeDiskPoliciesAtomic path qs s)"
proof -
  let ?at = "\<lambda>what e. Errorf_w (what @ quote path @ '': '') e []"
  let ?pre = "[(SMkdirAll, ?at ''create directory for disk policies ''),
      (SCreateTemp (policy_tmp_prefix path), ?at ''create temporary disk policies for ''),
      (SChmod, ?at ''set temporary disk policies mode for '')]"
  have "prepare_calls path (policy_tmp_prefix path) ?pre"
    using ok by (simp add: prepare_calls_def policy_file_ok_def)
  from policy_file.write_updates [OF this, of s path ps qs] show ?thesis
    using ok st wf
    by (simp add: policies_updated_def writeDiskPoliciesAtomic_def policy_write_calls_def Let_def policy_file_ok_def)
qed

lemma unchanged_updates:
  assumes "stored_policies path (file_content (os_core s) path) = Inr ps"
  shows "policies_updated path False ps ps s (r, s\<lparr>os_faults := fs\<rparr>)"
    "policies_updated path writes ps qs s (Some e, s\<lparr>os_faults := fs\<rparr>)"
  using assms by (auto simp: policies_updated_unfold)

lemma set_policies_changes:
  "map_of ps did \<noteq> (if policy = diskPolicyAuto then None else Some policy) \<Longrightarrow> set_policies did policy ps \<noteq> ps"
  using set_policies_lookup [of did policy ps] by (auto dest: fun_cong [where x = did])

lemma policy_Set_updates:
  assumes ok: "policy_file_ok path s" and h: "honest_faults s"
    and st: "stored_policies path (file_content (os_core s) path) = Inr ps"
    and did: "valid_id did" "well_text did"
    and pol: "policy \<in> {diskPolicyAuto, diskPolicyInclude, diskPolicyExclude}"
  shows "policies_updated path (set_policies did policy ps \<noteq> ps) ps (set_policies did policy ps) s (policy_Set path did policy s)"
proof (rule readDiskPolicies_cases [OF h])
  fix e fs assume "readDiskPolicies path s = (Inl e, s\<lparr>os_faults := fs\<rparr>)"
  then have "policy_Set path did policy s = (Some e, s\<lparr>os_faults := fs\<rparr>)"
    using did pol by (auto simp: policy_Set_def)
  then show ?thesis using unchanged_updates [OF st] by simp
next
  fix fs
  let ?s = "s\<lparr>os_faults := fs\<rparr>"
  assume r: "readDiskPolicies path s = (stored_policies path (file_content (os_core s) path), ?s)"
  note wf = stored_policies_wf [OF st]
  let ?same = "if policy = diskPolicyAuto then map_of ps did = None else map_of ps did = Some policy"
  have set: "policy_Set path did policy s =
      (if ?same then (None, ?s) else writeDiskPoliciesAtomic path (set_policies did policy ps) ?s)"
    using r st did pol by (auto simp: policy_Set_def set_policies_def)
  show ?thesis
  proof (cases ?same)
    case True
    then show ?thesis using set set_policies_same [OF wf True] unchanged_updates [OF st] by simp
  next
    case False
    have "policies_wf (set_policies did policy ps)"
      using wf did pol by (auto simp: set_policies_def intro: policies_wf_put policies_wf_delete)
    then have "policies_updated path True ps (set_policies did policy ps) ?s
        (writeDiskPoliciesAtomic path (set_policies did policy ps) ?s)"
      using ok st by (intro policy_write_updates) (simp_all add: policy_file_ok_def fresh_inode_def)
    moreover have "set_policies did policy ps \<noteq> ps" using False by (intro set_policies_changes) auto
    ultimately show ?thesis using set False by (simp add: policies_updated_unfold)
  qed
qed

lemma stored_None: "stored_policies path None = Inr []"
  by (simp add: stored_policies_def)

text \<open>Removing the entry and syncing the directory.\<close>

lemma removed_updates:
  assumes st: "stored_policies path (file_content (os_core s) path) = Inr ps"
    and k: "os_core s2 = (os_core s)\<lparr>fs_dir := (fs_dir (os_core s))(path := None)\<rparr>" "os_log s2 = os_log s @ [os_core s2]"
  shows "policies_updated path True ps [] s
    (case syncDirectory d s2 of (Some e, s3) \<Rightarrow> (Some (w e), s3) | (None, s3) \<Rightarrow> (None, s3))"
proof -
  have crash: "crash_content (os_core s2) path c \<Longrightarrow> c = None \<or>
      crash_content (os_core s) path c \<and> (durable (os_core s) path \<longrightarrow> stored_policies path c = Inr ps)" for c
  proof -
    assume "crash_content (os_core s2) path c"
    then have "c = None \<or> crash_content (os_core s) path c"
      using k(1) by (auto simp: crash_content_def crash_via_def split: option.splits)
    then show ?thesis using durable_crash st by auto
  qed
  have none: "file_content (os_core s2) path = None" using k(1) by (simp add: file_content_def)
  show ?thesis
  proof (cases s2 rule: take_fault_cases)
    case (1 fs)
    then have "syncDirectory d s2 = (None, visit ((os_core s2)\<lparr>fs_ddir := fs_dir (os_core s2)\<rparr>) (s2\<lparr>os_faults := fs\<rparr>))"
      by (simp add: syncDirectory_def exec_call_def exec_ok_def Let_def)
    then show ?thesis
      using none crash st k stored_None
      by (auto simp: policies_updated_unfold visit_def file_content_def durable_def crash_content_def crash_via_def Let_def)
  next
    case (2 e n fs)
    then have "syncDirectory d s2 = (Some e, visit (os_core s2) (s2\<lparr>os_faults := fs\<rparr>))"
      by (simp add: syncDirectory_def exec_call_def exec_fail_def Let_def)
    then show ?thesis
      using none crash st k(2) stored_None by (auto simp: policies_updated_unfold visit_def)
  qed
qed

lemma policy_Reset_updates:
  assumes h: "honest_faults s" and d: "\<not> is_dir path"
    and st: "stored_policies path (file_content (os_core s) path) = Inr ps"
  shows "policies_updated path (file_content (os_core s) path \<noteq> None) ps [] s (policy_Reset is_dir path s)"
proof (cases s rule: take_fault_cases)
  case (2 e n fs)
  then show ?thesis
    using take_fault_honest [OF 2 h] unchanged_updates [OF st]
    by (simp add: policy_Reset_def os_Lstat_def)
next
  case (1 fs)
  let ?s = "s\<lparr>os_faults := fs\<rparr>"
  have h2: "honest_faults ?s"
    using take_fault_rest [OF 1 h] .
  show ?thesis
  proof (cases "fs_dir (os_core s) path")
    case None
    then have "ps = []" "policy_Reset is_dir path s = (None, ?s)" "file_content (os_core s) path = None"
      using 1 st d by (auto simp: policy_Reset_def os_Lstat_def not_exist_error_def errors_Is_def
          stored_policies_def file_content_def)
    then show ?thesis using unchanged_updates [OF st] by simp
  next
    case (Some i)
    note there = this
    then have present: "file_content (os_core s) path \<noteq> None" by (simp add: file_content_def)
    show ?thesis
    proof (cases ?s rule: take_fault_cases)
      case (2 e n fs2)
      then have "policy_Reset is_dir path s =
          (Some (Errorf_w (''remove disk policies '' @ quote path @ '': '') e []), visit (os_core s) (s\<lparr>os_faults := fs2\<rparr>))"
        using 1 there d take_fault_honest [OF 2 h2] by (simp add: policy_Reset_def os_Lstat_def os_Remove_def)
      then show ?thesis
        using st durable_crash [of "os_core s" path]
        by (auto simp: policies_updated_unfold visit_def)
    next
      case (1 fs2)
      let ?k = "(os_core s)\<lparr>fs_dir := (fs_dir (os_core s))(path := None)\<rparr>"
      have "policy_Reset is_dir path s =
          (case syncDirectory (Dir path) (visit ?k (s\<lparr>os_faults := fs2\<rparr>)) of
             (Some e, s3) \<Rightarrow> (Some (Errorf_w (''sync disk policies directory for '' @ quote path @ '': '') e []), s3)
           | (None, s3) \<Rightarrow> (None, s3))"
        using 1 \<open>take_fault s = (None, ?s)\<close> there d by (simp add: policy_Reset_def os_Lstat_def os_Remove_def)
      then show ?thesis using present removed_updates [OF st, of "visit ?k (s\<lparr>os_faults := fs2\<rparr>)"]
        by (simp add: visit_def)
    qed
  qed
qed

subsection \<open>Properties\<close>

text \<open>
  C5: Setting a policy is crash-safe, and durable when it changes something. When the policy file
  holds the policies \<open>ps\<close>, \<^verbatim>\<open>Set\<close> with a valid ID and policy turns them into
  \<open>set_policies did policy ps\<close>: if it reports success, the file reads back as exactly these
  policies; if they differ from \<open>ps\<close> the file is then on disk, and if they do not \<^verbatim>\<open>Set\<close> has done
  nothing to the file system, so the file is on disk only if it was before. Whatever call fails,
  the file reads back as the policies before or after; wherever the machine crashes in between, it
  holds the policies after, or what a crash before the call could have left, which are the policies
  before if they were on disk.
\<close>

theorem policy_Set_crash_safe:
  assumes "policy_file_ok path s" "honest_faults s"
    and "stored_policies path (file_content (os_core s) path) = Inr ps"
    and "valid_id did" "well_text did"
    and "policy \<in> {diskPolicyAuto, diskPolicyInclude, diskPolicyExclude}"
  shows "policies_updated path (set_policies did policy ps \<noteq> ps) ps (set_policies did policy ps) s (policy_Set path did policy s) \<and>
    map_of (set_policies did policy ps) =
      (map_of ps)(did := if policy = diskPolicyAuto then None else Some policy)"
  using policy_Set_updates [OF assms] set_policies_lookup by simp

text \<open>An empty file system on which the write of the new file fails after three bytes.\<close>

definition example_os :: "(go_error \<times> nat) option list \<Rightarrow> os_state" where
  "example_os faults =
    \<lparr>os_core = \<lparr>fs_dir = Map.empty, fs_ddir = Map.empty, fs_data = Map.empty, fs_sdata = Map.empty\<rparr>,
     os_log = [], os_tmp = None, os_next = 0, os_faults = faults, os_random = [''123'', ''456'']\<rparr>"

definition example_path :: string where "example_path = ''/boot/disk-policies.json''"

lemma example_os_ok: "policy_file_ok example_path (example_os fs)"
proof -
  have "policy_tmp_prefix example_path = ''/boot/.disk-policies-''" by code_simp
  then show ?thesis
    by (simp add: policy_file_ok_def example_os_def durable_def fresh_inode_def example_path_def HasPrefix_def)
qed

theorem policy_Set_crash_safe_witness:
  "policies_updated example_path True [] [(''WDC-1'', ''exclude'')] (example_os [])
     (policy_Set example_path ''WDC-1'' ''exclude'' (example_os [])) \<and>
   policies_updated example_path True [] [(''WDC-1'', ''exclude'')]
     (example_os [None, None, None, None, Some (errors_New ''no space left on device'', 3)])
     (policy_Set example_path ''WDC-1'' ''exclude''
       (example_os [None, None, None, None, Some (errors_New ''no space left on device'', 3)]))"
proof -
  have w: "valid_id ''WDC-1''" "well_text ''WDC-1''"
    by (simp add: valid_id_def maxUnraidDiskIDSize_def) (rule well_text_ascii, simp)
  have s: "stored_policies example_path (file_content (os_core (example_os fs)) example_path) = Inr []" for fs
    by (simp add: example_os_def file_content_def stored_policies_def)
  have "set_policies ''WDC-1'' ''exclude'' [] = [(''WDC-1'', ''exclude'')]"
    by (simp add: set_policies_def)
  then show ?thesis
    using policy_Set_crash_safe [OF example_os_ok _ s w, of _ "''exclude''"]
    by (simp add: honest_faults_def example_os_def)
qed


definition example_stored :: os_state where
  "example_stored =
    (let d = [example_path \<mapsto> 0]; f = [0 \<mapsto> encode_policies [(''WDC-1'', ''exclude'')]] in
     (example_os [None, None, Some (errors_New ''input/output error'', 0)])
       \<lparr>os_core := \<lparr>fs_dir = d, fs_ddir = d, fs_data = f, fs_sdata = f\<rparr>, os_next := 1\<rparr>)"


text \<open>
  A retry does not repair durability: when the last step of \<^verbatim>\<open>Set\<close>, the sync of the directory, fails,
  repeating the same request succeeds without touching the file system, and the change can still be
  lost in a crash.
\<close>

definition example_unsynced :: os_state where
  "example_unsynced =
    example_os (replicate 8 None @ [Some (errors_New ''input/output error'', 0)])"

lemma retry_not_durable:
  "let r1 = policy_Set example_path ''WDC-1'' ''exclude'' example_unsynced;
       r2 = policy_Set example_path ''WDC-1'' ''exclude'' (snd r1) in
    fst r1 \<noteq> None \<and> fst r2 = None \<and> \<not> durable (os_core (snd r2)) example_path"
proof -
  let ?r1 = "policy_Set example_path ''WDC-1'' ''exclude'' example_unsynced"
  let ?r2 = "policy_Set example_path ''WDC-1'' ''exclude'' (snd ?r1)"
  have "fst ?r1 \<noteq> None \<and> fst ?r2 = None \<and> fs_ddir (os_core (snd ?r2)) example_path = None \<and>
      fs_dir (os_core (snd ?r2)) example_path \<noteq> None"
    by code_simp
  then show ?thesis unfolding Let_def durable_def by metis
qed

text \<open>
  C23: What is written to the policy file is read back exactly, for every well-formed set of
  policies; and everything the reader accepts is well-formed: the IDs are valid text of 1 to 79
  bytes, each occurs once, and every policy is include or exclude.
\<close>

theorem policies_roundtrip:
  "(policies_wf ps \<longrightarrow> parse_policies path (encode_policies ps) = Inr ps) \<and>
   (parse_policies path data = Inr qs \<longrightarrow> policies_wf qs \<and> distinct (map fst qs))"
  using parse_encode_policies parse_policies_wf
  by (auto simp: policies_wf_def strict_sorted_iff)

theorem policies_roundtrip_witness:
  "parse_policies example_path (encode_policies [(''A'', ''exclude''), (''B'', ''include'')]) =
     Inr [(''A'', ''exclude''), (''B'', ''include'')]"
proof -
  have "well_text ''A''" "well_text ''B''" by (rule well_text_ascii, simp)+
  then have "policies_wf [(''A'', ''exclude''), (''B'', ''include'')]"
    by (simp add: policies_wf_def valid_id_def maxUnraidDiskIDSize_def)
  then show ?thesis using policies_roundtrip by blast
qed

end
