(* ===== verification/Disk_Source.thy ===== *)
theory Disk_Source
  imports Sensors_Model
begin

text \<open>
  Where disk temperatures come from: the configured polling interval of emhttpd
  (\<^verbatim>\<open>disk_source_config.go\<close>) and the decision between emhttpd's own SMART polling and the direct
  SMART fallback (\<^verbatim>\<open>disk_source.go\<close>).

  The package \<^verbatim>\<open>gopkg.in/ini.v1\<close> is a parameter: a loaded file is its list of sections, each with
  the values its keys render to.
\<close>

subsection \<open>INI files\<close>

record ini_section =
  sec_name :: string
  sec_keys :: "(string \<times> string) list"

type_synonym ini_file = "ini_section list"

definition DefaultSection :: string where "DefaultSection = ''DEFAULT''"

text \<open>\<^verbatim>\<open>section.Key(name).String()\<close>: the empty string for a missing key.\<close>

definition sec_Key :: "ini_section \<Rightarrow> string \<Rightarrow> string" where
  "sec_Key sec name = (case map_of (sec_keys sec) name of None \<Rightarrow> [] | Some v \<Rightarrow> v)"

definition default_GetKey :: "ini_file \<Rightarrow> string \<Rightarrow> string option" where
  "default_GetKey config name =
    (case find (\<lambda>sec. sec_name sec = DefaultSection) config of
       None \<Rightarrow> None
     | Some sec \<Rightarrow> map_of (sec_keys sec) name)"

subsection \<open>Polling interval\<close>

abbreviation defaultPollAttributes :: duration where "defaultPollAttributes \<equiv> 30 * 1000000000"
abbreviation maximumRecommendedPolling :: duration where
  "maximumRecommendedPolling \<equiv> 60 * 1000000000"

record pollAttributesState =
  pa_interval :: duration
  pa_haveValid :: bool
  pa_logInitialized :: bool
  pa_lastInterval :: duration
  pa_lastError :: string

definition pollAttributesState_zero :: pollAttributesState where
  "pollAttributesState_zero =
    \<lparr>pa_interval = 0, pa_haveValid = False, pa_logInitialized = False, pa_lastInterval = 0,
     pa_lastError = []\<rparr>"

definition parsePollAttributes :: "(string \<Rightarrow> ini_file result) \<Rightarrow> string \<Rightarrow> duration result" where
  "parsePollAttributes ini_Load text =
    (case ini_Load text of
       Inl e \<Rightarrow> Inl (Errorf_w ''parse var.ini: '' e [])
     | Inr config \<Rightarrow>
         (case default_GetKey config ''poll_attributes'' of
            None \<Rightarrow> Inl (errors_New ''poll_attributes is missing'')
          | Some v \<Rightarrow>
              let raw = TrimSpace v in
              (case ParseInt10 raw of
                 Inl _ \<Rightarrow> Inl (errors_New (''poll_attributes '' @ quote raw @ '' is not a number''))
               | Inr seconds \<Rightarrow>
                   if seconds < 0
                   then Inl (errors_New (''poll_attributes '' @ FormatInt seconds @ '' is negative''))
                   else if (2 ^ 63 - 1) div second < seconds
                   then Inl (errors_New (''poll_attributes '' @ FormatInt seconds @ '' is too large''))
                   else Inr (dur_mul seconds second))))"

definition readPollAttributes ::
    "(string \<Rightarrow> string result) \<Rightarrow> (string \<Rightarrow> ini_file result) \<Rightarrow> string \<Rightarrow> duration \<times> go_error option" where
  "readPollAttributes os_ReadFile ini_Load path =
    (case os_ReadFile path of
       Inl e \<Rightarrow> (defaultPollAttributes, Some (Errorf_w (''read '' @ path @ '': '') e []))
     | Inr text \<Rightarrow>
         (case parsePollAttributes ini_Load text of
            Inl e \<Rightarrow> (defaultPollAttributes, Some (Errorf_w (''read '' @ path @ '': '') e []))
          | Inr interval \<Rightarrow> (interval, None)))"

text \<open>\<^verbatim>\<open>effective\<close>, given what \<^verbatim>\<open>readPollAttributes\<close> returned.\<close>

definition effective ::
    "pollAttributesState \<Rightarrow> duration \<times> go_error option \<Rightarrow> pollAttributesState \<times> duration \<times> go_error option" where
  "effective s rd =
    (case rd of (interval, err) \<Rightarrow>
      if err = None
      then (s\<lparr>pa_interval := interval, pa_haveValid := True\<rparr>, interval, None)
      else if pa_haveValid s then (s, pa_interval s, err)
      else (s, interval, err))"

definition logPollAttributes :: "duration \<Rightarrow> go_error option \<Rightarrow> string list" where
  "logPollAttributes interval configErr =
    (case configErr of
       Some e \<Rightarrow> [''warning: '' @ Error e @ ''; using '' @ dur_String interval @
                  '' for stalled-poll detection'']
     | None \<Rightarrow>
         if interval = 0
         then [''warning: Unraid automatic SMART polling is disabled (poll_attributes=0); disk temperatures cannot remain fresh automatically'']
         else (''Unraid SMART polling interval: '' @ dur_String interval) #
              (if maximumRecommendedPolling < interval
               then [''warning: Unraid SMART polling interval is '' @ dur_String interval @
                     ''; fan control may react with several minutes of delay'']
               else []))"

definition logChange ::
    "pollAttributesState \<Rightarrow> duration \<Rightarrow> go_error option \<Rightarrow> pollAttributesState \<times> string list" where
  "logChange s interval configErr =
    (let errorMessage = errorText configErr in
     if pa_logInitialized s \<and> pa_lastInterval s = interval \<and> pa_lastError s = errorMessage
     then (s, [])
     else (s\<lparr>pa_logInitialized := True, pa_lastInterval := interval, pa_lastError := errorMessage\<rparr>,
           logPollAttributes interval configErr))"

subsection \<open>Source decision\<close>

text \<open>\<^term>\<open>diskSourceNone\<close> is the empty string a disk has before its first valid sample.\<close>

datatype diskTemperatureSource = diskSourceNone | diskSourceEmhttpd | diskSourceDirect

fun source_text :: "diskTemperatureSource \<Rightarrow> string" where
  "source_text diskSourceNone = []"
| "source_text diskSourceEmhttpd = ''emhttpd''"
| "source_text diskSourceDirect = ''direct SMART fallback''"

abbreviation emhttpPollMargin :: duration where "emhttpPollMargin \<equiv> 15 * 1000000000"

record smartSourceDecision =
  dec_source :: diskTemperatureSource
  dec_directDue :: bool
  dec_justEntered :: bool
  dec_justRecovered :: bool

record smartSourceStatus =
  st_pollInterval :: duration
  st_configError :: string
  st_initialized :: bool
  st_heartbeatSeen :: bool
  st_lastHeartbeat :: time
  st_source :: diskTemperatureSource
  st_fallbackSince :: time
  st_lastFallbackAttempt :: time
  st_lastFallbackError :: string
  st_fallbackErrorAt :: time

record smartSourceState =
  ss_initialized :: bool
  ss_startedAt :: time
  ss_heartbeatSeen :: bool
  ss_lastHeartbeat :: time
  ss_fallbackActive :: bool
  ss_fallbackSince :: time
  ss_lastFallbackAttempt :: time
  ss_pollInterval :: duration
  ss_configError :: string
  ss_lastFallbackError :: string
  ss_fallbackErrorAt :: time

definition smartSourceState_zero :: smartSourceState where
  "smartSourceState_zero =
    \<lparr>ss_initialized = False, ss_startedAt = time_zero, ss_heartbeatSeen = False,
     ss_lastHeartbeat = time_zero, ss_fallbackActive = False, ss_fallbackSince = time_zero,
     ss_lastFallbackAttempt = time_zero, ss_pollInterval = 0, ss_configError = [],
     ss_lastFallbackError = [], ss_fallbackErrorAt = time_zero\<rparr>"

definition noteEmhttpPoll :: "smartSourceState \<Rightarrow> time \<Rightarrow> smartSourceState" where
  "noteEmhttpPoll s now = s\<lparr>ss_lastHeartbeat := now, ss_heartbeatSeen := True\<rparr>"

definition evaluate ::
    "smartSourceState \<Rightarrow> time \<Rightarrow> duration \<Rightarrow> go_error option \<Rightarrow> smartSourceState \<times> smartSourceDecision" where
  "evaluate s now pollInterval configErr =
    (let s1 = (if ss_initialized s then s else s\<lparr>ss_startedAt := now, ss_initialized := True\<rparr>);
         s2 = s1\<lparr>ss_pollInterval := pollInterval, ss_configError := errorText configErr\<rparr>;
         reference = (if ss_heartbeatSeen s2 then ss_lastHeartbeat s2 else ss_startedAt s2);
         fallback = (0 < pollInterval \<and> dur_add pollInterval emhttpPollMargin < time_Sub now reference);
         changed = (fallback \<noteq> ss_fallbackActive s2);
         entered = (changed \<and> fallback);
         recovered = (changed \<and> \<not> fallback);
         s3 = (if entered then s2\<lparr>ss_fallbackActive := True, ss_fallbackSince := now\<rparr>
               else if recovered
               then s2\<lparr>ss_fallbackActive := False, ss_fallbackSince := time_zero,
                       ss_lastFallbackError := [], ss_fallbackErrorAt := time_zero\<rparr>
               else s2);
         due = (fallback \<and> (entered \<or> IsZero (ss_lastFallbackAttempt s3) \<or>
                 pollInterval \<le> time_Sub now (ss_lastFallbackAttempt s3)))
     in (s3, \<lparr>dec_source = (if fallback then diskSourceDirect else diskSourceEmhttpd),
              dec_directDue = due, dec_justEntered = entered, dec_justRecovered = recovered\<rparr>))"

definition beginDirectAttempt :: "smartSourceState \<Rightarrow> time \<Rightarrow> smartSourceState" where
  "beginDirectAttempt s now = s\<lparr>ss_lastFallbackAttempt := now\<rparr>"

definition recordFallbackResult :: "smartSourceState \<Rightarrow> time \<Rightarrow> go_error option \<Rightarrow> smartSourceState" where
  "recordFallbackResult s now err =
    (let message = errorText err in
     if message = ss_lastFallbackError s then s
     else s\<lparr>ss_lastFallbackError := message,
            ss_fallbackErrorAt := (if message \<noteq> [] then now else time_zero)\<rparr>)"

definition source_status :: "smartSourceState \<Rightarrow> smartSourceStatus" where
  "source_status s =
    \<lparr>st_pollInterval = ss_pollInterval s, st_configError = ss_configError s,
     st_initialized = ss_initialized s, st_heartbeatSeen = ss_heartbeatSeen s,
     st_lastHeartbeat = ss_lastHeartbeat s,
     st_source = (if ss_fallbackActive s then diskSourceDirect else diskSourceEmhttpd),
     st_fallbackSince = ss_fallbackSince s, st_lastFallbackAttempt = ss_lastFallbackAttempt s,
     st_lastFallbackError = ss_lastFallbackError s, st_fallbackErrorAt = ss_fallbackErrorAt s\<rparr>"

subsection \<open>The polling interval is a whole number of seconds in range\<close>

lemma ParseInt10_range: "ParseInt10 s = Inr n \<Longrightarrow> int64_range n"
  by (auto simp: ParseInt10_def int64_range_def Let_def split: if_splits sum.splits)

lemma parsePollAttributes_InrD:
  assumes "parsePollAttributes ini_Load text = Inr d"
  shows "\<exists>n. 0 \<le> n \<and> n \<le> (2 ^ 63 - 1) div second \<and> d = n * second"
proof -
  obtain n where n: "0 \<le> n" "n \<le> (2 ^ 63 - 1) div second" and d: "d = dur_mul n second"
    using assms
    by (fastforce simp: parsePollAttributes_def Let_def not_less split: sum.splits option.splits if_splits)
  have "n * second \<le> 2 ^ 63 - 1" using n by simp
  then have "int64_range (n * second)" using n by (simp add: int64_range_def)
  then have "d = n * second" using d by (simp add: dur_mul_def wrap64_id)
  with n show ?thesis by blast
qed

lemma readPollAttributes_default:
  "readPollAttributes rd ini_Load path = (d, Some e) \<Longrightarrow> d = defaultPollAttributes"
  by (auto simp: readPollAttributes_def split: sum.splits)

subsection \<open>The last valid configuration stays in force\<close>

definition valid_intervals :: "(duration \<times> go_error option) list \<Rightarrow> duration list" where
  "valid_intervals rds = map fst (filter (\<lambda>rd. snd rd = None) rds)"

lemma valid_intervals_snoc:
  "valid_intervals (rds @ [rd]) = valid_intervals rds @ (if snd rd = None then [fst rd] else [])"
  by (simp add: valid_intervals_def)

definition effective_after :: "(duration \<times> go_error option) list \<Rightarrow> pollAttributesState" where
  "effective_after rds = run_events (\<lambda>s rd. fst (effective s rd)) pollAttributesState_zero rds"

lemma effective_after_state:
  "pa_haveValid (effective_after rds) \<longleftrightarrow> valid_intervals rds \<noteq> []"
  "valid_intervals rds \<noteq> [] \<Longrightarrow> pa_interval (effective_after rds) = last (valid_intervals rds)"
proof (induction rds rule: rev_induct)
  case Nil
  show "pa_haveValid (effective_after []) \<longleftrightarrow> valid_intervals [] \<noteq> []"
    by (simp add: effective_after_def valid_intervals_def pollAttributesState_zero_def)
  show "valid_intervals [] \<noteq> [] \<Longrightarrow> pa_interval (effective_after []) = last (valid_intervals [])"
    by (simp add: valid_intervals_def)
next
  case (snoc rd rds)
  have step: "effective_after (rds @ [rd]) = fst (effective (effective_after rds) rd)"
    by (simp add: effective_after_def)
  show "pa_haveValid (effective_after (rds @ [rd])) \<longleftrightarrow> valid_intervals (rds @ [rd]) \<noteq> []"
    using snoc(1) by (auto simp: step effective_def valid_intervals_snoc split: prod.split)
  show "valid_intervals (rds @ [rd]) \<noteq> [] \<Longrightarrow>
      pa_interval (effective_after (rds @ [rd])) = last (valid_intervals (rds @ [rd]))"
    using snoc by (auto simp: step effective_def valid_intervals_snoc split: prod.split)
qed

subsection \<open>The decision\<close>

text \<open>The instant the staleness of emhttpd's polling is measured from.\<close>

definition poll_reference :: "smartSourceState \<Rightarrow> time \<Rightarrow> time" where
  "poll_reference s now =
    (if ss_heartbeatSeen s then ss_lastHeartbeat s
     else if ss_initialized s then ss_startedAt s else now)"

definition stale_polling :: "smartSourceState \<Rightarrow> time \<Rightarrow> duration \<Rightarrow> bool" where
  "stale_polling s now p = (0 < p \<and> dur_add p emhttpPollMargin < time_Sub now (poll_reference s now))"

lemma evaluate_decision:
  "dec_source (snd (evaluate s now p e)) = (if stale_polling s now p then diskSourceDirect else diskSourceEmhttpd)"
  "dec_justEntered (snd (evaluate s now p e)) \<longleftrightarrow> stale_polling s now p \<and> \<not> ss_fallbackActive s"
  "dec_justRecovered (snd (evaluate s now p e)) \<longleftrightarrow> \<not> stale_polling s now p \<and> ss_fallbackActive s"
  "dec_directDue (snd (evaluate s now p e)) \<longleftrightarrow> stale_polling s now p \<and>
     (\<not> ss_fallbackActive s \<or> ss_lastFallbackAttempt s = time_zero \<or>
      p \<le> time_Sub now (ss_lastFallbackAttempt s))"
  by (auto simp: evaluate_def stale_polling_def poll_reference_def Let_def IsZero_def)

lemma evaluate_state:
  "ss_fallbackActive (fst (evaluate s now p e)) \<longleftrightarrow> stale_polling s now p"
  "ss_heartbeatSeen (fst (evaluate s now p e)) = ss_heartbeatSeen s"
  "ss_lastHeartbeat (fst (evaluate s now p e)) = ss_lastHeartbeat s"
  "ss_lastFallbackAttempt (fst (evaluate s now p e)) = ss_lastFallbackAttempt s"
  "ss_initialized (fst (evaluate s now p e))"
  "ss_startedAt (fst (evaluate s now p e)) = (if ss_initialized s then ss_startedAt s else now)"
  "ss_lastFallbackError (fst (evaluate s now p e)) =
     (if ss_fallbackActive s \<and> \<not> stale_polling s now p then [] else ss_lastFallbackError s)"
  "ss_pollInterval (fst (evaluate s now p e)) = p"
  by (auto simp: evaluate_def stale_polling_def poll_reference_def Let_def)

lemmas evaluate_simps = evaluate_decision evaluate_state

lemma stale_polling_exact:
  assumes "0 \<le> p" and "p + emhttpPollMargin < 2 ^ 63"
  shows "stale_polling s now p \<longleftrightarrow> 0 < p \<and> p + emhttpPollMargin < time_Sub now (poll_reference s now)"
proof -
  have "int64_range (p + emhttpPollMargin)" using assms by (simp add: int64_range_def)
  then show ?thesis by (simp add: stale_polling_def dur_add_def wrap64_id)
qed

lemma time_Sub_greater: "0 \<le> d \<Longrightarrow> d < 2 ^ 63 - 1 \<Longrightarrow> d < time_Sub t u \<longleftrightarrow> d < t - u"
  by (auto simp: time_Sub_def)

subsection \<open>Properties\<close>

text \<open>
  C25: A polling interval read from \<^verbatim>\<open>var.ini\<close> is a non-negative whole number of seconds that fits
  a 64-bit duration, whatever the text of the file; otherwise the default of 30 seconds comes with
  an error.
\<close>

theorem readPollAttributes_range:
  "case readPollAttributes rd ini_Load path of
     (d, None) \<Rightarrow> \<exists>n. 0 \<le> n \<and> d = n * second \<and> int64_range d
   | (d, Some e) \<Rightarrow> d = 30 * second"
proof -
  have "parsePollAttributes ini_Load t = Inr d \<Longrightarrow> \<exists>n. 0 \<le> n \<and> d = n * second \<and> int64_range d" for t d
  proof -
    assume "parsePollAttributes ini_Load t = Inr d"
    then obtain n where n: "0 \<le> n" "n \<le> (2 ^ 63 - 1) div second" "d = n * second"
      using parsePollAttributes_InrD by blast
    then have "n * second \<le> 2 ^ 63 - 1" by simp
    with n show ?thesis by (auto simp: int64_range_def)
  qed
  then show ?thesis by (auto simp: readPollAttributes_def split: sum.split)
qed

text \<open>
  C24: The interval in force is always the last one that was read without an error, and the one the
  reader proposes (the default) as long as there has been none; an error never replaces a valid
  configuration.
\<close>

theorem effective_interval:
  "snd (effective (effective_after rds) rd) =
    (if snd rd = None \<or> valid_intervals rds = [] then rd else (last (valid_intervals rds), snd rd))"
  using effective_after_state [of rds] by (auto simp: effective_def split: prod.split)

text \<open>
  C20: As long as the polling interval plus the margin of 15 seconds fits a duration, direct SMART
  reads replace emhttpd exactly when polling is enabled and more than that sum has passed since the
  last heartbeat (or since the first evaluation when there was none); the transition flags mark
  exactly the changes, and a direct read is due on entry, when there was none yet, and then once per
  polling interval. This holds for all instants, also for differences that exceed a duration, such
  as the one to an attempt that was never made.
\<close>

theorem evaluate_source:
  fixes p :: duration and now :: time and s :: smartSourceState
  assumes "0 \<le> p" "p + 15 * second < 2 ^ 63 - 1"
  defines "fallback \<equiv> 0 < p \<and> p + 15 * second < now - poll_reference s now"
  shows "dec_source (snd (evaluate s now p e)) = (if fallback then diskSourceDirect else diskSourceEmhttpd) \<and>
    (dec_justEntered (snd (evaluate s now p e)) \<longleftrightarrow> fallback \<and> \<not> ss_fallbackActive s) \<and>
    (dec_justRecovered (snd (evaluate s now p e)) \<longleftrightarrow> \<not> fallback \<and> ss_fallbackActive s) \<and>
    (dec_directDue (snd (evaluate s now p e)) \<longleftrightarrow> fallback \<and>
      (\<not> ss_fallbackActive s \<or> ss_lastFallbackAttempt s = time_zero \<or> p \<le> now - ss_lastFallbackAttempt s)) \<and>
    ss_fallbackActive (fst (evaluate s now p e)) = fallback"
proof -
  have "stale_polling s now p = fallback"
    using stale_polling_exact [of p] assms(1,2) by (auto simp: fallback_def time_Sub_greater)
  moreover have "p \<le> time_Sub now u \<longleftrightarrow> p \<le> now - u" for u using assms(1,2) by (auto simp: time_Sub_def)
  ultimately show ?thesis by (simp add: evaluate_simps)
qed

definition example_now :: time where "example_now = 63900000000 * second"

definition example_source :: smartSourceState where
  "example_source = noteEmhttpPoll (fst (evaluate smartSourceState_zero example_now (30 * second) None)) (example_now + 10 * second)"

theorem evaluate_source_witness:
  "dec_source (snd (evaluate example_source (example_now + 56 * second) (30 * second) None)) = diskSourceDirect \<and>
   dec_directDue (snd (evaluate example_source (example_now + 56 * second) (30 * second) None)) \<and>
   dec_source (snd (evaluate example_source (example_now + 55 * second) (30 * second) None)) = diskSourceEmhttpd"
proof -
  have r: "poll_reference example_source now = example_now + 10 * second" "ss_lastFallbackAttempt example_source = 0"
      "\<not> ss_fallbackActive example_source" for now
    by (simp_all add: poll_reference_def example_source_def noteEmhttpPoll_def evaluate_simps
        smartSourceState_zero_def stale_polling_def dur_add_def wrap64_def time_Sub_def)
  show ?thesis
    using evaluate_source [where p = "30 * second" and now = "example_now + 56 * second" and s = example_source and e = None]
      evaluate_source [where p = "30 * second" and now = "example_now + 55 * second" and s = example_source and e = None]
    by (simp add: r)
qed

lemma stale_polling_overflow:
  assumes "int64_range p" "2 ^ 63 \<le> p + emhttpPollMargin" "poll_reference s now \<le> now"
  shows "stale_polling s now p"
proof -
  have "dur_add p emhttpPollMargin = p + emhttpPollMargin - 2 ^ 64"
  proof -
    have "wrap64 (p + emhttpPollMargin) = wrap64 (p + emhttpPollMargin - 2 ^ 64)"
      unfolding wrap64_def using mod_add_self2 [of "p + emhttpPollMargin - 2 ^ 64 + 2 ^ 63" "2 ^ 64"] by (simp add: algebra_simps)
    also have "\<dots> = p + emhttpPollMargin - 2 ^ 64"
      using assms(1,2) by (intro wrap64_id) (simp add: int64_range_def)
    finally show ?thesis by (simp only: dur_add_def)
  qed
  moreover have "0 \<le> time_Sub now (poll_reference s now)" using assms(3) by (simp add: time_Sub_def)
  ultimately show ?thesis using assms(1,2) by (simp add: stale_polling_def int64_range_def)
qed


definition example_var :: "string \<Rightarrow> ini_file result" where
  "example_var _ = Inr [\<lparr>sec_name = DefaultSection, sec_keys = [(''poll_attributes'', ''9223372036'')]\<rparr>]"


end
