(* ===== verification/Disk_Inventory.thy ===== *)
theory Disk_Inventory
  imports Disk_Policy Disk_Source "HOL-Library.Product_Lexorder"
begin

text \<open>
  The disk inventory (\<^verbatim>\<open>disk_inventory.go\<close>): the rows of \<^verbatim>\<open>disks.ini\<close> (assigned disks) and
  \<^verbatim>\<open>devs.ini\<close> (unassigned disks) merged into one list with a policy decision and a validation
  error per row, and the disks the collector watches.
\<close>

record unraidDisk =
  ud_id :: string
  ud_name :: string
  ud_device :: string
  ud_transport :: string
  ud_temperature :: string
  ud_rotational :: bool
  ud_spundown :: bool

datatype diskInventorySource = diskInventoryAssigned | diskInventoryUnassigned

record diskInventoryEntry =
  en_disk :: unraidDisk
  en_bus :: diskBus
  en_policy :: string
  en_source :: diskInventorySource
  en_selected :: bool
  en_validationError :: string

record diskPolicyRow =
  row_ID :: string
  row_Name :: string
  row_Device :: string
  row_Transport :: string
  row_Bus :: diskBus
  row_Policy :: string
  row_Selected :: bool
  row_Eligible :: bool
  row_ValidationError :: string

abbreviation en_id :: "diskInventoryEntry \<Rightarrow> string" where "en_id e \<equiv> ud_id (en_disk e)"
abbreviation en_device :: "diskInventoryEntry \<Rightarrow> string" where "en_device e \<equiv> ud_device (en_disk e)"
abbreviation en_name :: "diskInventoryEntry \<Rightarrow> string" where "en_name e \<equiv> ud_name (en_disk e)"

definition inventoryRowsFromEntries :: "diskInventoryEntry list \<Rightarrow> diskPolicyRow list" where
  "inventoryRowsFromEntries entries =
    map (\<lambda>e. \<lparr>row_ID = en_id e, row_Name = en_name e, row_Device = en_device e,
       row_Transport = ud_transport (en_disk e), row_Bus = en_bus e, row_Policy = en_policy e,
       row_Selected = en_selected e, row_Eligible = (en_validationError e = []),
       row_ValidationError = en_validationError e\<rparr>) entries"

subsection \<open>One section\<close>

definition diskTransport :: "ini_section \<Rightarrow> string" where
  "diskTransport sec = ToLower (TrimSpace (sec_Key sec ''transport''))"

definition parseBinaryDiskField :: "ini_section \<Rightarrow> string \<Rightarrow> bool \<times> go_error option" where
  "parseBinaryDiskField sec name =
    (let value = TrimSpace (sec_Key sec name) in
     if value = ''0'' then (False, None)
     else if value = ''1'' then (True, None)
     else (False, Some (errors_New (name @ '' must be 0 or 1, got '' @ quote value))))"

definition diskFromSection :: "ini_section \<Rightarrow> unraidDisk \<Rightarrow> unraidDisk \<times> string" where
  "diskFromSection sec disk =
    (case (parseBinaryDiskField sec ''rotational'', parseBinaryDiskField sec ''spundown'') of
       ((rotational, rotationalErr), (spundown, spundownErr)) \<Rightarrow>
         (disk\<lparr>ud_temperature := TrimSpace (sec_Key sec ''temp''), ud_rotational := rotational,
               ud_spundown := spundown\<rparr>,
          case rotationalErr of
            Some e \<Rightarrow> Error e
          | None \<Rightarrow> (case spundownErr of Some e \<Rightarrow> Error e | None \<Rightarrow> [])))"

definition diskValidationError :: "unraidDisk \<Rightarrow> string \<Rightarrow> string" where
  "diskValidationError disk thermalError =
    (if ud_id disk = [] then ''missing stable ID''
     else if maxUnraidDiskIDSize < length (ud_id disk)
     then ''stable ID is '' @ digits 10 (length (ud_id disk)) @ '' bytes; observed emhttpd limit is '' @
          digits 10 maxUnraidDiskIDSize
     else if ud_device disk = [] then ''missing or invalid device''
     else thermalError)"

text \<open>The fields both readers take from a section.\<close>

definition sec_disk :: "ini_section \<Rightarrow> unraidDisk" where
  "sec_disk sec =
    \<lparr>ud_id = TrimSpace (sec_Key sec ''id''), ud_name = TrimCut {CHR 0x22} (sec_name sec),
     ud_device = normalizeDiskDevice (sec_Key sec ''device''), ud_transport = diskTransport sec,
     ud_temperature = [], ud_rotational = False, ud_spundown = False\<rparr>"

definition sec_entry :: "sysfs \<Rightarrow> diskSelector \<Rightarrow> diskInventorySource \<Rightarrow> ini_section \<Rightarrow> diskInventoryEntry" where
  "sec_entry os sel src sec =
    (let base = sec_disk sec in
     case selector_evaluate os sel (ud_id base) (ud_name base) (ud_device base) of
       (bus, policy, selected) \<Rightarrow>
         (case diskFromSection sec base of
            (disk, thermalError) \<Rightarrow>
              \<lparr>en_disk = disk, en_bus = bus, en_policy = policy, en_source = src, en_selected = selected,
               en_validationError = diskValidationError disk thermalError\<rparr>))"

subsection \<open>The two files\<close>

definition not_present :: "ini_section \<Rightarrow> bool" where
  "not_present sec = Contains (ToUpper (TrimSpace (sec_Key sec ''status''))) ''_NP''"

fun assigned_loop ::
    "sysfs \<Rightarrow> diskSelector \<Rightarrow> string set \<Rightarrow> ini_file \<Rightarrow> diskInventoryEntry list result" where
  "assigned_loop os sel seenIDs [] = Inr []"
| "assigned_loop os sel seenIDs (sec # secs) =
    (if sec_name sec = DefaultSection \<or> not_present sec then assigned_loop os sel seenIDs secs
     else let did = ud_id (sec_disk sec) in
       if did \<noteq> [] \<and> did \<in> seenIDs
       then Inl (errors_New (''duplicate disk ID '' @ quote did @ '' in disks.ini''))
       else case assigned_loop os sel (if did \<noteq> [] then insert did seenIDs else seenIDs) secs of
         Inl e \<Rightarrow> Inl e
       | Inr entries \<Rightarrow> Inr (sec_entry os sel diskInventoryAssigned sec # entries))"

definition readAssignedEntries ::
    "(string \<Rightarrow> ini_file result) \<Rightarrow> sysfs \<Rightarrow> string \<Rightarrow> diskSelector \<Rightarrow> diskInventoryEntry list result" where
  "readAssignedEntries ini_Load os disksINIPath sel =
    (case ini_Load disksINIPath of
       Inl e \<Rightarrow> Inl e
     | Inr config \<Rightarrow>
         (case assigned_loop os sel {} config of
            Inl e \<Rightarrow> Inl e
          | Inr entries \<Rightarrow>
              if list_all (\<lambda>sec. sec_name sec = DefaultSection) config
              then Inl (errors_New ''disk inventory contains no sections'')
              else Inr entries))"

text \<open>\<open>idx\<close> is \<^verbatim>\<open>seenIDIndexes\<close>: the position of the entry of each ID.\<close>

fun unassigned_loop ::
    "sysfs \<Rightarrow> diskSelector \<Rightarrow> string set \<Rightarrow> string set \<Rightarrow> diskInventoryEntry list \<Rightarrow> (string \<rightharpoonup> nat) \<Rightarrow>
     ini_file \<Rightarrow> diskInventoryEntry list result" where
  "unassigned_loop os sel assignedIDs flashDevices entries idx [] = Inr entries"
| "unassigned_loop os sel assignedIDs flashDevices entries idx (sec # secs) =
    (let base = sec_disk sec; entry = sec_entry os sel diskInventoryUnassigned sec in
     if sec_name sec = DefaultSection
        \<or> (ud_id base \<noteq> [] \<and> ud_id base \<in> assignedIDs) \<or> ud_device base \<in> flashDevices
     then unassigned_loop os sel assignedIDs flashDevices entries idx secs
     else if ud_id base = []
     then unassigned_loop os sel assignedIDs flashDevices (entries @ [entry]) idx secs
     else case idx (ud_id base) of
       None \<Rightarrow>
         unassigned_loop os sel assignedIDs flashDevices (entries @ [entry])
           (idx(ud_id base \<mapsto> length entries)) secs
     | Some index \<Rightarrow>
         let previous = entries ! index in
         if en_device previous \<noteq> [] \<and> en_device entry \<noteq> []
         then Inl (errors_New (''duplicate disk ID '' @ quote (ud_id base) @ '' in devs.ini''))
         else if en_device previous = [] \<and> en_device entry \<noteq> []
         then unassigned_loop os sel assignedIDs flashDevices (entries[index := entry]) idx secs
         else unassigned_loop os sel assignedIDs flashDevices entries idx secs)"

definition readUnassignedEntries ::
    "(string \<Rightarrow> ini_file result) \<Rightarrow> sysfs \<Rightarrow> string \<Rightarrow> diskSelector \<Rightarrow> string set \<Rightarrow> string set \<Rightarrow>
     diskInventoryEntry list result" where
  "readUnassignedEntries ini_Load os devsINIPath sel assignedIDs flashDevices =
    (case ini_Load devsINIPath of
       Inl e \<Rightarrow> Inl e
     | Inr config \<Rightarrow> unassigned_loop os sel assignedIDs flashDevices [] Map.empty config)"

text \<open>
  The merged inventory. \<^verbatim>\<open>sort.Slice\<close> leaves the order of rows with equal name and ID open; here
  it is the order of the files.
\<close>

definition readDiskInventoryEntries ::
    "(string \<Rightarrow> ini_file result) \<Rightarrow> sysfs \<Rightarrow> string \<Rightarrow> string \<Rightarrow> diskSelector \<Rightarrow> diskInventoryEntry list result" where
  "readDiskInventoryEntries ini_Load os disksINIPath devsINIPath sel =
    (case readAssignedEntries ini_Load os disksINIPath sel of
       Inl e \<Rightarrow> Inl e
     | Inr assigned \<Rightarrow>
         let assignedIDs = set (filter (\<lambda>i. i \<noteq> []) (map en_id assigned));
             flashDevices = set (filter (\<lambda>d. d \<noteq> [])
               (map en_device (filter (\<lambda>e. EqualFold (en_name e) ''flash'') assigned)))
         in case readUnassignedEntries ini_Load os devsINIPath sel assignedIDs flashDevices of
              Inl e \<Rightarrow> Inl e
            | Inr unassigned \<Rightarrow> Inr (sort_key (\<lambda>e. (en_name e, en_id e)) (assigned @ unassigned)))"

fun selectedDisks :: "diskInventoryEntry list \<Rightarrow> unraidDisk list result" where
  "selectedDisks [] = Inr []"
| "selectedDisks (entry # entries) =
    (if \<not> en_selected entry \<or> (en_source entry = diskInventoryUnassigned \<and> en_device entry = [])
     then selectedDisks entries
     else if en_validationError entry \<noteq> []
     then Inl (errors_New
       ((if en_source entry = diskInventoryUnassigned then ''unassigned disk '' else ''active disk '') @
        quote (en_name entry) @ '': '' @ en_validationError entry))
     else case selectedDisks entries of
       Inl e \<Rightarrow> Inl e
     | Inr disks \<Rightarrow> Inr (en_disk entry # disks))"

definition readDiskInventory ::
    "(string \<Rightarrow> ini_file result) \<Rightarrow> sysfs \<Rightarrow> string \<Rightarrow> string \<Rightarrow> diskSelector \<Rightarrow> unraidDisk list result" where
  "readDiskInventory ini_Load os disksINIPath devsINIPath sel =
    (case readDiskInventoryEntries ini_Load os disksINIPath devsINIPath sel of
       Inl e \<Rightarrow> Inl e
     | Inr entries \<Rightarrow> selectedDisks entries)"

subsection \<open>Rows\<close>

lemma diskFromSection_fields:
  "ud_id (fst (diskFromSection sec d)) = ud_id d" "ud_name (fst (diskFromSection sec d)) = ud_name d"
  "ud_device (fst (diskFromSection sec d)) = ud_device d"
  by (simp_all add: diskFromSection_def split: prod.split)

lemma sec_entry_fields [simp]:
  "en_id (sec_entry os sel src sec) = ud_id (sec_disk sec)"
  "en_name (sec_entry os sel src sec) = ud_name (sec_disk sec)"
  "en_device (sec_entry os sel src sec) = ud_device (sec_disk sec)"
  "en_source (sec_entry os sel src sec) = src"
  using diskFromSection_fields [of sec "sec_disk sec"]
  by (auto simp: sec_entry_def Let_def split: prod.split)

text \<open>A row that is eligible for the collector has a usable ID, a device name and readable fields.\<close>

definition device_name :: "string \<Rightarrow> bool" where
  "device_name d = (d \<noteq> [] \<and> d \<noteq> ''.'' \<and> d \<noteq> ''..'' \<and> slash \<notin> set d)"

lemma normalizeDiskDevice_name: "normalizeDiskDevice d = [] \<or> device_name (normalizeDiskDevice d)"
  by (auto simp: normalizeDiskDevice_def device_name_def Let_def)

definition entry_ok :: "diskInventoryEntry \<Rightarrow> bool" where
  "entry_ok e =
    ((en_validationError e = [] \<longrightarrow> valid_id (en_id e) \<and> en_device e \<noteq> []) \<and>
     (en_device e \<noteq> [] \<longrightarrow> device_name (en_device e)) \<and>
     (en_selected e \<longrightarrow> \<not> EqualFold (en_name e) ''flash'' \<and> en_policy e \<noteq> diskPolicyExclude))"

lemma sec_entry_ok: "entry_ok (sec_entry os sel src sec)"
proof -
  obtain bus policy selected where ev: "selector_evaluate os sel (ud_id (sec_disk sec)) (ud_name (sec_disk sec))
      (ud_device (sec_disk sec)) = (bus, policy, selected)"
    by (metis prod_cases3)
  obtain disk thermal where ds: "diskFromSection sec (sec_disk sec) = (disk, thermal)"
    by (cases "diskFromSection sec (sec_disk sec)")
  have eq: "sec_entry os sel src sec = \<lparr>en_disk = disk, en_bus = bus, en_policy = policy, en_source = src,
      en_selected = selected, en_validationError = diskValidationError disk thermal\<rparr>"
    by (simp add: sec_entry_def ev ds)
  have d: "ud_id disk = ud_id (sec_disk sec)" "ud_name disk = ud_name (sec_disk sec)"
      "ud_device disk = ud_device (sec_disk sec)"
    using diskFromSection_fields [of sec "sec_disk sec"] ds by simp_all
  have sel: "selected \<Longrightarrow> \<not> EqualFold (ud_name disk) ''flash'' \<and> policy \<noteq> ''exclude''"
    using ev d by (auto simp: selector_evaluate_def Let_def split: if_splits option.splits)
  have val: "diskValidationError disk thermal = [] \<Longrightarrow> valid_id (ud_id disk) \<and> ud_device disk \<noteq> []"
    by (auto simp: diskValidationError_def valid_id_def split: if_splits)
  have dev: "ud_device disk \<noteq> [] \<Longrightarrow> device_name (ud_device disk)"
    using normalizeDiskDevice_name d by (auto simp: sec_disk_def)
  show ?thesis using sel val dev by (simp add: entry_ok_def eq)
qed

subsection \<open>The merged inventory\<close>

definition ids :: "diskInventoryEntry list \<Rightarrow> string list" where
  "ids es = filter (\<lambda>i. i \<noteq> []) (map en_id es)"

lemma ids_simps [simp]: "ids [] = []" "ids (es @ fs) = ids es @ ids fs"
  "ids (e # es) = (if en_id e = [] then ids es else en_id e # ids es)"
  by (simp_all add: ids_def)

lemma assigned_loop_ok:
  "assigned_loop os sel seen secs = Inr es \<Longrightarrow>
   list_all entry_ok es \<and> distinct (ids es) \<and> set (ids es) \<inter> seen = {} \<and>
   list_all (\<lambda>e. en_source e = diskInventoryAssigned) es"
proof (induction os sel seen secs arbitrary: es rule: assigned_loop.induct)
  case (2 os sel seen sec secs)
  show ?case
  proof (cases "sec_name sec = DefaultSection \<or> not_present sec")
    case True
    then show ?thesis using 2 by simp
  next
    case False
    let ?id = "ud_id (sec_disk sec)"
    let ?seen = "if ?id \<noteq> [] then insert ?id seen else seen"
    obtain fs where fs: "assigned_loop os sel ?seen secs = Inr fs"
        "es = sec_entry os sel diskInventoryAssigned sec # fs" and new: "?id = [] \<or> ?id \<notin> seen"
      using 2(3) False by (auto simp: Let_def split: if_splits sum.splits)
    from 2(2) [OF False refl] new fs(1) have "list_all entry_ok fs \<and> distinct (ids fs) \<and>
        set (ids fs) \<inter> ?seen = {} \<and> list_all (\<lambda>e. en_source e = diskInventoryAssigned) fs"
      by blast
    then show ?thesis using fs(2) new sec_entry_ok by auto
  qed
qed simp

text \<open>The index of the unassigned loop points at the entry of each ID.\<close>

definition idx_ok :: "diskInventoryEntry list \<Rightarrow> (string \<rightharpoonup> nat) \<Rightarrow> bool" where
  "idx_ok es idx =
    ((\<forall>i n. idx i = Some n \<longrightarrow> i \<noteq> [] \<and> n < length es \<and> en_id (es ! n) = i) \<and>
     (\<forall>n < length es. en_id (es ! n) \<noteq> [] \<longrightarrow> idx (en_id (es ! n)) = Some n))"

lemma idx_ok_Nil [simp]: "idx_ok [] Map.empty"
  by (simp add: idx_ok_def)

lemma idx_ok_append_anon: "idx_ok es idx \<Longrightarrow> en_id e = [] \<Longrightarrow> idx_ok (es @ [e]) idx"
  by (auto simp: idx_ok_def nth_append less_Suc_eq)

lemma idx_ok_append: "idx_ok es idx \<Longrightarrow> en_id e = i \<Longrightarrow> i \<noteq> [] \<Longrightarrow> idx i = None \<Longrightarrow>
  idx_ok (es @ [e]) (idx(i \<mapsto> length es))"
proof -
  assume a: "idx_ok es idx" "en_id e = i" "i \<noteq> []" "idx i = None"
  have look: "idx j = Some n \<Longrightarrow> j \<noteq> [] \<and> n < length es \<and> en_id (es ! n) = j" for j n
    using a(1) by (simp add: idx_ok_def)
  have find: "n < length es \<Longrightarrow> en_id (es ! n) \<noteq> [] \<Longrightarrow> idx (en_id (es ! n)) = Some n" for n
    using a(1) by (simp add: idx_ok_def)
  have "(idx(i \<mapsto> length es)) j = Some n \<Longrightarrow> j \<noteq> [] \<and> n < length (es @ [e]) \<and> en_id ((es @ [e]) ! n) = j" for j n
    using look [of j n] a by (cases "j = i") (auto simp: nth_append)
  moreover have "(idx(i \<mapsto> length es)) (en_id ((es @ [e]) ! n)) = Some n"
    if n: "n < length (es @ [e])" "en_id ((es @ [e]) ! n) \<noteq> []" for n
  proof (cases "n < length es")
    case True
    then show ?thesis using find [of n] a(4) n by (auto simp: nth_append)
  next
    case False
    then have "n = length es" using n(1) by simp
    then show ?thesis using a(2) by simp
  qed
  ultimately show ?thesis by (simp only: idx_ok_def) blast
qed

lemma idx_ok_update: "idx_ok es idx \<Longrightarrow> idx (en_id e) = Some n \<Longrightarrow> idx_ok (es[n := e]) idx"
proof -
  assume a: "idx_ok es idx" "idx (en_id e) = Some n"
  then have "n < length es" "en_id (es ! n) = en_id e" by (auto simp: idx_ok_def)
  then have "map en_id (es[n := e]) = map en_id es"
    by (metis list_update_id map_update)
  then have "en_id (es[n := e] ! m) = en_id (es ! m)" if "m < length es" for m
    using that by (metis length_list_update nth_map)
  with a show ?thesis by (auto simp: idx_ok_def)
qed

lemma idx_ok_distinct: "idx_ok es idx \<Longrightarrow> distinct (ids es)"
proof -
  assume ok: "idx_ok es idx"
  have "inj_on (\<lambda>n. en_id (es ! n)) {n. n < length es \<and> en_id (es ! n) \<noteq> []}"
    using ok by (intro inj_onI) (simp add: idx_ok_def, metis option.inject)
  then show ?thesis
  proof (induction es rule: rev_induct)
    case (snoc e es)
    have "inj_on (\<lambda>n. en_id (es ! n)) {n. n < length es \<and> en_id (es ! n) \<noteq> []}"
      using snoc.prems by (auto simp: inj_on_def nth_append)
    moreover have "en_id e \<notin> set (ids es)" if "en_id e \<noteq> []"
    proof
      assume "en_id e \<in> set (ids es)"
      then obtain n where "n < length es" "en_id (es ! n) = en_id e"
        by (auto simp: ids_def in_set_conv_nth)
      then have "n = length es"
        using inj_onD [OF snoc.prems, of n "length es"] that by (simp add: nth_append)
      then show False using \<open>n < length es\<close> by simp
    qed
    ultimately show ?case using snoc.IH by auto
  qed simp
qed

definition unassigned_ok :: "string set \<Rightarrow> string set \<Rightarrow> diskInventoryEntry list \<Rightarrow> bool" where
  "unassigned_ok assignedIDs flashDevices es =
    list_all (\<lambda>e. entry_ok e \<and> en_source e = diskInventoryUnassigned \<and>
      (en_id e = [] \<or> en_id e \<notin> assignedIDs) \<and> en_device e \<notin> flashDevices) es"

lemma unassigned_loop_ok:
  "unassigned_loop os sel A F es idx secs = Inr fs \<Longrightarrow> idx_ok es idx \<Longrightarrow> unassigned_ok A F es \<Longrightarrow>
   unassigned_ok A F fs \<and> distinct (ids fs)"
proof (induction os sel A F es idx secs arbitrary: fs rule: unassigned_loop.induct)
  case (1 os sel A F es idx)
  then show ?case using idx_ok_distinct by simp
next
  case (2 os sel A F es idx sec secs)
  let ?b = "sec_disk sec" and ?e = "sec_entry os sel diskInventoryUnassigned sec"
  let ?skip = "sec_name sec = DefaultSection \<or> (ud_id ?b \<noteq> [] \<and> ud_id ?b \<in> A) \<or> ud_device ?b \<in> F"
  have new: "\<not> ?skip \<Longrightarrow> unassigned_ok A F xs \<Longrightarrow> unassigned_ok A F (xs @ [?e]) \<and> unassigned_ok A F (xs[n := ?e])" for n xs
    using sec_entry_ok [of os sel diskInventoryUnassigned sec] set_update_subset_insert [of xs n ?e]
    by (auto simp: unassigned_ok_def list_all_iff)
  consider "?skip" | "\<not> ?skip" "ud_id ?b = []" | "\<not> ?skip" "ud_id ?b \<noteq> []" "idx (ud_id ?b) = None"
    | n where "\<not> ?skip" "ud_id ?b \<noteq> []" "idx (ud_id ?b) = Some n"
    by (cases "idx (ud_id ?b)") auto
  then show ?case
  proof cases
    case 1
    then show ?thesis using 2 by (simp add: Let_def)
  next
    case a: 2
    have "unassigned_loop os sel A F (es @ [?e]) idx secs = Inr fs" using 2(6) a by (simp add: Let_def)
    then show ?thesis
      using 2(2) [OF refl refl a(1)] a new [OF a(1) 2(8)] idx_ok_append_anon [OF 2(7), of ?e] by simp
  next
    case a: 3
    have "unassigned_loop os sel A F (es @ [?e]) (idx(ud_id ?b \<mapsto> length es)) secs = Inr fs"
      using 2(6) a by (simp add: Let_def)
    then show ?thesis
      using 2(3) [OF refl refl a] new [OF a(1) 2(8)] idx_ok_append [OF 2(7) _ a(2,3), of ?e]
      by (simp add: fun_upd_def)
  next
    case (4 n)
    let ?up = "en_device (es ! n) = [] \<and> ud_device ?b \<noteq> []"
    have "unassigned_loop os sel A F (if ?up then es[n := ?e] else es) idx secs = Inr fs"
      using 2(6) 4 by (auto simp: Let_def split: if_splits)
    then show ?thesis
      using 2(4,5) [OF refl refl 4 refl] new [OF 4(1) 2(8)] 2(8) idx_ok_update [OF 2(7), of ?e n] 4 2(6,7)
      by (auto simp: Let_def split: if_splits)
  qed
qed

text \<open>
  What every inventory satisfies: its rows are well-formed and in order, no two of them share a
  stable ID, and no unassigned row shows an assigned disk or the device of the flash drive.
\<close>

definition inventory_ok :: "diskInventoryEntry list \<Rightarrow> bool" where
  "inventory_ok es =
    (list_all entry_ok es \<and> distinct (ids es) \<and>
     sorted (map (\<lambda>e. (en_name e, en_id e)) es) \<and>
     (\<forall>f \<in> set es. \<forall>u \<in> set es. en_source f = diskInventoryAssigned \<longrightarrow> EqualFold (en_name f) ''flash'' \<longrightarrow>
        en_source u = diskInventoryUnassigned \<longrightarrow> en_device f \<noteq> [] \<longrightarrow> en_device u \<noteq> en_device f))"

lemma distinct_ids_mset: "mset es = mset fs \<Longrightarrow> distinct (ids es) = distinct (ids fs)"
  unfolding ids_def by (metis mset_eq_imp_distinct_iff mset_filter mset_map)

lemma readDiskInventoryEntries_ok:
  assumes "readDiskInventoryEntries ini_Load os disksINI devsINI sel = Inr es"
  shows "inventory_ok es"
proof -
  obtain as where as: "readAssignedEntries ini_Load os disksINI sel = Inr as"
    using assms by (auto simp: readDiskInventoryEntries_def split: sum.splits)
  define A where "A = set (filter (\<lambda>i. i \<noteq> []) (map en_id as))"
  define F where "F = set (filter (\<lambda>d. d \<noteq> []) (map en_device (filter (\<lambda>e. EqualFold (en_name e) ''flash'') as)))"
  obtain us where us: "readUnassignedEntries ini_Load os devsINI sel A F = Inr us"
    and es: "es = sort_key (\<lambda>e. (en_name e, en_id e)) (as @ us)"
    using assms as by (auto simp: readDiskInventoryEntries_def A_def F_def Let_def split: sum.splits)
  obtain secs where "assigned_loop os sel {} secs = Inr as"
    using as by (auto simp: readAssignedEntries_def split: sum.splits if_splits)
  note a = assigned_loop_ok [OF this]
  obtain secs2 where "unassigned_loop os sel A F [] Map.empty secs2 = Inr us"
    using us by (auto simp: readUnassignedEntries_def split: sum.splits)
  note u = unassigned_loop_ok [OF this idx_ok_Nil]
  have u1: "unassigned_ok A F us" and u2: "distinct (ids us)"
    using u by (simp_all add: unassigned_ok_def)
  have "set (ids as) \<inter> set (ids us) = {}"
    using u1 by (fastforce simp: unassigned_ok_def list_all_iff ids_def A_def)
  then have "distinct (ids (as @ us))" using a u2 by simp
  then have "distinct (ids es)" using es distinct_ids_mset [of es "as @ us"] by simp
  moreover have "en_device u \<noteq> en_device f"
    if "f \<in> set es" "u \<in> set es" "en_source f = diskInventoryAssigned" "EqualFold (en_name f) ''flash''"
      "en_source u = diskInventoryUnassigned" "en_device f \<noteq> []" for f u
  proof -
    have "f \<in> set as" "u \<in> set us" using that es a u1 by (auto simp: unassigned_ok_def list_all_iff)
    then have "en_device f \<in> F" "en_device u \<notin> F"
      using that u1 by (auto simp: F_def unassigned_ok_def list_all_iff)
    then show ?thesis by auto
  qed
  moreover have "list_all entry_ok es" using a u1 es by (auto simp: unassigned_ok_def list_all_iff)
  moreover have "sorted (map (\<lambda>e. (en_name e, en_id e)) es)" using es by (simp add: sorted_sort_key)
  ultimately show ?thesis unfolding inventory_ok_def by blast
qed

subsection \<open>The watched disks\<close>

text \<open>The rows the collector watches.\<close>

definition watched :: "diskInventoryEntry \<Rightarrow> bool" where
  "watched e = (en_selected e \<and> \<not> (en_source e = diskInventoryUnassigned \<and> en_device e = []))"

lemma selectedDisks_eq:
  "selectedDisks es =
    (case find (\<lambda>e. watched e \<and> en_validationError e \<noteq> []) es of
       None \<Rightarrow> Inr (map en_disk (filter watched es))
     | Some e \<Rightarrow> Inl (errors_New
         ((if en_source e = diskInventoryUnassigned then ''unassigned disk '' else ''active disk '') @
          quote (en_name e) @ '': '' @ en_validationError e)))"
  by (induction es) (auto simp: watched_def [abs_def] split: option.splits)

definition watched_disk :: "unraidDisk \<Rightarrow> bool" where
  "watched_disk d = (valid_id (ud_id d) \<and> device_name (ud_device d) \<and> \<not> EqualFold (ud_name d) ''flash'')"

lemma selectedDisks_ok:
  assumes "selectedDisks es = Inr ds" "inventory_ok es"
  shows "list_all watched_disk ds \<and> distinct (map ud_id ds)"
proof -
  have none: "find (\<lambda>e. watched e \<and> en_validationError e \<noteq> []) es = None"
    and ds: "ds = map en_disk (filter watched es)"
    using assms(1) by (auto simp: selectedDisks_eq split: option.splits)
  have ok: "entry_ok e \<and> en_validationError e = [] \<and> en_selected e" if "e \<in> set (filter watched es)" for e
    using that none assms(2) by (auto simp: find_None_iff inventory_ok_def list_all_iff watched_def)
  then have w: "watched_disk (en_disk e)" if "e \<in> set (filter watched es)" for e
    using that by (auto simp: entry_ok_def watched_disk_def)
  have "map ud_id ds = ids (filter watched es)"
    using w by (auto simp: ds ids_def filter_id_conv watched_disk_def valid_id_def comp_def)
  moreover have "distinct (ids (filter watched es))"
  proof -
    have ids: "ids xs = map en_id (filter (\<lambda>e. en_id e \<noteq> []) xs)" for xs
      by (simp add: ids_def filter_map comp_def)
    have "ids (filter watched es) = map en_id (filter watched (filter (\<lambda>e. en_id e \<noteq> []) es))"
      by (simp add: ids conj_commute)
    then show ?thesis using assms(2) distinct_map_filter unfolding inventory_ok_def ids by metis
  qed
  ultimately show ?thesis using w by (auto simp: ds list_all_iff)
qed

subsection \<open>No disk is lost\<close>

definition shows_disk :: "diskInventoryEntry list \<Rightarrow> unraidDisk \<Rightarrow> bool" where
  "shows_disk es d =
    (\<exists>e \<in> set es. en_id e = ud_id d \<and> (ud_device d \<noteq> [] \<longrightarrow> en_device e = ud_device d))"

lemma assigned_loop_shows:
  "assigned_loop os sel seen secs = Inr es \<Longrightarrow> sec \<in> set secs \<Longrightarrow> sec_name sec \<noteq> DefaultSection \<Longrightarrow>
   \<not> not_present sec \<Longrightarrow> sec_entry os sel diskInventoryAssigned sec \<in> set es"
  by (induction os sel seen secs arbitrary: es rule: assigned_loop.induct)
    (auto simp: Let_def split: if_splits sum.splits)

definition shadowed :: "string set \<Rightarrow> string set \<Rightarrow> ini_section \<Rightarrow> bool" where
  "shadowed A F sec = (sec_name sec = DefaultSection \<or>
    (ud_id (sec_disk sec) \<noteq> [] \<and> ud_id (sec_disk sec) \<in> A) \<or> ud_device (sec_disk sec) \<in> F)"

lemma shows_append: "shows_disk es d \<Longrightarrow> shows_disk (es @ fs) d"
  by (auto simp: shows_disk_def)

lemma shows_update:
  assumes "shows_disk es d" "n < length es" "en_id (es ! n) = en_id e" "en_device (es ! n) = []"
  shows "shows_disk (es[n := e]) d"
proof -
  obtain m where m: "m < length es" "en_id (es ! m) = ud_id d" "ud_device d \<noteq> [] \<longrightarrow> en_device (es ! m) = ud_device d"
    using assms(1) by (auto simp: shows_disk_def in_set_conv_nth)
  have "es[n := e] ! m \<in> set (es[n := e])" using m(1) by simp
  moreover have "en_id (es[n := e] ! m) = ud_id d"
    "ud_device d \<noteq> [] \<longrightarrow> en_device (es[n := e] ! m) = ud_device d"
    using m assms(2-4) by (cases "m = n"; auto)+
  ultimately show ?thesis unfolding shows_disk_def by blast
qed

lemma unassigned_loop_shows:
  "unassigned_loop os sel A F es idx secs = Inr fs \<Longrightarrow> idx_ok es idx \<Longrightarrow>
   (\<forall>d. shows_disk es d \<longrightarrow> shows_disk fs d) \<and>
   (\<forall>sec \<in> set secs. \<not> shadowed A F sec \<longrightarrow> shows_disk fs (sec_disk sec))"
proof (induction os sel A F es idx secs arbitrary: fs rule: unassigned_loop.induct)
  case (1 os sel A F es idx)
  then show ?case by simp
next
  case (2 os sel A F es idx sec secs)
  let ?b = "sec_disk sec" and ?e = "sec_entry os sel diskInventoryUnassigned sec"
  have self: "shows_disk (es @ [?e]) ?b" by (auto simp: shows_disk_def)
  consider "shadowed A F sec" | "\<not> shadowed A F sec" "ud_id ?b = []"
    | "\<not> shadowed A F sec" "ud_id ?b \<noteq> []" "idx (ud_id ?b) = None"
    | n where "\<not> shadowed A F sec" "ud_id ?b \<noteq> []" "idx (ud_id ?b) = Some n"
    by (cases "idx (ud_id ?b)") auto
  then show ?case
  proof cases
    case 1
    then show ?thesis using 2(1) [OF refl refl] 2(6,7) by (auto simp: Let_def shadowed_def)
  next
    case a: 2
    have "unassigned_loop os sel A F (es @ [?e]) idx secs = Inr fs" using 2(6) a by (simp add: Let_def shadowed_def)
    from 2(2) [OF refl refl a(1)[unfolded shadowed_def] a(2) this idx_ok_append_anon [OF 2(7)]] a self shows_append
    show ?thesis by auto
  next
    case a: 3
    have l: "unassigned_loop os sel A F (es @ [?e]) (idx(ud_id ?b \<mapsto> length es)) secs = Inr fs"
      using 2(6) a by (simp add: Let_def shadowed_def)
    have ok: "idx_ok (es @ [?e]) (idx(ud_id ?b \<mapsto> length es))" using idx_ok_append [OF 2(7) _ a(2,3), of ?e] by simp
    from 2(3) [OF refl refl a(1)[unfolded shadowed_def] a(2,3)] l ok self shows_append
    show ?thesis by (auto simp: fun_upd_def)
  next
    case a: (4 n)
    have n: "n < length es" "en_id (es ! n) = en_id ?e" using 2(7) a(3) by (auto simp: idx_ok_def)
    show ?thesis
    proof (cases "en_device (es ! n) = [] \<and> ud_device ?b \<noteq> []")
      case True
      have l: "unassigned_loop os sel A F (es[n := ?e]) idx secs = Inr fs"
        using 2(6) a True by (simp add: Let_def shadowed_def)
      have "shows_disk (es[n := ?e]) ?b"
        using n(1) by (auto simp: shows_disk_def intro!: bexI [of _ ?e] set_update_memI)
      moreover have "idx_ok (es[n := ?e]) idx" using idx_ok_update [OF 2(7), of ?e n] a(3) by simp
      ultimately show ?thesis
        using 2(4) [OF refl refl a(1)[unfolded shadowed_def] a(2,3) refl] True l shows_update [OF _ n] by auto
    next
      case False
      have l: "unassigned_loop os sel A F es idx secs = Inr fs" and d: "ud_device ?b = []"
        using 2(6) a False by (auto simp: Let_def shadowed_def split: if_splits)
      have "shows_disk es ?b" unfolding shows_disk_def
        using n d by (intro bexI [of _ "es ! n"]) auto
      then show ?thesis
        using 2(5) [OF refl refl a(1)[unfolded shadowed_def] a(2,3) refl] False d l 2(7) by auto
    qed
  qed
qed

definition assigned_ids :: "diskInventoryEntry list \<Rightarrow> string set" where
  "assigned_ids es =
    set (map en_id (filter (\<lambda>e. en_source e = diskInventoryAssigned \<and> en_id e \<noteq> []) es))"

definition flash_devices :: "diskInventoryEntry list \<Rightarrow> string set" where
  "flash_devices es =
    set (map en_device (filter (\<lambda>e. en_source e = diskInventoryAssigned \<and> EqualFold (en_name e) ''flash'' \<and>
      en_device e \<noteq> []) es))"

text \<open>The two files behind an inventory.\<close>

lemma readDiskInventoryEntries_parts:
  assumes "readDiskInventoryEntries ini_Load os disksINI devsINI sel = Inr es"
  obtains asecs usecs as us where "ini_Load disksINI = Inr asecs" "ini_Load devsINI = Inr usecs"
    "assigned_loop os sel {} asecs = Inr as"
    "unassigned_loop os sel (assigned_ids es) (flash_devices es) [] Map.empty usecs = Inr us"
    "set es = set as \<union> set us"
proof -
  obtain as where as: "readAssignedEntries ini_Load os disksINI sel = Inr as"
    using assms by (auto simp: readDiskInventoryEntries_def split: sum.splits)
  define A where "A = set (filter (\<lambda>i. i \<noteq> []) (map en_id as))"
  define F where "F = set (filter (\<lambda>d. d \<noteq> []) (map en_device (filter (\<lambda>e. EqualFold (en_name e) ''flash'') as)))"
  obtain us where us: "readUnassignedEntries ini_Load os devsINI sel A F = Inr us"
    and es: "es = sort_key (\<lambda>e. (en_name e, en_id e)) (as @ us)"
    using assms as by (auto simp: readDiskInventoryEntries_def A_def F_def Let_def split: sum.splits)
  obtain asecs where a: "ini_Load disksINI = Inr asecs" "assigned_loop os sel {} asecs = Inr as"
    using as by (auto simp: readAssignedEntries_def split: sum.splits if_splits)
  obtain usecs where u: "ini_Load devsINI = Inr usecs" "unassigned_loop os sel A F [] Map.empty usecs = Inr us"
    using us by (auto simp: readUnassignedEntries_def split: sum.splits)
  have "\<forall>e \<in> set as. en_source e = diskInventoryAssigned" using assigned_loop_ok [OF a(2)] by (simp add: list_all_iff)
  moreover have "\<forall>e \<in> set us. en_source e = diskInventoryUnassigned"
    using unassigned_loop_ok [OF u(2) idx_ok_Nil] by (simp add: unassigned_ok_def list_all_iff)
  ultimately have "assigned_ids es = A" "flash_devices es = F"
    using es by (auto simp: assigned_ids_def flash_devices_def A_def F_def)
  then show ?thesis using that [OF a(1) u(1) a(2)] u(2) es by simp
qed

subsection \<open>Properties\<close>


text \<open>
  C18: No disk is lost between the files and the inventory: every section of \<^verbatim>\<open>disks.ini\<close> with a
  physical disk and every section of \<^verbatim>\<open>devs.ini\<close> that neither repeats the ID of an assigned disk nor
  names the device of the flash drive is shown by a row with its ID, and when the section names a device, with that device, even
  if an incomplete copy of the same disk comes first or last in the file.
\<close>

theorem inventory_complete:
  assumes "readDiskInventoryEntries ini_Load os disksINI devsINI sel = Inr es"
    and "ini_Load disksINI = Inr asecs" and "ini_Load devsINI = Inr usecs"
  shows "(\<forall>sec \<in> set asecs. sec_name sec \<noteq> DefaultSection \<and> \<not> not_present sec \<longrightarrow> shows_disk es (sec_disk sec)) \<and>
    (\<forall>sec \<in> set usecs. \<not> shadowed (assigned_ids es) (flash_devices es) sec \<longrightarrow> shows_disk es (sec_disk sec))"
proof -
  obtain as us where p: "assigned_loop os sel {} asecs = Inr as"
      "unassigned_loop os sel (assigned_ids es) (flash_devices es) [] Map.empty usecs = Inr us"
      "set es = set as \<union> set us"
    using readDiskInventoryEntries_parts [OF assms(1)] assms(2,3) by (metis Inr_inject)
  have "shows_disk es (sec_disk sec)"
    if "sec \<in> set asecs" "sec_name sec \<noteq> DefaultSection" "\<not> not_present sec" for sec
    unfolding shows_disk_def
    using assigned_loop_shows [OF p(1) that] p(3) by (intro bexI [of _ "sec_entry os sel diskInventoryAssigned sec"]) auto
  moreover have "shows_disk us d \<Longrightarrow> shows_disk es d" for d using p(3) by (auto simp: shows_disk_def)
  ultimately show ?thesis using unassigned_loop_shows [OF p(2) idx_ok_Nil] by blast
qed

text \<open>
  C21: The disks handed to the collector have distinct, valid stable IDs and plain device names, and
  the flash drive is never among them.
\<close>

theorem watched_disks_ok:
  assumes "readDiskInventory ini_Load os disksINI devsINI sel = Inr ds"
  shows "list_all watched_disk ds \<and> distinct (map ud_id ds)"
proof -
  obtain es where "readDiskInventoryEntries ini_Load os disksINI devsINI sel = Inr es" "selectedDisks es = Inr ds"
    using assms by (auto simp: readDiskInventory_def split: sum.splits)
  then show ?thesis using selectedDisks_ok readDiskInventoryEntries_ok by blast
qed

text \<open>
  A small system: the flash drive and one data disk are assigned, and \<^verbatim>\<open>devs.ini\<close> holds an
  incomplete copy of an unassigned disk before the complete one.
\<close>

definition example_section :: "string \<Rightarrow> string \<Rightarrow> string \<Rightarrow> ini_section" where
  "example_section name did device =
    \<lparr>sec_name = name, sec_keys = [(''id'', did), (''device'', device), (''transport'', ''ata''),
       (''rotational'', ''1''), (''spundown'', ''0''), (''temp'', ''31'')]\<rparr>"

definition example_ini :: "string \<Rightarrow> ini_file result" where
  "example_ini path =
    (if path = ''disks.ini''
     then Inr [example_section ''flash'' ''USB-0'' ''sda'', example_section ''disk1'' ''WDC-1'' ''sdb'']
     else Inr [example_section ''dev1'' ''WDC-2'' [], example_section ''dev1'' ''WDC-2'' ''sdc''])"

definition example_selector :: diskSelector where
  "example_selector = \<lparr>sel_sysBlockRoot = [], sel_policies = []\<rparr>"

definition example_entries :: "diskInventoryEntry list" where
  "example_entries =
    sort_key (\<lambda>e. (en_name e, en_id e))
      [sec_entry example_sysfs example_selector diskInventoryAssigned (example_section ''flash'' ''USB-0'' ''sda''),
       sec_entry example_sysfs example_selector diskInventoryAssigned (example_section ''disk1'' ''WDC-1'' ''sdb''),
       sec_entry example_sysfs example_selector diskInventoryUnassigned (example_section ''dev1'' ''WDC-2'' ''sdc'')]"

lemma example_read:
  "readDiskInventoryEntries example_ini example_sysfs ''disks.ini'' ''devs.ini'' example_selector = Inr example_entries"
  by code_simp


theorem inventory_complete_witness:
  "shows_disk example_entries (sec_disk (example_section ''dev1'' ''WDC-2'' ''sdc'')) \<and>
   shows_disk example_entries (sec_disk (example_section ''disk1'' ''WDC-1'' ''sdb''))"
proof -
  have d: "sec_name (example_section ''disk1'' ''WDC-1'' ''sdb'') \<noteq> DefaultSection \<and>
      \<not> not_present (example_section ''disk1'' ''WDC-1'' ''sdb'')" by code_simp
  have ids: "assigned_ids example_entries = {''WDC-1'', ''USB-0''}" "flash_devices example_entries = {''sda''}"
    by code_simp+
  have s: "\<not> shadowed {''WDC-1'', ''USB-0''} {''sda''} (example_section ''dev1'' ''WDC-2'' ''sdc'')" by code_simp
  have f: "example_ini ''disks.ini'' = Inr [example_section ''flash'' ''USB-0'' ''sda'', example_section ''disk1'' ''WDC-1'' ''sdb'']"
    "example_ini ''devs.ini'' = Inr [example_section ''dev1'' ''WDC-2'' [], example_section ''dev1'' ''WDC-2'' ''sdc'']"
    by (simp_all add: example_ini_def)
  show ?thesis using inventory_complete [OF example_read f] d s unfolding ids by simp
qed

theorem watched_disks_ok_witness:
  "list_all watched_disk (map en_disk (take 2 example_entries)) \<and> distinct (map ud_id (map en_disk (take 2 example_entries)))"
proof -
  have "readDiskInventory example_ini example_sysfs ''disks.ini'' ''devs.ini'' example_selector =
      Inr (map en_disk (take 2 example_entries))" by code_simp
  then show ?thesis by (rule watched_disks_ok)
qed

end
