(* ===== verification/Disk_State.thy ===== *)
theory Disk_State
  imports Disk_Inventory
begin

text \<open>
  The thermal state of every watched disk (\<^verbatim>\<open>disk_state.go\<close>): observations made from the inventory,
  and the tracker that turns them into readings. A standby disk reads a synthetic 0; a disk that
  leaves standby may keep that value for a bounded time until its first fresh sample; any other
  disk without a sample is unavailable.
\<close>

datatype diskThermalState =
    diskThermalUnavailable | diskThermalValid | diskThermalStandby | diskThermalWaking

record diskState =
  ds_thermalState :: diskThermalState
  ds_wakeStartedAt :: time
  ds_lastValidAt :: time
  ds_lastSource :: diskTemperatureSource

definition diskState_zero :: diskState where
  "diskState_zero =
    \<lparr>ds_thermalState = diskThermalUnavailable, ds_wakeStartedAt = time_zero, ds_lastValidAt = time_zero,
     ds_lastSource = diskSourceNone\<rparr>"

type_synonym diskStateTracker = "string \<rightharpoonup> diskState"

record diskObservation =
  ob_disk :: unraidDisk
  ob_temperature :: float64
  ob_standby :: bool
  ob_err :: "go_error option"
  ob_source :: diskTemperatureSource

definition parseEmhttpdTemperature :: "string \<Rightarrow> float64 \<times> go_error option" where
  "parseEmhttpdTemperature raw =
    (if raw = [] \<or> raw = ''*'' then (Fin 0, Some (errors_New ''emhttpd temperature is unavailable''))
     else case ParseFloat raw of
       Inl _ \<Rightarrow> (Fin 0, Some (errors_New (''emhttpd temperature '' @ quote raw @ '' is not numeric'')))
     | Inr t \<Rightarrow>
         if IsNaN t \<or> IsInf t
         then (Fin 0, Some (errors_New (''emhttpd temperature '' @ quote raw @ '' is invalid'')))
         else (t, None))"

definition makeDiskObservation :: "bool \<Rightarrow> unraidDisk \<Rightarrow> diskObservation" where
  "makeDiskObservation pollingEnabled disk =
    (let ob = \<lparr>ob_disk = disk, ob_temperature = Fin 0, ob_standby = ud_spundown disk, ob_err = None,
               ob_source = diskSourceEmhttpd\<rparr> in
     if ud_spundown disk then ob
     else if \<not> pollingEnabled
     then ob\<lparr>ob_err := Some (errors_New ''SMART polling is disabled; active disk temperature is not refreshed'')\<rparr>
     else case parseEmhttpdTemperature (ud_temperature disk) of
       (t, err) \<Rightarrow> ob\<lparr>ob_temperature := t, ob_err := err\<rparr>)"

definition makeDiskObservations :: "unraidDisk list \<Rightarrow> bool \<Rightarrow> diskObservation list" where
  "makeDiskObservations disks pollingEnabled = map (makeDiskObservation pollingEnabled) disks"

definition invalidateContinuity :: "diskStateTracker \<Rightarrow> diskStateTracker" where
  "invalidateContinuity s =
    (\<lambda>i. map_option (\<lambda>st. st\<lparr>ds_thermalState := diskThermalUnavailable, ds_wakeStartedAt := time_zero\<rparr>) (s i))"

text \<open>The state of one disk after an observation, its temperature and whether it is unavailable.\<close>

definition apply_one ::
    "diskState \<Rightarrow> diskObservation \<Rightarrow> time \<Rightarrow> duration \<Rightarrow> diskState \<times> float64 \<times> bool" where
  "apply_one st ob now wakeGrace =
    (if ob_standby ob then
       (st\<lparr>ds_thermalState := diskThermalStandby, ds_wakeStartedAt := time_zero\<rparr>, Fin 0, False)
     else if ob_err ob = None then
       (st\<lparr>ds_thermalState := diskThermalValid, ds_wakeStartedAt := time_zero, ds_lastValidAt := now,
           ds_lastSource := ob_source ob\<rparr>, ob_temperature ob, False)
     else
       let st1 = (if ob_source ob = diskSourceEmhttpd \<and> ds_thermalState st = diskThermalStandby
                  then st\<lparr>ds_thermalState := diskThermalWaking, ds_wakeStartedAt := now\<rparr> else st)
       in if ob_source ob = diskSourceEmhttpd \<and> ds_thermalState st1 = diskThermalWaking
             \<and> time_Sub now (ds_wakeStartedAt st1) < wakeGrace
          then (st1, Fin 0, False)
          else (st1\<lparr>ds_thermalState := diskThermalUnavailable\<rparr>, Fin 0, True))"

definition disk_reading :: "unraidDisk \<Rightarrow> float64 \<Rightarrow> bool \<Rightarrow> Disk" where
  "disk_reading d temperature unavailable =
    \<lparr>disk_ID = ud_id d, disk_Name = ud_name d, disk_Device = ud_device d, disk_Transport = ud_transport d,
     disk_Rotational = ud_rotational d, disk_Temp = temperature, disk_Unavailable = unavailable\<rparr>"

fun apply_loop ::
    "diskStateTracker \<Rightarrow> diskObservation list \<Rightarrow> time \<Rightarrow> duration \<Rightarrow> diskStateTracker \<times> Disk list" where
  "apply_loop s [] now wakeGrace = (s, [])"
| "apply_loop s (ob # obs) now wakeGrace =
    (let did = ud_id (ob_disk ob) in
     case apply_one (case s did of None \<Rightarrow> diskState_zero | Some st \<Rightarrow> st) ob now wakeGrace of
       (st, temperature, unavailable) \<Rightarrow>
         (case apply_loop (s(did \<mapsto> st)) obs now wakeGrace of
            (s2, readings) \<Rightarrow> (s2, disk_reading (ob_disk ob) temperature unavailable # readings)))"

definition tracker_apply ::
    "diskStateTracker \<Rightarrow> diskObservation list \<Rightarrow> time \<Rightarrow> duration \<Rightarrow> diskStateTracker \<times> Disk list" where
  "tracker_apply s obs now wakeGrace =
    (case apply_loop s obs now wakeGrace of
       (s2, readings) \<Rightarrow> (s2 |` set (map (\<lambda>ob. ud_id (ob_disk ob)) obs), readings))"

subsection \<open>Readings\<close>

definition state_of :: "diskStateTracker \<Rightarrow> string \<Rightarrow> diskState" where
  "state_of s did = (case s did of None \<Rightarrow> diskState_zero | Some st \<Rightarrow> st)"

abbreviation ob_id :: "diskObservation \<Rightarrow> string" where "ob_id ob \<equiv> ud_id (ob_disk ob)"

definition reading_of :: "diskStateTracker \<Rightarrow> diskObservation \<Rightarrow> time \<Rightarrow> duration \<Rightarrow> Disk" where
  "reading_of s ob now g =
    (case apply_one (state_of s (ob_id ob)) ob now g of (st, t, u) \<Rightarrow> disk_reading (ob_disk ob) t u)"

definition state_after :: "diskStateTracker \<Rightarrow> diskObservation \<Rightarrow> time \<Rightarrow> duration \<Rightarrow> diskState" where
  "state_after s ob now g = fst (apply_one (state_of s (ob_id ob)) ob now g)"

lemma apply_loop_Cons:
  "fst (apply_loop s (ob # obs) now g) = fst (apply_loop (s(ob_id ob \<mapsto> state_after s ob now g)) obs now g)"
  "snd (apply_loop s (ob # obs) now g) =
     reading_of s ob now g # snd (apply_loop (s(ob_id ob \<mapsto> state_after s ob now g)) obs now g)"
  by (auto simp: Let_def state_of_def state_after_def reading_of_def split: prod.split)

declare apply_loop.simps(2) [simp del]

lemma state_of_upd: "j \<noteq> i \<Longrightarrow> state_of (s(i \<mapsto> st)) j = state_of s j"
  by (simp add: state_of_def)

text \<open>With distinct IDs every disk is judged by the state it had before the refresh.\<close>

lemma apply_loop_readings:
  "distinct (map ob_id obs) \<Longrightarrow> snd (apply_loop s obs now g) = map (\<lambda>ob. reading_of s ob now g) obs"
proof (induction obs arbitrary: s)
  case (Cons ob obs)
  have "reading_of (s(ob_id ob \<mapsto> st)) x now g = reading_of s x now g" if "x \<in> set obs" for x st
  proof -
    have "ob_id ob \<notin> ob_id ` set obs" using Cons.prems by simp
    then have "ob_id x \<noteq> ob_id ob" using that by (metis imageI)
    then show ?thesis by (simp add: reading_of_def state_of_upd)
  qed
  then show ?case using Cons by (simp add: apply_loop_Cons)
qed simp

lemma apply_loop_other: "i \<notin> ob_id ` set obs \<Longrightarrow> fst (apply_loop s obs now g) i = s i"
  by (induction obs arbitrary: s) (auto simp: apply_loop_Cons)

lemma apply_loop_state:
  "distinct (map ob_id obs) \<Longrightarrow> ob \<in> set obs \<Longrightarrow>
   fst (apply_loop s obs now g) (ob_id ob) = Some (state_after s ob now g)"
proof (induction obs arbitrary: s)
  case (Cons o1 obs)
  show ?case
  proof (cases "ob = o1")
    case True
    then show ?thesis using Cons.prems by (simp add: apply_loop_Cons apply_loop_other)
  next
    case False
    then have ob: "ob \<in> set obs" using Cons.prems by simp
    have "ob_id o1 \<notin> ob_id ` set obs" using Cons.prems by simp
    then have "ob_id ob \<noteq> ob_id o1" using ob by (metis imageI)
    then show ?thesis using Cons.IH [OF _ ob] Cons.prems
      by (simp add: apply_loop_Cons state_after_def state_of_upd)
  qed
qed simp

lemma tracker_apply_readings:
  "distinct (map ob_id obs) \<Longrightarrow> snd (tracker_apply s obs now g) = map (\<lambda>ob. reading_of s ob now g) obs"
  using apply_loop_readings [of obs s now g] by (auto simp: tracker_apply_def split: prod.split)

lemma tracker_apply_state:
  "distinct (map ob_id obs) \<Longrightarrow> ob \<in> set obs \<Longrightarrow>
   fst (tracker_apply s obs now g) (ob_id ob) = Some (state_after s ob now g)"
  using apply_loop_state [of obs ob s now g] by (auto simp: tracker_apply_def restrict_map_def split: prod.split)

lemma tracker_apply_gone: "i \<notin> ob_id ` set obs \<Longrightarrow> fst (tracker_apply s obs now g) i = None"
  by (auto simp: tracker_apply_def restrict_map_def split: prod.split)

subsection \<open>The tracker over time\<close>

text \<open>
  The collector either applies the observations of a refresh or, when the inventory is unknown,
  invalidates the continuity of all disks.
\<close>

datatype tracker_event =
    Refreshed "diskObservation list" time duration
  | Invalidated

fun tracker_step :: "diskStateTracker \<Rightarrow> tracker_event \<Rightarrow> diskStateTracker" where
  "tracker_step s (Refreshed obs now g) = fst (tracker_apply s obs now g)"
| "tracker_step s Invalidated = invalidateContinuity s"

definition tracker_after :: "tracker_event list \<Rightarrow> diskStateTracker" where
  "tracker_after es = run_events tracker_step Map.empty es"

lemma tracker_after_Nil [simp]: "tracker_after [] = Map.empty"
  by (simp add: tracker_after_def)

lemma tracker_after_snoc [simp]: "tracker_after (es @ [e]) = tracker_step (tracker_after es) e"
  by (simp add: tracker_after_def)

text \<open>What an event says of a disk.\<close>

fun event_ob :: "string \<Rightarrow> tracker_event \<Rightarrow> diskObservation option" where
  "event_ob did (Refreshed obs now g) = find (\<lambda>ob. ob_id ob = did) obs"
| "event_ob did Invalidated = None"

fun event_time :: "tracker_event \<Rightarrow> time" where
  "event_time (Refreshed obs now g) = now"
| "event_time Invalidated = time_zero"

fun event_ok :: "tracker_event \<Rightarrow> bool" where
  "event_ok (Refreshed obs now g) = distinct (map ob_id obs)"
| "event_ok Invalidated = True"

definition standby_in :: "string \<Rightarrow> tracker_event \<Rightarrow> bool" where
  "standby_in did e = (\<exists>ob. event_ob did e = Some ob \<and> ob_standby ob)"

definition failing_in :: "string \<Rightarrow> tracker_event \<Rightarrow> bool" where
  "failing_in did e =
    (\<exists>ob. event_ob did e = Some ob \<and> \<not> ob_standby ob \<and> ob_err ob \<noteq> None \<and> ob_source ob = diskSourceEmhttpd)"

lemma event_ob_find:
  "distinct (map ob_id obs) \<Longrightarrow> ob \<in> set obs \<Longrightarrow> event_ob (ob_id ob) (Refreshed obs now g) = Some ob"
proof (induction obs)
  case (Cons x obs)
  then have "ob_id x \<notin> ob_id ` set obs" by simp
  then have "ob \<in> set obs \<Longrightarrow> ob_id x \<noteq> ob_id ob" by (metis imageI)
  with Cons show ?case by auto
qed simp

lemma tracker_step_lookup:
  assumes "event_ok (Refreshed obs now g)"
  shows "tracker_step s (Refreshed obs now g) did =
    map_option (\<lambda>ob. state_after s ob now g) (event_ob did (Refreshed obs now g))"
proof (cases "find (\<lambda>ob. ob_id ob = did) obs")
  case None
  then have "did \<notin> ob_id ` set obs" by (auto simp: find_None_iff)
  then show ?thesis using None by (simp add: tracker_apply_gone)
next
  case (Some ob)
  then have "ob \<in> set obs" "ob_id ob = did" by (auto simp: find_Some_iff)
  then show ?thesis using Some assms tracker_apply_state [of obs ob s now g] by auto
qed

text \<open>The standby state was observed by the last event.\<close>

lemma standby_history:
  assumes "\<forall>e \<in> set es. event_ok e" and "ds_thermalState (state_of (tracker_after es) did) = diskThermalStandby"
  shows "\<exists>pre e. es = pre @ [e] \<and> standby_in did e"
proof (cases es rule: rev_cases)
  case Nil
  then show ?thesis using assms by (simp add: state_of_def diskState_zero_def)
next
  case (snoc pre e)
  have "standby_in did e"
  proof (cases e)
    case (Refreshed obs now g)
    then have "event_ok (Refreshed obs now g)" using assms(1) snoc by simp
    from tracker_step_lookup [OF this, of "tracker_after pre" did] obtain ob where
        "event_ob did e = Some ob" "ds_thermalState (state_after (tracker_after pre) ob now g) = diskThermalStandby"
      using assms(2) snoc Refreshed
      by (cases "event_ob did e") (auto simp: state_of_def diskState_zero_def)
    then show ?thesis
      by (auto simp: standby_in_def state_after_def apply_one_def Let_def split: if_splits)
  next
    case Invalidated
    then show ?thesis using assms(2) snoc
      by (auto simp: state_of_def invalidateContinuity_def diskState_zero_def split: option.splits)
  qed
  then show ?thesis using snoc by blast
qed

text \<open>
  A waking disk was seen in standby, and has been seen active and failing in every event since;
  its wake started at the first of these.
\<close>

definition wake_history :: "string \<Rightarrow> tracker_event list \<Rightarrow> time \<Rightarrow> bool" where
  "wake_history did es start =
    (\<exists>pre e mid. es = pre @ e # mid \<and> standby_in did e \<and> (\<forall>m \<in> set mid. failing_in did m) \<and>
      mid \<noteq> [] \<and> event_time (hd mid) = start)"

lemma state_after_waking:
  assumes "ds_thermalState (state_after s ob now g) = diskThermalWaking"
  shows "\<not> ob_standby ob \<and> ob_err ob \<noteq> None \<and> ob_source ob = diskSourceEmhttpd \<and>
    (ds_thermalState (state_of s (ob_id ob)) = diskThermalStandby \<and> ds_wakeStartedAt (state_after s ob now g) = now \<or>
     ds_thermalState (state_of s (ob_id ob)) = diskThermalWaking \<and>
     ds_wakeStartedAt (state_after s ob now g) = ds_wakeStartedAt (state_of s (ob_id ob)))"
  using assms by (auto simp: state_after_def apply_one_def Let_def split: if_splits)

lemma waking_history:
  assumes "\<forall>e \<in> set es. event_ok e" and "ds_thermalState (state_of (tracker_after es) did) = diskThermalWaking"
  shows "wake_history did es (ds_wakeStartedAt (state_of (tracker_after es) did))"
  using assms
proof (induction es rule: rev_induct)
  case Nil
  then show ?case by (simp add: state_of_def diskState_zero_def)
next
  case (snoc e es)
  show ?case
  proof (cases e)
    case Invalidated
    then show ?thesis using snoc.prems(2)
      by (auto simp: state_of_def invalidateContinuity_def diskState_zero_def split: option.splits)
  next
    case (Refreshed obs now g)
    then have ok: "event_ok (Refreshed obs now g)" using snoc.prems(1) by simp
    obtain ob where ob: "event_ob did e = Some ob"
      and st: "state_of (tracker_after (es @ [e])) did = state_after (tracker_after es) ob now g"
      using tracker_step_lookup [OF ok, of "tracker_after es" did] snoc.prems(2) Refreshed
      by (cases "event_ob did e") (auto simp: state_of_def diskState_zero_def)
    have did: "ob_id ob = did" using ob Refreshed by (auto simp: find_Some_iff)
    note w = state_after_waking [OF snoc.prems(2) [unfolded st], unfolded did]
    have fail: "failing_in did e" using w ob by (auto simp: failing_in_def)
    from w consider "ds_thermalState (state_of (tracker_after es) did) = diskThermalStandby"
        "ds_wakeStartedAt (state_after (tracker_after es) ob now g) = now"
      | "ds_thermalState (state_of (tracker_after es) did) = diskThermalWaking"
        "ds_wakeStartedAt (state_after (tracker_after es) ob now g) = ds_wakeStartedAt (state_of (tracker_after es) did)"
      by blast
    then show ?thesis
    proof cases
      case 1
      obtain pre e0 where "es = pre @ [e0]" "standby_in did e0"
        using standby_history [OF _ 1(1)] snoc.prems(1) by auto
      then show ?thesis unfolding wake_history_def
        by (intro exI [of _ pre] exI [of _ e0] exI [of _ "[e]"])
          (use fail st 1 Refreshed in simp)
    next
      case 2
      then have "wake_history did es (ds_wakeStartedAt (state_of (tracker_after es) did))"
        using snoc by simp
      then obtain pre e0 mid where "es = pre @ e0 # mid" "standby_in did e0" "\<forall>m \<in> set mid. failing_in did m"
          "mid \<noteq> []" "event_time (hd mid) = ds_wakeStartedAt (state_of (tracker_after es) did)"
        unfolding wake_history_def by blast
      then show ?thesis unfolding wake_history_def
        by (intro exI [of _ pre] exI [of _ e0] exI [of _ "mid @ [e]"])
          (use fail st 2 in auto)
    qed
  qed
qed

lemma synthetic_reading:
  assumes "\<not> ob_standby ob" "ob_err ob \<noteq> None" "\<not> disk_Unavailable (reading_of s ob now g)"
  shows "ob_source ob = diskSourceEmhttpd \<and> disk_Temp (reading_of s ob now g) = Fin 0 \<and>
    ds_thermalState (state_after s ob now g) = diskThermalWaking \<and>
    time_Sub now (ds_wakeStartedAt (state_after s ob now g)) < g"
  using assms by (auto simp: reading_of_def state_after_def apply_one_def disk_reading_def Let_def split: if_splits)

text \<open>
  C4: A disk whose temperature could not be read is shown as available only with the synthetic
  value 0, only while it wakes from an observed standby, and only within the grace time. For every
  history of refreshes and invalidations: if the reading of an active disk with a failed
  observation is not unavailable, then its temperature is 0, the disk was observed in standby,
  every event since then (none of them an invalidation) observed it active and failing through
  emhttpd, and less than the grace time has passed since the first of these.
\<close>

theorem wake_grace_bounded:
  assumes hist: "\<forall>e \<in> set es. event_ok e"
    and ids: "distinct (map ob_id obs)" and ob: "ob \<in> set obs"
    and failed: "\<not> ob_standby ob" "ob_err ob \<noteq> None"
    and r: "r \<in> set (snd (tracker_apply (tracker_after es) obs now g))" "disk_ID r = ob_id ob"
    and shown: "\<not> disk_Unavailable r"
  shows "disk_Temp r = Fin 0 \<and>
    (\<exists>start. wake_history (ob_id ob) (es @ [Refreshed obs now g]) start \<and> time_Sub now start < g)"
proof -
  let ?s = "tracker_after es"
  have id_r: "disk_ID (reading_of ?s x now g) = ob_id x" for x
    by (simp add: reading_of_def disk_reading_def split: prod.split)
  obtain x where x: "x \<in> set obs" "r = reading_of ?s x now g"
    using r(1) tracker_apply_readings [OF ids] by auto
  have "ob_id x = ob_id ob" using x(2) r(2) id_r by simp
  then have "x = ob" using ids ob x(1) unfolding distinct_map by (meson inj_onD)
  note syn = synthetic_reading [OF failed shown [unfolded x(2) this]]
  have st: "state_of (tracker_after (es @ [Refreshed obs now g])) (ob_id ob) = state_after ?s ob now g"
    using tracker_apply_state [OF ids ob, of ?s now g] by (simp add: state_of_def)
  have "wake_history (ob_id ob) (es @ [Refreshed obs now g]) (ds_wakeStartedAt (state_after ?s ob now g))"
    using waking_history [of "es @ [Refreshed obs now g]" "ob_id ob"] hist ids syn st by simp
  then show ?thesis using syn x \<open>x = ob\<close> by auto
qed

definition example_disk :: "bool \<Rightarrow> unraidDisk" where
  "example_disk spundown =
    \<lparr>ud_id = ''WDC-1'', ud_name = ''disk1'', ud_device = ''sdb'', ud_transport = ''ata'', ud_temperature = ''*'',
     ud_rotational = True, ud_spundown = spundown\<rparr>"

definition example_wake :: "tracker_event list" where
  "example_wake = [Refreshed (makeDiskObservations [example_disk True] True) (5 * second) (45 * second)]"

theorem wake_grace_bounded_witness:
  "let obs = makeDiskObservations [example_disk False] True;
       r = hd (snd (tracker_apply (tracker_after example_wake) obs (10 * second) (45 * second)))
   in \<not> disk_Unavailable r \<and> disk_Temp r = Fin 0 \<and>
      (\<exists>start. wake_history ''WDC-1'' (example_wake @ [Refreshed obs (10 * second) (45 * second)]) start \<and>
        time_Sub (10 * second) start < 45 * second)"
proof -
  let ?obs = "makeDiskObservations [example_disk False] True"
  let ?ob = "hd ?obs"
  let ?rs = "snd (tracker_apply (tracker_after example_wake) ?obs (10 * second) (45 * second))"
  have e: "?obs = [?ob]" "ob_id ?ob = ''WDC-1''" "\<not> ob_standby ?ob" "ob_err ?ob \<noteq> None"
    by (simp_all add: makeDiskObservations_def makeDiskObservation_def example_disk_def parseEmhttpdTemperature_def)
  have r: "hd ?rs \<in> set ?rs" "disk_ID (hd ?rs) = ''WDC-1''" "\<not> disk_Unavailable (hd ?rs)"
    by (simp_all add: tracker_after_def example_wake_def makeDiskObservations_def makeDiskObservation_def
        example_disk_def parseEmhttpdTemperature_def tracker_apply_def apply_loop.simps apply_one_def
        disk_reading_def diskState_zero_def time_Sub_def Let_def)
  have h: "\<forall>x \<in> set example_wake. event_ok x"
    by (simp add: example_wake_def makeDiskObservations_def)
  have m: "distinct (map ob_id ?obs)" "?ob \<in> set ?obs" by (simp_all add: makeDiskObservations_def)
  show ?thesis
    using wake_grace_bounded [OF h m e(3,4) r(1) _ r(3)] r(2,3) e(2) by (simp add: Let_def)
qed

end
