(* ===== verification/Disk_Fallback.thy ===== *)
theory Disk_Fallback
  imports Disk_State
begin

text \<open>
  The direct SMART fallback (\<^verbatim>\<open>disk_fallback.go\<close>): one observation per disk made with
  \<^verbatim>\<open>sdspin\<close> and \<^verbatim>\<open>smartctl_type\<close>, and the pool of workers that shares the disks among them,
  starting where the last cycle stopped.
\<close>

subsection \<open>One disk\<close>

abbreviation (input) fallbackWorkers :: nat where "fallbackWorkers \<equiv> 3"

definition defaultSDSpinPath :: string where "defaultSDSpinPath = ''/usr/local/sbin/sdspin''"
definition defaultSmartctlTypePath :: string where
  "defaultSmartctlTypePath = ''/usr/local/sbin/smartctl_type''"

text \<open>
  What running a command leads to: the error of its context when it ended, the output and the
  error of \<^verbatim>\<open>command.Output()\<close>.
\<close>

record command_result =
  cr_ctxErr :: "go_error option"
  cr_output :: string
  cr_err :: "go_error option"

type_synonym exec_env = "string \<Rightarrow> string list \<Rightarrow> command_result"

definition runFallbackCommand :: "exec_env \<Rightarrow> string \<Rightarrow> string list \<Rightarrow> string \<times> go_error option" where
  "runFallbackCommand exec path args =
    (let r = exec path args in
     if cr_ctxErr r \<noteq> None then ([], cr_ctxErr r) else (cr_output r, cr_err r))"

record directSMARTResult =
  dr_temperature :: float64
  dr_standby :: bool

text \<open>The part of the report of \<^verbatim>\<open>smartctl\<close> that is decoded.\<close>

record smart_report =
  rp_powerMode :: string
  rp_temperature :: "float64 option"
  rp_scsi :: "float64 option"
  rp_nvme :: "float64 option"

definition smart_report_zero :: smart_report where
  "smart_report_zero = \<lparr>rp_powerMode = [], rp_temperature = None, rp_scsi = None, rp_nvme = None\<rparr>"

definition decode_float_ptr :: "(float64 option \<Rightarrow> 'r \<Rightarrow> 'r) \<Rightarrow> 'r decoder" where
  "decode_float_ptr put v r =
    (case v of
       JNull \<Rightarrow> (None, put None r)
     | JNum n \<Rightarrow>
         (case ParseFloat n of
            Inl _ \<Rightarrow> (Some (unmarshal_type_error v ''float64''), r)
          | Inr x \<Rightarrow> (None, put (Some x) r))
     | _ \<Rightarrow> (Some (unmarshal_type_error v ''float64''), r))"

definition decode_smart_report :: "smart_report decoder" where
  "decode_smart_report = decode_struct ''struct''
    [(''power_mode'', decode_struct ''struct'' [(''name'', decode_string (\<lambda>s r. r\<lparr>rp_powerMode := s\<rparr>))]),
     (''temperature'', decode_struct ''struct'' [(''current'', decode_float_ptr (\<lambda>x r. r\<lparr>rp_temperature := x\<rparr>))]),
     (''scsi_temperature'', decode_struct ''struct'' [(''current'', decode_float_ptr (\<lambda>x r. r\<lparr>rp_scsi := x\<rparr>))]),
     (''nvme_smart_health_information_log'',
        decode_struct ''struct'' [(''temperature'', decode_float_ptr (\<lambda>x r. r\<lparr>rp_nvme := x\<rparr>))])]"

definition validDirectTemperature :: "float64 \<Rightarrow> bool" where
  "validDirectTemperature x = (\<not> IsNaN x \<and> \<not> IsInf x)"

fun first_valid :: "float64 option list \<Rightarrow> float64 option" where
  "first_valid [] = None"
| "first_valid (None # vs) = first_valid vs"
| "first_valid (Some x # vs) = (if validDirectTemperature x then Some x else first_valid vs)"

definition parseDirectSMART :: "string \<Rightarrow> directSMARTResult result" where
  "parseDirectSMART output =
    (case json_Unmarshal decode_smart_report smart_report_zero output of
       Inl e \<Rightarrow> Inl (Errorf_w ''parse direct SMART JSON: '' e [])
     | Inr report \<Rightarrow>
         if EqualFold (rp_powerMode report) ''standby''
         then Inr \<lparr>dr_temperature = Fin 0, dr_standby = True\<rparr>
         else case first_valid [rp_temperature report, rp_scsi report, rp_nvme report] of
           Some x \<Rightarrow> Inr \<lparr>dr_temperature = x, dr_standby = False\<rparr>
         | None \<Rightarrow> Inl (errors_New ''direct SMART report has no usable temperature''))"

definition isATATransport :: "string \<Rightarrow> bool" where
  "isATATransport transport = (ToLower transport \<in> {''ata'', ''scsi-sata'', ''scsi-1ata''})"

definition newDirectSMARTObservation :: "unraidDisk \<Rightarrow> diskObservation" where
  "newDirectSMARTObservation disk =
    \<lparr>ob_disk = disk, ob_temperature = Fin 0, ob_standby = False,
     ob_err = Some (errors_New ''direct SMART temperature unavailable''), ob_source = diskSourceDirect\<rparr>"

text \<open>The second half of \<^verbatim>\<open>fallbackObservation\<close>: the report of \<^verbatim>\<open>smartctl_type\<close>.\<close>

definition smartctl_observation :: "exec_env \<Rightarrow> string \<Rightarrow> unraidDisk \<Rightarrow> diskObservation" where
  "smartctl_observation exec smartctlType disk =
    (let result = newDirectSMARTObservation disk;
         path = (if smartctlType = [] then defaultSmartctlTypePath else smartctlType)
     in case runFallbackCommand exec path [ud_name disk, ''-n standby,3 -A -j''] of
          (output, err) \<Rightarrow>
            let exit = Option.bind err errors_As_Exit in
            if exit = Some 3 then result\<lparr>ob_standby := True, ob_err := None\<rparr>
            else case (if output = [] then err else None) of
              Some e \<Rightarrow> result\<lparr>ob_err := Some (Errorf_w ''smartctl_type: '' e [])\<rparr>
            | None \<Rightarrow>
                (case parseDirectSMART output of
                   Inl parseErr \<Rightarrow>
                     result\<lparr>ob_err := Some (case exit of
                         Some code \<Rightarrow> Errorf_w (''smartctl_type exit '' @ FormatInt code @ '': '') parseErr []
                       | None \<Rightarrow> parseErr)\<rparr>
                 | Inr direct \<Rightarrow>
                     result\<lparr>ob_standby := dr_standby direct, ob_temperature := dr_temperature direct,
                            ob_err := None\<rparr>))"

definition sdspin_path :: "string \<Rightarrow> string" where
  "sdspin_path sdspin = (if sdspin = [] then defaultSDSpinPath else sdspin)"

definition fallbackObservation :: "exec_env \<Rightarrow> string \<Rightarrow> string \<Rightarrow> unraidDisk \<Rightarrow> diskObservation" where
  "fallbackObservation exec sdspin smartctlType disk =
    (let result = newDirectSMARTObservation disk in
     if \<not> ud_rotational disk then smartctl_observation exec smartctlType disk
     else if \<not> isATATransport (ud_transport disk) \<or> ud_device disk = []
     then result\<lparr>ob_err := Some (errors_New ''rotational disk has no safe ATA power-state check'')\<rparr>
     else
       case snd (runFallbackCommand exec (sdspin_path sdspin) [''/dev/'' @ ud_device disk, ''status'']) of
         None \<Rightarrow> smartctl_observation exec smartctlType disk
       | Some err \<Rightarrow>
           if errors_As_Exit err = Some 2 then result\<lparr>ob_standby := True, ob_err := None\<rparr>
           else result\<lparr>ob_err := Some (Errorf_w ''sdspin status: '' err [])\<rparr>)"

subsection \<open>One cycle\<close>

text \<open>
  The outcome of a cycle in which the workers made \<open>k\<close> claims and the disk at index \<open>i\<close>, when it
  was claimed, was observed as \<open>res i\<close>. That every schedule of the workers ends like this is shown
  below.
\<close>

definition served :: "nat \<Rightarrow> nat \<Rightarrow> nat \<Rightarrow> nat set" where
  "served start k n = {(start + c) mod n | c. c < min k n}"

definition cycle_observations ::
    "unraidDisk list \<Rightarrow> nat \<Rightarrow> nat \<Rightarrow> (nat \<Rightarrow> diskObservation) \<Rightarrow> diskObservation list" where
  "cycle_observations disks start k res =
    map (\<lambda>i. if \<exists>c < min k (length disks). i = (start + c) mod length disks then res i
             else newDirectSMARTObservation (disks ! i)) [0..<length disks]"

definition first_failure :: "diskObservation list \<Rightarrow> go_error option" where
  "first_failure obs =
    first_some (\<lambda>ob. map_option (\<lambda>e. Errorf_w (ud_name (ob_disk ob) @ '': '') e []) (ob_err ob)) obs"

definition collectFallback ::
    "nat \<Rightarrow> unraidDisk list \<Rightarrow> nat \<Rightarrow> (nat \<Rightarrow> diskObservation) \<Rightarrow> nat \<times> diskObservation list \<times> go_error option" where
  "collectFallback cursor disks k res =
    (if disks = [] then (0, [], None)
     else
       let n = length disks; start = cursor mod n; obs = cycle_observations disks start k res in
       ((start + min k n) mod n, obs, first_failure obs))"

subsection \<open>The workers\<close>

datatype worker = WCheck | WClaim | WRun nat | WDone

record pool =
  pl_next :: nat
  pl_cancelled :: bool
  pl_workers :: "worker list"
  pl_obs :: "diskObservation list"

text \<open>
  The steps of the workers, in any order: the cycle's context may end at any moment; a worker tests
  the context, then claims the next ticket, then runs the commands for its disk and stores the
  observation. \<open>res i\<close> is what the commands for the disk at index \<open>i\<close> lead to.
\<close>

inductive pool_step :: "nat \<Rightarrow> nat \<Rightarrow> (nat \<Rightarrow> diskObservation) \<Rightarrow> pool \<Rightarrow> pool \<Rightarrow> bool" for n start res where
  cancel: "\<not> pl_cancelled p \<Longrightarrow> pool_step n start res p (p\<lparr>pl_cancelled := True\<rparr>)"
| stop: "w < length (pl_workers p) \<Longrightarrow> pl_workers p ! w = WCheck \<Longrightarrow> pl_cancelled p \<Longrightarrow>
    pool_step n start res p (p\<lparr>pl_workers := (pl_workers p)[w := WDone]\<rparr>)"
| check: "w < length (pl_workers p) \<Longrightarrow> pl_workers p ! w = WCheck \<Longrightarrow> \<not> pl_cancelled p \<Longrightarrow>
    pool_step n start res p (p\<lparr>pl_workers := (pl_workers p)[w := WClaim]\<rparr>)"
| claim: "w < length (pl_workers p) \<Longrightarrow> pl_workers p ! w = WClaim \<Longrightarrow>
    pool_step n start res p
      (p\<lparr>pl_next := Suc (pl_next p),
         pl_workers := (pl_workers p)[w := if n \<le> pl_next p then WDone else WRun ((start + pl_next p) mod n)]\<rparr>)"
| store: "w < length (pl_workers p) \<Longrightarrow> pl_workers p ! w = WRun i \<Longrightarrow>
    pool_step n start res p
      (p\<lparr>pl_obs := (pl_obs p)[i := res i], pl_workers := (pl_workers p)[w := WCheck]\<rparr>)"

definition pool_init :: "unraidDisk list \<Rightarrow> pool" where
  "pool_init disks =
    \<lparr>pl_next = 0, pl_cancelled = False, pl_workers = replicate (min fallbackWorkers (length disks)) WCheck,
     pl_obs = map newDirectSMARTObservation disks\<rparr>"

definition pool_done :: "pool \<Rightarrow> bool" where
  "pool_done p = list_all (\<lambda>w. w = WDone) (pl_workers p)"

subsection \<open>Every schedule ends like one cycle\<close>

definition running :: "worker list \<Rightarrow> nat set" where
  "running ws = {i. \<exists>w < length ws. ws ! w = WRun i}"

definition run_once :: "worker list \<Rightarrow> bool" where
  "run_once ws = (\<forall>w < length ws. \<forall>v < length ws. \<forall>i. ws ! w = WRun i \<longrightarrow> ws ! v = WRun i \<longrightarrow> w = v)"

lemma served_inj: "a < n \<Longrightarrow> b < n \<Longrightarrow> ((start :: nat) + a) mod n = (start + b) mod n \<Longrightarrow> a = b"
proof -
  assume ab: "a < n" "b < n" and eq: "(start + a) mod n = (start + b) mod n"
  obtain q1 q2 where "start + a + n * q1 = start + b + n * q2"
    using eq by (auto simp: nat_mod_eq_iff)
  then have "(a + n * q1) mod n = (b + n * q2) mod n" by simp
  then show "a = b" using ab by simp
qed

lemma served_Suc: "k < n \<Longrightarrow> served start (Suc k) n = insert ((start + k) mod n) (served start k n)"
  by (auto simp: served_def less_Suc_eq min_def)

lemma served_full: "n \<le> k \<Longrightarrow> served start (Suc k) n = served start k n"
  by (simp add: served_def)

lemma served_fresh: "k < n \<Longrightarrow> (start + k) mod n \<notin> served start k n"
proof
  assume k: "k < n" and "(start + k) mod n \<in> served start k n"
  then obtain c where "c < k" "(start + k) mod n = (start + c) mod n" by (auto simp: served_def)
  with k show False using served_inj [of k n c start] by simp
qed

lemma served_less: "0 < n \<Longrightarrow> i \<in> served start k n \<Longrightarrow> i < n"
  by (auto simp: served_def)

lemma running_update:
  assumes "w < length ws" "run_once ws"
  shows "running (ws[w := x]) =
    running ws - (case ws ! w of WRun i \<Rightarrow> {i} | _ \<Rightarrow> {}) \<union> (case x of WRun i \<Rightarrow> {i} | _ \<Rightarrow> {})"
proof -
  have "j \<in> running (ws[w := x]) \<longleftrightarrow> x = WRun j \<or> (j \<in> running ws \<and> ws ! w \<noteq> WRun j)" for j
  proof
    assume "j \<in> running (ws[w := x])"
    then obtain v where v: "v < length ws" "ws[w := x] ! v = WRun j" by (auto simp: running_def)
    then show "x = WRun j \<or> (j \<in> running ws \<and> ws ! w \<noteq> WRun j)"
    proof (cases "v = w")
      case True
      then show ?thesis using v assms(1) by simp
    next
      case False
      then have "ws ! v = WRun j" using v by simp
      then show ?thesis using v False assms unfolding run_once_def running_def by blast
    qed
  next
    assume "x = WRun j \<or> (j \<in> running ws \<and> ws ! w \<noteq> WRun j)"
    then show "j \<in> running (ws[w := x])"
    proof
      assume "x = WRun j"
      then show ?thesis using assms(1) unfolding running_def by (intro CollectI exI [of _ w]) simp
    next
      assume j: "j \<in> running ws \<and> ws ! w \<noteq> WRun j"
      then obtain v where "v < length ws" "ws ! v = WRun j" by (auto simp: running_def)
      moreover have "v \<noteq> w" using j calculation by auto
      ultimately show ?thesis unfolding running_def by (intro CollectI exI [of _ v]) auto
    qed
  qed
  then show ?thesis by (cases "ws ! w"; cases x) auto
qed

lemma run_once_update:
  assumes "run_once ws" "\<And>i. x = WRun i \<Longrightarrow> i \<notin> running ws"
  shows "run_once (ws[w := x])"
proof -
  have "a = b" if ab: "a < length ws" "b < length ws" "ws[w := x] ! a = WRun i" "ws[w := x] ! b = WRun i" for a b i
  proof (cases "a = w \<or> b = w")
    case True
    have "a = w \<longleftrightarrow> b = w"
      using ab assms(2) [of i] by (cases "a = w"; cases "b = w") (auto simp: running_def)
    then show ?thesis using True by blast
  next
    case False
    then show ?thesis using ab assms(1) unfolding run_once_def by (metis nth_list_update_neq)
  qed
  then show ?thesis by (simp add: run_once_def)
qed

definition pool_inv :: "unraidDisk list \<Rightarrow> nat \<Rightarrow> (nat \<Rightarrow> diskObservation) \<Rightarrow> pool \<Rightarrow> bool" where
  "pool_inv disks start res p =
    (let n = length disks; R = running (pl_workers p); S = served start (pl_next p) n in
     length (pl_obs p) = n \<and> run_once (pl_workers p) \<and> R \<subseteq> S \<and>
     (\<forall>i < n. pl_obs p ! i = (if i \<in> S - R then res i else newDirectSMARTObservation (disks ! i))))"

lemma running_replicate [simp]: "running (replicate m WCheck) = {}"
  by (auto simp: running_def)

lemma pool_inv_init: "pool_inv disks start res (pool_init disks)"
  by (simp add: pool_inv_def pool_init_def served_def run_once_def)

lemma pool_inv_step:
  assumes "pool_step (length disks) start res p q" "pool_inv disks start res p" "disks \<noteq> []"
  shows "pool_inv disks start res q"
  using assms
proof (cases rule: pool_step.cases)
  case (claim w)
  let ?n = "length disks" and ?i = "(start + pl_next p) mod length disks"
  show ?thesis
  proof (cases "?n \<le> pl_next p")
    case True
    then show ?thesis using claim assms(2) running_update [OF claim(2), of WDone]
      by (auto simp: pool_inv_def Let_def served_full intro: run_once_update)
  next
    case False
    then have S: "served start (Suc (pl_next p)) ?n = insert ?i (served start (pl_next p) ?n)"
        "?i \<notin> served start (pl_next p) ?n"
      using served_Suc served_fresh by auto
    then have "?i \<notin> running (pl_workers p)" using assms(2) by (auto simp: pool_inv_def Let_def)
    then show ?thesis using False S claim assms(2) running_update [OF claim(2), of "WRun ?i"]
      by (auto simp: pool_inv_def Let_def intro: run_once_update)
  qed
next
  case (store w i)
  have i: "i \<in> running (pl_workers p)" using store(2,3) by (auto simp: running_def)
  then have "i \<in> served start (pl_next p) (length disks)" "i < length disks"
    using assms(2,3) served_less [of "length disks" i start] by (auto simp: pool_inv_def Let_def)
  then show ?thesis using store i assms(2) running_update [OF store(2), of WCheck]
    by (auto simp: pool_inv_def Let_def nth_list_update intro: run_once_update)
qed (auto simp: pool_inv_def Let_def running_update intro: run_once_update)

lemma pool_inv_reach:
  assumes "(pool_step (length disks) start res)\<^sup>*\<^sup>* (pool_init disks) p" "disks \<noteq> []"
  shows "pool_inv disks start res p"
  using assms by (induction rule: rtranclp_induct) (auto intro: pool_inv_init pool_inv_step)

lemma pool_done_observations:
  assumes "pool_inv disks start res p" "pool_done p"
  shows "pl_obs p = cycle_observations disks start (pl_next p) res"
proof -
  have "running (pl_workers p) = {}"
    using assms(2) by (auto simp: running_def pool_done_def list_all_length)
  then show ?thesis
    using assms(1) by (intro nth_equalityI)
      (auto simp: pool_inv_def cycle_observations_def served_def Let_def)
qed

text \<open>Every step brings the pool nearer to its end.\<close>

fun worker_weight :: "worker \<Rightarrow> nat" where
  "worker_weight WCheck = 2"
| "worker_weight WClaim = 1"
| "worker_weight (WRun _) = 3"
| "worker_weight WDone = 0"

definition pool_weight :: "nat \<Rightarrow> pool \<Rightarrow> nat" where
  "pool_weight n p =
    4 * (n - pl_next p) + sum_list (map worker_weight (pl_workers p)) + (if pl_cancelled p then 0 else 1)"

lemma sum_list_weight_update:
  "w < length ws \<Longrightarrow> sum_list (map worker_weight (ws[w := x])) + worker_weight (ws ! w) =
    sum_list (map worker_weight ws) + worker_weight x"
proof (induction ws arbitrary: w)
  case (Cons a ws)
  then show ?case by (cases w) auto
qed simp

lemma pool_weight_decreases:
  assumes "pool_step n start res p q"
  shows "pool_weight n q < pool_weight n p"
  using assms
proof (cases rule: pool_step.cases)
  case (stop w)
  then show ?thesis using sum_list_weight_update [OF stop(2), of WDone] by (simp add: pool_weight_def)
next
  case (check w)
  then show ?thesis using sum_list_weight_update [OF check(2), of WClaim] by (simp add: pool_weight_def)
next
  case (claim w)
  then show ?thesis
    using sum_list_weight_update [OF claim(2), of WDone]
      sum_list_weight_update [OF claim(2), of "WRun ((start + pl_next p) mod n)"]
    by (cases "n \<le> pl_next p") (auto simp: pool_weight_def)
next
  case (store w i)
  then show ?thesis using sum_list_weight_update [OF store(2), of WCheck] by (simp add: pool_weight_def)
qed (simp add: pool_weight_def)

lemma pool_progress: "\<not> pool_done p \<Longrightarrow> \<exists>q. pool_step n start res p q"
proof -
  assume "\<not> pool_done p"
  then obtain w where w: "w < length (pl_workers p)" "pl_workers p ! w \<noteq> WDone"
    by (auto simp: pool_done_def list_all_length)
  then show ?thesis
    by (cases "pl_workers p ! w"; cases "pl_cancelled p") (auto intro: pool_step.intros)
qed

subsection \<open>Round robin\<close>

text \<open>The observations of successive cycles over the same disks.\<close>

fun run_cycles ::
    "unraidDisk list \<Rightarrow> nat \<Rightarrow> (nat \<times> (nat \<Rightarrow> diskObservation)) list \<Rightarrow> diskObservation list list" where
  "run_cycles disks cursor [] = []"
| "run_cycles disks cursor ((k, res) # cs) =
    (case collectFallback cursor disks k res of (cursor2, obs, _) \<Rightarrow> obs # run_cycles disks cursor2 cs)"

lemma cycle_observations_served:
  "c < min k (length disks) \<Longrightarrow>
   cycle_observations disks start k res ! ((start + c) mod length disks) = res ((start + c) mod length disks)"
  by (cases "disks = []") (auto simp: cycle_observations_def)

lemma run_cycles_serve:
  assumes "disks \<noteq> []" "c < sum_list (map (\<lambda>x. min (fst x) (length disks)) cs)"
  shows "\<exists>j < length cs. run_cycles disks cursor cs ! j ! ((cursor + c) mod length disks) =
    snd (cs ! j) ((cursor + c) mod length disks)"
  using assms(2)
proof (induction cs arbitrary: cursor c)
  case (Cons x cs)
  obtain k res where x: "x = (k, res)" by (cases x)
  let ?n = "length disks"
  let ?start = "cursor mod ?n"
  have run: "run_cycles disks cursor (x # cs) =
      cycle_observations disks ?start k res # run_cycles disks ((?start + min k ?n) mod ?n) cs"
    using assms(1) x by (simp add: collectFallback_def Let_def)
  have mod: "(cursor + c) mod ?n = (?start + c) mod ?n" by (simp add: mod_add_left_eq)
  show ?case
  proof (cases "c < min k ?n")
    case True
    then show ?thesis
      unfolding run mod using cycle_observations_served [of c k disks ?start res] x by (intro exI [of _ 0]) simp
  next
    case False
    let ?d = "c - min k ?n"
    have "min k ?n \<le> c" using False by (simp only: not_less)
    then have "?d < sum_list (map (\<lambda>x. min (fst x) ?n) cs)" using Cons.prems x by simp
    from Cons.IH [OF this, of "(?start + min k ?n) mod ?n"] obtain j where
        j: "j < length cs" "run_cycles disks ((?start + min k ?n) mod ?n) cs ! j ! (((?start + min k ?n) mod ?n + ?d) mod ?n) =
          snd (cs ! j) (((?start + min k ?n) mod ?n + ?d) mod ?n)" by blast
    have "((?start + min k ?n) mod ?n + ?d) mod ?n = (cursor + c) mod ?n"
    proof -
      have "((?start + min k ?n) mod ?n + ?d) mod ?n = (?start + (min k ?n + ?d)) mod ?n"
        by (metis mod_add_left_eq add.assoc)
      also have "min k ?n + ?d = c" using \<open>min k ?n \<le> c\<close> by (rule le_add_diff_inverse)
      finally show ?thesis by (simp only: mod)
    qed
    then show ?thesis unfolding run using j by (intro exI [of _ "Suc j"]) simp
  qed
qed simp

subsection \<open>Properties\<close>

text \<open>
  C27: Every schedule of the workers, with the cycle cancelled at any moment, ends and has the
  outcome of \<^const>\<open>collectFallback\<close>. Steps cannot go on forever and the pool is never stuck before
  all workers are done; no disk is ever probed by two workers at once; and when all are done, the
  observations, the first error and the new cursor are those of a single cycle with the number of
  claims that were made.
\<close>

theorem fallback_schedules:
  fixes disks :: "unraidDisk list" and cursor :: nat
  defines "n \<equiv> length disks" and "start \<equiv> cursor mod length disks"
  assumes "disks \<noteq> []"
  shows "wfp (\<lambda>q p. pool_step n start res p q) \<and>
    (\<forall>p. (pool_step n start res)\<^sup>*\<^sup>* (pool_init disks) p \<longrightarrow>
      run_once (pl_workers p) \<and>
      (if pool_done p
       then collectFallback cursor disks (pl_next p) res =
         ((start + min (pl_next p) n) mod n, pl_obs p, first_failure (pl_obs p))
       else \<exists>q. pool_step n start res p q))"
proof (intro conjI allI impI)
  show "wfp (\<lambda>q p. pool_step n start res p q)"
    by (rule wfp_if_convertible_to_nat [of _ "pool_weight n"]) (rule pool_weight_decreases)
next
  fix p assume r: "(pool_step n start res)\<^sup>*\<^sup>* (pool_init disks) p"
  then have inv: "pool_inv disks start res p" using pool_inv_reach assms(3) by (simp add: n_def)
  then show "run_once (pl_workers p)" by (simp add: pool_inv_def Let_def)
  show "if pool_done p
       then collectFallback cursor disks (pl_next p) res =
         ((start + min (pl_next p) n) mod n, pl_obs p, first_failure (pl_obs p))
       else \<exists>q. pool_step n start res p q"
    using pool_done_observations [OF inv] pool_progress [of p n start res] assms(3)
    by (simp add: collectFallback_def n_def start_def Let_def)
qed

definition example_disks :: "unraidDisk list" where
  "example_disks = [example_disk False, (example_disk False)\<lparr>ud_id := ''WDC-2'', ud_name := ''disk2''\<rparr>]"

definition example_res :: "nat \<Rightarrow> diskObservation" where
  "example_res i = (newDirectSMARTObservation (example_disks ! i))\<lparr>ob_temperature := Fin 31, ob_err := None\<rparr>"

theorem fallback_schedules_witness:
  "wfp (\<lambda>q p. pool_step 2 1 example_res p q) \<and> (\<exists>q. pool_step 2 1 example_res (pool_init example_disks) q)"
proof -
  have "\<not> pool_done (pool_init example_disks)"
    by (simp add: pool_done_def pool_init_def example_disks_def)
  moreover have "example_disks \<noteq> []" "length example_disks = 2" by (simp_all add: example_disks_def)
  ultimately show ?thesis
    using fallback_schedules [where disks = example_disks and cursor = 3 and res = example_res] by auto
qed

text \<open>
  C28: No disk is starved. However the cycles are cut short, as soon as successive cycles have
  claimed as many disks as there are, every disk has been probed in one of them.
\<close>

theorem fallback_round_robin:
  assumes "i < length disks" and "length disks \<le> sum_list (map (\<lambda>x. min (fst x) (length disks)) cs)"
  shows "\<exists>j < length cs. run_cycles disks cursor cs ! j ! i = snd (cs ! j) i"
proof -
  let ?n = "length disks"
  define c where "c = (i + ?n - cursor mod ?n) mod ?n"
  have n: "0 < ?n" using assms(1) by linarith
  then have "c < sum_list (map (\<lambda>x. min (fst x) ?n) cs)"
    using assms(2) mod_less_divisor [OF n] unfolding c_def by (meson less_le_trans)
  moreover have "(cursor + c) mod ?n = i"
  proof -
    have "cursor mod ?n \<le> ?n" using n by (simp add: less_imp_le)
    then have "cursor mod ?n + (i + ?n - cursor mod ?n) = i + ?n" by simp
    then have "(cursor mod ?n + c) mod ?n = i" using assms(1) by (simp add: c_def mod_add_right_eq)
    then show ?thesis by (simp add: mod_add_left_eq)
  qed
  moreover have "disks \<noteq> []" using assms(1) by (cases disks) auto
  ultimately show ?thesis using run_cycles_serve [of disks c cs cursor] by simp
qed

definition example_cycles :: "(nat \<times> (nat \<Rightarrow> diskObservation)) list" where
  "example_cycles = [(1, example_res), (1, example_res)]"

theorem fallback_round_robin_witness:
  "\<exists>j < length example_cycles. run_cycles example_disks 1 example_cycles ! j ! 0 = snd (example_cycles ! j) 0"
  by (rule fallback_round_robin) (simp_all add: example_disks_def example_cycles_def)

definition sdspin_ok :: "exec_env \<Rightarrow> string \<Rightarrow> unraidDisk \<Rightarrow> bool" where
  "sdspin_ok exec sdspin d =
    (isATATransport (ud_transport d) \<and> ud_device d \<noteq> [] \<and>
     snd (runFallbackCommand exec (sdspin_path sdspin)
       [''/dev/'' @ ud_device d, ''status'']) = None)"

text \<open>
  C29: A rotational disk is never read by \<^verbatim>\<open>smartctl_type\<close> unless \<^verbatim>\<open>sdspin\<close> has just reported
  that it is spinning: in every other case the observation does not depend on what any other
  command would have returned, and carries no temperature.
\<close>

theorem sleeping_disk_not_probed:
  assumes "ud_rotational d" and "\<not> sdspin_ok exec sdspin d"
    and same: "\<And>args. exec2 (sdspin_path sdspin) args =
      exec (sdspin_path sdspin) args"
  shows "fallbackObservation exec sdspin smartctlType d = fallbackObservation exec2 sdspin smartctlType2 d \<and>
    ob_temperature (fallbackObservation exec sdspin smartctlType d) = Fin 0 \<and>
    (ob_standby (fallbackObservation exec sdspin smartctlType d) \<or>
     ob_err (fallbackObservation exec sdspin smartctlType d) \<noteq> None)"
proof -
  have run: "runFallbackCommand exec2 (sdspin_path sdspin) args =
      runFallbackCommand exec (sdspin_path sdspin) args" for args
    by (simp add: runFallbackCommand_def same)
  show ?thesis
    using assms(1,2) by (auto simp: fallbackObservation_def sdspin_ok_def run newDirectSMARTObservation_def Let_def
        split: option.split)
qed

definition example_exec :: exec_env where
  "example_exec path args =
    (if path = defaultSDSpinPath
     then \<lparr>cr_ctxErr = None, cr_output = [], cr_err = Some (GoErr ''exit status 2'' [ExitError 2])\<rparr>
     else \<lparr>cr_ctxErr = None, cr_output = ''{}'', cr_err = None\<rparr>)"

theorem sleeping_disk_not_probed_witness:
  "ob_temperature (fallbackObservation example_exec [] [] (example_disk False)) = Fin 0"
proof -
  have "\<not> sdspin_ok example_exec [] (example_disk False)"
    by (simp add: sdspin_ok_def sdspin_path_def runFallbackCommand_def example_exec_def)
  moreover have "ud_rotational (example_disk False)" by (simp add: example_disk_def)
  ultimately show ?thesis
    using sleeping_disk_not_probed [of "example_disk False" example_exec "[]" example_exec "[]" "[]"] by simp
qed

end
