(* ===== verification/Disk_Collector.thy ===== *)
theory Disk_Collector
  imports Disk_Fallback
begin

text \<open>
  The disk collector (\<^verbatim>\<open>disk.go\<close>): one refresh reads the polling configuration, decides the
  temperature source, reads policies and inventory, collects temperatures and publishes a runtime
  snapshot that expires when it is not renewed.

  A refresh is one step: the collection goroutine is its only caller. What it sees of the outside
  is an argument: the clock, the files, the commands and the schedule of the workers.
\<close>

abbreviation diskSnapshotTimeout :: duration where "diskSnapshotTimeout \<equiv> 15 * 1000000000"
abbreviation diskWakeMargin :: duration where "diskWakeMargin \<equiv> 5 * 1000000000"

record diskDataPaths =
  pa_disksINI :: string
  pa_devsINI :: string
  pa_varINI :: string
  pa_sysBlockRoot :: string
  pa_policyFile :: string
  pa_sdspin :: string
  pa_smartctlType :: string

record diskRuntimeDisk =
  rt_disk :: unraidDisk
  rt_reading :: Disk
  rt_collectionError :: "go_error option"
  rt_state :: diskState
  rt_reused :: bool

record diskCollector =
  dc_paths :: diskDataPaths
  dc_fallbackCursor :: nat
  dc_err :: "go_error option"
  dc_updatedAt :: time
  dc_errorAt :: time
  dc_state :: diskStateTracker
  dc_policyLog :: stickyErrorLog
  dc_policyError :: string
  dc_lastValidPolicies :: "policies option"
  dc_smartSource :: smartSourceState
  dc_fallbackLog :: stickyErrorLog
  dc_lastSuccessfulSnapshot :: "diskRuntimeDisk list option"
  dc_publishedSource :: smartSourceStatus
  dc_pollConfig :: pollAttributesState
  dc_log :: "string list"

text \<open>\<open>dc_log\<close> holds the lines written to the log.\<close>

record diskCollectorStatus =
  cs_updatedAt :: time
  cs_errorAt :: time
  cs_err :: "go_error option"
  cs_policyError :: string
  cs_disks :: "diskRuntimeDisk list option"
  cs_source :: smartSourceStatus
  cs_stale :: bool

definition smartSourceStatus_zero :: smartSourceStatus where
  "smartSourceStatus_zero = (source_status smartSourceState_zero)\<lparr>st_source := diskSourceEmhttpd\<rparr>"

definition newDiskCollector :: "diskDataPaths \<Rightarrow> diskCollector" where
  "newDiskCollector paths =
    \<lparr>dc_paths = paths, dc_fallbackCursor = 0,
     dc_err = Some (errors_New ''disk temperatures have not been collected yet''),
     dc_updatedAt = time_zero, dc_errorAt = time_zero, dc_state = Map.empty,
     dc_policyLog = \<lparr>sticky_context = ''disk policies'', sticky_last = []\<rparr>, dc_policyError = [],
     dc_lastValidPolicies = None, dc_smartSource = smartSourceState_zero,
     dc_fallbackLog = \<lparr>sticky_context = ''direct SMART fallback'', sticky_last = []\<rparr>,
     dc_lastSuccessfulSnapshot = None, dc_publishedSource = smartSourceStatus_zero,
     dc_pollConfig = pollAttributesState_zero, dc_log = []\<rparr>"

subsection \<open>What a refresh sees\<close>

record refresh_env =
  re_decisionAt :: time
  re_finishedAt :: time
  re_readFile :: "string \<Rightarrow> string result"
  re_iniData :: "string \<Rightarrow> ini_file result"
  re_iniLoad :: "string \<Rightarrow> ini_file result"
  re_os :: os_state
  re_sysfs :: sysfs
  re_claims :: nat
  re_exec :: "nat \<Rightarrow> exec_env"

definition defaultDiskPolicyFile :: string where
  "defaultDiskPolicyFile = ''/boot/config/plugins/unraid-vsock-sensors/disk-policies.json''"

subsection \<open>The parts of a refresh\<close>

definition dc_logs :: "string list \<Rightarrow> diskCollector \<Rightarrow> diskCollector" where
  "dc_logs ls c = c\<lparr>dc_log := dc_log c @ ls\<rparr>"

definition readInventory :: "refresh_env \<Rightarrow> diskCollector \<Rightarrow> diskCollector \<times> unraidDisk list result" where
  "readInventory env c =
    (let paths = dc_paths c;
         policyFile = (if pa_policyFile paths = [] then defaultDiskPolicyFile else pa_policyFile paths);
         rd = fst (readDiskPolicies policyFile (re_os env));
         policyErr = result_err rd;
         lastValid = (case rd of Inr ps \<Rightarrow> Some ps | Inl _ \<Rightarrow> dc_lastValidPolicies c);
         policies = (case lastValid of Some ps \<Rightarrow> ps | None \<Rightarrow> [])
     in case sticky_update (dc_policyLog c) policyErr of
          (policyLog, ls) \<Rightarrow>
            (dc_logs ls (c\<lparr>dc_lastValidPolicies := lastValid, dc_policyLog := policyLog,
                           dc_policyError := errorText policyErr\<rparr>),
             readDiskInventory (re_iniLoad env) (re_sysfs env) (pa_disksINI paths) (pa_devsINI paths)
               \<lparr>sel_sysBlockRoot = pa_sysBlockRoot paths, sel_policies = policies\<rparr>))"

definition collectTemperatures ::
    "refresh_env \<Rightarrow> unraidDisk list \<Rightarrow> smartSourceDecision \<Rightarrow> duration \<Rightarrow> diskCollector \<Rightarrow>
     diskCollector \<times> diskObservation list \<times> go_error option" where
  "collectTemperatures env disks decision pollInterval c =
    (if dec_source decision = diskSourceEmhttpd
     then (c, makeDiskObservations disks (0 < pollInterval), None)
     else
       let c1 = c\<lparr>dc_smartSource := beginDirectAttempt (dc_smartSource c) (re_decisionAt env)\<rparr>;
           res = (\<lambda>i. fallbackObservation (re_exec env i) (pa_sdspin (dc_paths c))
                        (pa_smartctlType (dc_paths c)) (disks ! i))
       in case collectFallback (dc_fallbackCursor c1) disks (re_claims env) res of
            (cursor, obs, err) \<Rightarrow> (c1\<lparr>dc_fallbackCursor := cursor\<rparr>, obs, err))"

definition publishDiskFailure :: "go_error \<Rightarrow> time \<Rightarrow> smartSourceStatus \<Rightarrow> diskCollector \<Rightarrow> diskCollector" where
  "publishDiskFailure err now source c =
    c\<lparr>dc_err := Some err, dc_errorAt := now, dc_updatedAt := time_zero, dc_publishedSource := source\<rparr>"

definition publishDiskSuccess ::
    "diskRuntimeDisk list \<Rightarrow> time \<Rightarrow> smartSourceStatus \<Rightarrow> diskCollector \<Rightarrow> diskCollector" where
  "publishDiskSuccess runtimeDisks now source c =
    c\<lparr>dc_err := None, dc_errorAt := time_zero, dc_updatedAt := now,
      dc_lastSuccessfulSnapshot := Some runtimeDisks, dc_publishedSource := source\<rparr>"

text \<open>A missing entry of a map of runtime disks.\<close>

definition runtime_zero :: diskRuntimeDisk where
  "runtime_zero =
    \<lparr>rt_disk = \<lparr>ud_id = [], ud_name = [], ud_device = [], ud_transport = [], ud_temperature = [],
       ud_rotational = False, ud_spundown = False\<rparr>,
     rt_reading = \<lparr>disk_ID = [], disk_Name = [], disk_Device = [], disk_Transport = [],
       disk_Rotational = False, disk_Temp = Fin 0, disk_Unavailable = False\<rparr>,
     rt_collectionError = None, rt_state = diskState_zero, rt_reused = False\<rparr>"

definition snapshot_list :: "diskCollector \<Rightarrow> diskRuntimeDisk list" where
  "snapshot_list c = (case dc_lastSuccessfulSnapshot c of None \<Rightarrow> [] | Some rs \<Rightarrow> rs)"

text \<open>A later entry of the snapshot replaces an earlier one of the same ID.\<close>

definition previous_runtime :: "diskCollector \<Rightarrow> string \<Rightarrow> diskRuntimeDisk option" where
  "previous_runtime c did = map_of (rev (map (\<lambda>r. (ud_id (rt_disk r), r)) (snapshot_list c))) did"

definition reuse_one :: "diskCollector \<Rightarrow> unraidDisk \<Rightarrow> diskRuntimeDisk" where
  "reuse_one c disk =
    (let found = previous_runtime c (ud_id disk);
         previous = (case found of None \<Rightarrow> runtime_zero | Some r \<Rightarrow> r);
         reading0 = rt_reading previous;
         reading1 = (if dc_err c \<noteq> None \<or> found = None
                     then reading0\<lparr>disk_Temp := Fin 0, disk_Unavailable := True\<rparr> else reading0)
     in \<lparr>rt_disk = disk,
         rt_reading = reading1\<lparr>disk_ID := ud_id disk, disk_Name := ud_name disk, disk_Device := ud_device disk,
           disk_Transport := ud_transport disk, disk_Rotational := ud_rotational disk\<rparr>,
         rt_collectionError = rt_collectionError previous,
         rt_state = state_of (dc_state c) (ud_id disk), rt_reused = True\<rparr>)"

definition reuseFallbackSnapshot :: "unraidDisk list \<Rightarrow> diskCollector \<Rightarrow> diskCollector \<times> diskRuntimeDisk list" where
  "reuseFallbackSnapshot disks c =
    (c\<lparr>dc_state := dc_state c |` set (map ud_id disks)\<rparr>, map (reuse_one c) disks)"

fun buildDiskRuntimeSnapshot :: "diskStateTracker \<Rightarrow> Disk list \<Rightarrow> diskObservation list \<Rightarrow> diskRuntimeDisk list" where
  "buildDiskRuntimeSnapshot st (r # rs) (ob # obs) =
    \<lparr>rt_disk = ob_disk ob, rt_reading = r, rt_collectionError = ob_err ob,
     rt_state = state_of st (ob_id ob), rt_reused = False\<rparr> # buildDiskRuntimeSnapshot st rs obs"
| "buildDiskRuntimeSnapshot st rs obs = []"

subsection \<open>Refresh\<close>

text \<open>From the decision on: reuse the last direct snapshot or collect and apply.\<close>

definition finish_refresh ::
    "refresh_env \<Rightarrow> smartSourceDecision \<Rightarrow> duration \<Rightarrow> unraidDisk list \<Rightarrow> diskCollector \<Rightarrow> diskCollector" where
  "finish_refresh env decision pollInterval disks c =
    (if dec_source decision = diskSourceDirect \<and> \<not> dec_directDue decision then
       (case reuseFallbackSnapshot disks c of
          (c1, runtimeDisks) \<Rightarrow>
            publishDiskSuccess runtimeDisks (re_finishedAt env) (source_status (dc_smartSource c1)) c1)
     else
       case collectTemperatures env disks decision pollInterval c of
         (c1, observations, fallbackErr) \<Rightarrow>
           let wakeGrace = (if 0 < pollInterval then dur_add pollInterval diskWakeMargin else 0) in
           (case tracker_apply (dc_state c1) observations (re_finishedAt env) wakeGrace of
              (st, readings) \<Rightarrow>
                let c2 = c1\<lparr>dc_state := st\<rparr>;
                    c3 = (if dec_source decision = diskSourceDirect
                          then (case sticky_update (dc_fallbackLog c2) fallbackErr of
                                  (fl, ls) \<Rightarrow>
                                    dc_logs ls (c2\<lparr>dc_smartSource :=
                                        recordFallbackResult (dc_smartSource c2) (re_finishedAt env) fallbackErr,
                                      dc_fallbackLog := fl\<rparr>))
                          else c2)
                in publishDiskSuccess (buildDiskRuntimeSnapshot st readings observations)
                     (re_finishedAt env) (source_status (dc_smartSource c3)) c3))"

definition begin_refresh :: "refresh_env \<Rightarrow> diskCollector \<Rightarrow> diskCollector \<times> smartSourceDecision \<times> duration" where
  "begin_refresh env c =
    (case effective (dc_pollConfig c) (readPollAttributes (re_readFile env) (re_iniData env) (pa_varINI (dc_paths c))) of
       (pc1, pollInterval, configErr) \<Rightarrow>
         (case logChange pc1 pollInterval configErr of
            (pc2, ls) \<Rightarrow>
              (case evaluate (dc_smartSource c) (re_decisionAt env) pollInterval configErr of
                 (src, decision) \<Rightarrow>
                   let c1 = dc_logs ls (c\<lparr>dc_pollConfig := pc2, dc_smartSource := src\<rparr>);
                       c2 = (if dec_justEntered decision
                             then dc_logs [''emhttpd SMART polling stale, enabling direct SMART fallback''] c1 else c1);
                       c3 = (if dec_justRecovered decision
                             then (case sticky_update (dc_fallbackLog c2) None of
                                     (fl, ls2) \<Rightarrow>
                                       dc_logs (''emhttpd SMART polling recovered, disabling direct SMART fallback'' # ls2)
                                         (c2\<lparr>dc_fallbackLog := fl\<rparr>))
                             else c2)
                   in (c3, decision, pollInterval))))"

definition refreshWithContext :: "refresh_env \<Rightarrow> diskCollector \<Rightarrow> diskCollector" where
  "refreshWithContext env c =
    (case begin_refresh env c of
       (c1, decision, pollInterval) \<Rightarrow>
         (case readInventory env c1 of
            (c2, Inl err) \<Rightarrow>
              publishDiskFailure err (re_finishedAt env) (source_status (dc_smartSource c2))
                (c2\<lparr>dc_state := invalidateContinuity (dc_state c2)\<rparr>)
          | (c2, Inr disks) \<Rightarrow> finish_refresh env decision pollInterval disks c2))"

definition collector_noteEmhttpPoll :: "time \<Rightarrow> diskCollector \<Rightarrow> diskCollector" where
  "collector_noteEmhttpPoll now c = c\<lparr>dc_smartSource := noteEmhttpPoll (dc_smartSource c) now\<rparr>"

subsection \<open>What the others see\<close>

definition disk_stale :: "diskCollector \<Rightarrow> time \<Rightarrow> bool" where
  "disk_stale c now = (\<not> time_Before now (time_Add (dc_updatedAt c) diskSnapshotTimeout))"

definition diskReadingsFromRuntime :: "diskRuntimeDisk list option \<Rightarrow> Disk list option" where
  "diskReadingsFromRuntime rs = map_option (map rt_reading) rs"

definition disk_snapshot :: "diskCollector \<Rightarrow> time \<Rightarrow> Disk list option result" where
  "disk_snapshot c now =
    (case dc_err c of
       Some e \<Rightarrow> Inl e
     | None \<Rightarrow>
         if disk_stale c now then Inl (errors_New ''disk cache snapshot expired'')
         else Inr (diskReadingsFromRuntime (dc_lastSuccessfulSnapshot c)))"

definition disk_status :: "diskCollector \<Rightarrow> time \<Rightarrow> diskCollectorStatus" where
  "disk_status c now =
    (let live = source_status (dc_smartSource c) in
     \<lparr>cs_updatedAt = dc_updatedAt c, cs_errorAt = dc_errorAt c, cs_err = dc_err c,
      cs_policyError = dc_policyError c, cs_disks = dc_lastSuccessfulSnapshot c,
      cs_source = (dc_publishedSource c)\<lparr>st_heartbeatSeen := st_heartbeatSeen live,
        st_lastHeartbeat := st_lastHeartbeat live\<rparr>,
      cs_stale = disk_stale c now\<rparr>)"

subsection \<open>Events\<close>

datatype collector_event = Refresh refresh_env | Heartbeat time

fun collector_step :: "diskCollector \<Rightarrow> collector_event \<Rightarrow> diskCollector" where
  "collector_step c (Refresh env) = refreshWithContext env c"
| "collector_step c (Heartbeat now) = collector_noteEmhttpPoll now c"

text \<open>
  The refresh loop (\<^verbatim>\<open>runDiskRefreshLoop\<close>): it collects once, then on every refresh request and
  every tick of the watchdog until its context ends. A request that finds one pending is dropped
  (\<^verbatim>\<open>requestDiskRefresh\<close>), since the channel holds one.
\<close>

datatype loop_event = LRequest | LTake | LTick | LDone

record loop_state =
  ls_pending :: bool
  ls_running :: bool
  ls_collections :: nat

definition requestDiskRefresh :: "loop_state \<Rightarrow> loop_state" where
  "requestDiskRefresh s = s\<lparr>ls_pending := True\<rparr>"

fun loop_step :: "loop_state \<Rightarrow> loop_event \<Rightarrow> loop_state" where
  "loop_step s LRequest = requestDiskRefresh s"
| "loop_step s LTake =
    (if ls_running s \<and> ls_pending s then s\<lparr>ls_pending := False, ls_collections := Suc (ls_collections s)\<rparr> else s)"
| "loop_step s LTick = (if ls_running s then s\<lparr>ls_collections := Suc (ls_collections s)\<rparr> else s)"
| "loop_step s LDone = s\<lparr>ls_running := False\<rparr>"

definition loop_start :: loop_state where
  "loop_start = \<lparr>ls_pending = False, ls_running = True, ls_collections = 1\<rparr>"

subsection \<open>Observations\<close>

definition finite_temp :: "float64 \<Rightarrow> bool" where
  "finite_temp t = (\<exists>q. t = Fin q)"

lemma finite_temp_iff: "finite_temp t \<longleftrightarrow> \<not> IsNaN t \<and> \<not> IsInf t"
  by (cases t) (simp_all add: finite_temp_def IsNaN_def IsInf_def)

text \<open>An observation of a disk, finite when it succeeded.\<close>

definition observes :: "diskObservation \<Rightarrow> unraidDisk \<Rightarrow> bool" where
  "observes ob d = (ob_disk ob = d \<and> (ob_err ob = None \<longrightarrow> finite_temp (ob_temperature ob)))"

lemma finite_temp_0 [simp]: "finite_temp (Fin q)"
  by (simp add: finite_temp_def)

lemma makeDiskObservation_observes: "observes (makeDiskObservation polling d) d"
  by (auto simp: observes_def makeDiskObservation_def parseEmhttpdTemperature_def finite_temp_def Let_def
      not_NaN_Inf_iff split: prod.split if_splits sum.splits)

lemma first_valid_finite: "first_valid vs = Some x \<Longrightarrow> finite_temp x"
  by (induction vs rule: first_valid.induct)
    (auto simp: finite_temp_iff validDirectTemperature_def split: if_splits)

lemma parseDirectSMART_finite: "parseDirectSMART out = Inr r \<Longrightarrow> finite_temp (dr_temperature r)"
proof -
  assume a: "parseDirectSMART out = Inr r"
  then obtain rep where "json_Unmarshal decode_smart_report smart_report_zero out = Inr rep"
    by (cases "json_Unmarshal decode_smart_report smart_report_zero out") (simp_all add: parseDirectSMART_def)
  with a first_valid_finite show ?thesis
    by (cases "EqualFold (rp_powerMode rep) ''standby''";
        cases "first_valid [rp_temperature rep, rp_scsi rep, rp_nvme rep]")
      (auto simp: parseDirectSMART_def simp del: first_valid.simps)
qed

lemma smartctl_observation_observes: "observes (smartctl_observation exec p d) d"
proof -
  obtain out err where run: "runFallbackCommand exec (if p = [] then defaultSmartctlTypePath else p)
      [ud_name d, ''-n standby,3 -A -j''] = (out, err)" by (metis surj_pair)
  show ?thesis
    using parseDirectSMART_finite [of out]
    by (cases "parseDirectSMART out"; cases err; cases "out = []")
      (simp_all add: smartctl_observation_def run observes_def newDirectSMARTObservation_def Let_def)
qed

lemma fallbackObservation_observes: "observes (fallbackObservation exec sdspin p d) d"
  using smartctl_observation_observes
  by (auto simp: fallbackObservation_def Let_def split: option.split)
    (auto simp: observes_def newDirectSMARTObservation_def finite_temp_def)

lemma collectFallback_observes:
  "list_all2 observes
    (fst (snd (collectFallback cursor disks k (\<lambda>i. fallbackObservation (exec i) sdspin p (disks ! i))))) disks"
  using fallbackObservation_observes
  by (auto simp: collectFallback_def cycle_observations_def list_all2_conv_all_nth Let_def)
    (auto simp: observes_def newDirectSMARTObservation_def)

lemma collectTemperatures_observes:
  "list_all2 observes (fst (snd (collectTemperatures env disks decision poll c))) disks"
proof (cases "dec_source decision = diskSourceEmhttpd")
  case True
  then show ?thesis using makeDiskObservation_observes
    by (simp add: collectTemperatures_def makeDiskObservations_def list_all2_conv_all_nth)
next
  case False
  then show ?thesis
    using collectFallback_observes [of "dc_fallbackCursor c" disks "re_claims env" "re_exec env"
        "pa_sdspin (dc_paths c)" "pa_smartctlType (dc_paths c)"]
    by (auto simp: collectTemperatures_def Let_def split: prod.split)
qed

lemma observes_ids: "list_all2 observes obs disks \<Longrightarrow> map ob_disk obs = disks"
  by (induction rule: list_all2_induct) (auto simp: observes_def)

subsection \<open>The published snapshot\<close>

definition reading_matches :: "Disk \<Rightarrow> unraidDisk \<Rightarrow> bool" where
  "reading_matches r d =
    (disk_ID r = ud_id d \<and> disk_Name r = ud_name d \<and> disk_Device r = ud_device d \<and>
     disk_Transport r = ud_transport d \<and> disk_Rotational r = ud_rotational d)"

definition runtime_ok :: "diskRuntimeDisk \<Rightarrow> bool" where
  "runtime_ok r =
    (reading_matches (rt_reading r) (rt_disk r) \<and> finite_temp (disk_Temp (rt_reading r)) \<and>
     (disk_Unavailable (rt_reading r) \<longrightarrow> disk_Temp (rt_reading r) = Fin 0) \<and> watched_disk (rt_disk r))"

definition snapshot_ids :: "diskRuntimeDisk list \<Rightarrow> string list" where
  "snapshot_ids rs = map (\<lambda>r. ud_id (rt_disk r)) rs"

lemma snapshot_ids_map: "snapshot_ids rs = map ud_id (map rt_disk rs)"
  by (simp add: snapshot_ids_def)

definition snapshot_ok :: "diskRuntimeDisk list \<Rightarrow> bool" where
  "snapshot_ok rs = (list_all runtime_ok rs \<and> distinct (snapshot_ids rs))"

lemma reading_of_ok:
  assumes "observes ob d"
  shows "reading_matches (reading_of s ob now g) d \<and> finite_temp (disk_Temp (reading_of s ob now g)) \<and>
    (disk_Unavailable (reading_of s ob now g) \<longrightarrow> disk_Temp (reading_of s ob now g) = Fin 0)"
  using assms
  by (auto simp: observes_def reading_of_def apply_one_def disk_reading_def reading_matches_def finite_temp_def Let_def
      split: if_splits)

lemma build_snapshot:
  assumes "list_all2 observes obs disks" "list_all watched_disk disks" "distinct (map ud_id disks)"
  shows "snapshot_ok (buildDiskRuntimeSnapshot st (map (\<lambda>ob. reading_of s ob now g) obs) obs) \<and>
    map rt_disk (buildDiskRuntimeSnapshot st (map (\<lambda>ob. reading_of s ob now g) obs) obs) = disks"
  using assms
proof (induction rule: list_all2_induct)
  case (Cons ob obs d ds)
  have ids: "snapshot_ids rs = map ud_id (map rt_disk rs)" for rs by (simp add: snapshot_ids_def comp_def)
  have "ob_disk ob = d" using Cons by (simp add: observes_def)
  then show ?case
    using Cons reading_of_ok [OF Cons(1), of s now g] by (auto simp: snapshot_ok_def ids runtime_ok_def)
qed (simp add: snapshot_ok_def snapshot_ids_def)

lemma previous_runtime_in: "previous_runtime c did = Some r \<Longrightarrow> r \<in> set (snapshot_list c) \<and> ud_id (rt_disk r) = did"
  unfolding previous_runtime_def by (auto dest!: map_of_SomeD)

lemma reuse_one_ok:
  assumes "snapshot_ok (snapshot_list c)" "watched_disk d"
  shows "runtime_ok (reuse_one c d) \<and> rt_disk (reuse_one c d) = d"
proof (cases "previous_runtime c (ud_id d)")
  case None
  then show ?thesis using assms(2)
    by (simp add: reuse_one_def runtime_ok_def reading_matches_def finite_temp_def Let_def)
next
  case (Some r)
  then have "runtime_ok r" using assms(1) previous_runtime_in by (auto simp: snapshot_ok_def list_all_iff)
  then show ?thesis using Some assms(2)
    by (auto simp: reuse_one_def runtime_ok_def reading_matches_def finite_temp_def Let_def)
qed

lemma reuse_snapshot:
  assumes "snapshot_ok (snapshot_list c)" "list_all watched_disk disks" "distinct (map ud_id disks)"
  shows "snapshot_ok (map (reuse_one c) disks) \<and> map rt_disk (map (reuse_one c) disks) = disks"
proof -
  have ok: "runtime_ok (reuse_one c d) \<and> rt_disk (reuse_one c d) = d" if "d \<in> set disks" for d
    using reuse_one_ok [OF assms(1), of d] assms(2) that by (simp add: list_all_iff)
  then have "map rt_disk (map (reuse_one c) disks) = disks" by (simp add: map_idI)
  then show ?thesis using ok assms(3)
    by (auto simp: snapshot_ok_def list_all_iff snapshot_ids_def comp_def distinct_map inj_on_def)
qed

subsection \<open>One refresh\<close>

lemma dc_logs_simps [simp]:
  "dc_state (dc_logs ls c) = dc_state c" "snapshot_list (dc_logs ls c) = snapshot_list c"
  "dc_err (dc_logs ls c) = dc_err c" "dc_updatedAt (dc_logs ls c) = dc_updatedAt c"
  "dc_paths (dc_logs ls c) = dc_paths c" "dc_lastSuccessfulSnapshot (dc_logs ls c) = dc_lastSuccessfulSnapshot c"
  "dc_smartSource (dc_logs ls c) = dc_smartSource c" "dc_lastValidPolicies (dc_logs ls c) = dc_lastValidPolicies c"
  by (simp_all add: dc_logs_def snapshot_list_def)

text \<open>The fields that only publishing and applying change.\<close>

definition same_published :: "diskCollector \<Rightarrow> diskCollector \<Rightarrow> bool" where
  "same_published c d =
    (dc_state d = dc_state c \<and> dc_lastSuccessfulSnapshot d = dc_lastSuccessfulSnapshot c \<and>
     dc_err d = dc_err c \<and> dc_updatedAt d = dc_updatedAt c)"

lemma begin_refresh_same: "same_published c (fst (begin_refresh env c))"
  by (auto simp: begin_refresh_def same_published_def Let_def split: prod.split)

lemma readInventory_same: "same_published c (fst (readInventory env c))"
  by (auto simp: readInventory_def same_published_def Let_def split: prod.split)

lemma collectTemperatures_same: "same_published c (fst (collectTemperatures env disks decision poll c))"
  by (auto simp: collectTemperatures_def same_published_def Let_def split: prod.split)

lemma same_published_trans: "same_published a b \<Longrightarrow> same_published b c \<Longrightarrow> same_published a c"
  by (simp add: same_published_def)

lemma snapshot_list_same: "same_published c d \<Longrightarrow> snapshot_list d = snapshot_list c"
  by (simp add: same_published_def snapshot_list_def)

text \<open>The inventory a refresh reads.\<close>

definition refresh_inventory :: "refresh_env \<Rightarrow> diskCollector \<Rightarrow> unraidDisk list result" where
  "refresh_inventory env c = snd (readInventory env (fst (begin_refresh env c)))"

lemma refresh_inventory_ok:
  assumes "refresh_inventory env c = Inr disks"
  shows "list_all watched_disk disks \<and> distinct (map ud_id disks)"
proof -
  obtain sel :: diskSelector and paths :: diskDataPaths where "readDiskInventory (re_iniLoad env) (re_sysfs env) (pa_disksINI paths) (pa_devsINI paths) sel = Inr disks"
    using assms by (auto simp: refresh_inventory_def readInventory_def Let_def split: prod.splits)
  then obtain es where "readDiskInventoryEntries (re_iniLoad env) (re_sysfs env) (pa_disksINI paths) (pa_devsINI paths) sel = Inr es"
      "selectedDisks es = Inr disks"
    by (auto simp: readDiskInventory_def split: sum.splits)
  then show ?thesis using selectedDisks_ok readDiskInventoryEntries_ok by blast
qed

lemma tracker_apply_dom: "dom (fst (tracker_apply s obs now g)) \<subseteq> ob_id ` set obs"
  by (auto simp: tracker_apply_def restrict_map_def split: prod.split if_splits)

definition collector_inv :: "diskCollector \<Rightarrow> bool" where
  "collector_inv c =
    (snapshot_ok (snapshot_list c) \<and> dom (dc_state c) \<subseteq> set (snapshot_ids (snapshot_list c)) \<and>
     (dc_err c = None \<longrightarrow> dc_lastSuccessfulSnapshot c \<noteq> None))"

lemma collector_inv_same: "same_published c d \<Longrightarrow> collector_inv d = collector_inv c"
  by (simp add: collector_inv_def snapshot_list_same) (simp add: same_published_def)

text \<open>A refresh that reads its inventory publishes exactly the disks of it.\<close>

definition published :: "unraidDisk list \<Rightarrow> time \<Rightarrow> diskCollector \<Rightarrow> bool" where
  "published disks now c =
    (dc_err c = None \<and> dc_updatedAt c = now \<and>
     (\<exists>rs. dc_lastSuccessfulSnapshot c = Some rs \<and> map rt_disk rs = disks))"

lemma finish_refresh_ok:
  assumes inv: "collector_inv c" and disks: "list_all watched_disk disks" "distinct (map ud_id disks)"
  shows "collector_inv (finish_refresh env decision poll disks c) \<and>
    published disks (re_finishedAt env) (finish_refresh env decision poll disks c)"
proof (cases "dec_source decision = diskSourceDirect \<and> \<not> dec_directDue decision")
  case True
  have r: "snapshot_ok (map (reuse_one c) disks)" "map rt_disk (map (reuse_one c) disks) = disks"
    using reuse_snapshot [OF _ disks, of c] inv by (simp_all add: collector_inv_def)
  then have "snapshot_ids (map (reuse_one c) disks) = map ud_id disks"
    by (simp only: snapshot_ids_map)
  then show ?thesis
    using True r by (auto simp: finish_refresh_def reuseFallbackSnapshot_def publishDiskSuccess_def published_def
        collector_inv_def snapshot_list_def restrict_map_def split: if_splits)
next
  case False
  obtain c1 obs ferr where ct: "collectTemperatures env disks decision poll c = (c1, obs, ferr)"
    by (metis prod_cases3)
  have obs: "list_all2 observes obs disks"
    using collectTemperatures_observes [of env disks decision poll c] ct by simp
  then have ids: "map ob_disk obs = disks" by (rule observes_ids)
  then have dist: "distinct (map ob_id obs)" using disks(2) by (simp add: comp_def flip: ids)
  define g where "g = (if 0 < poll then dur_add poll diskWakeMargin else 0)"
  obtain st rds where ap: "tracker_apply (dc_state c1) obs (re_finishedAt env) g = (st, rds)"
    by (cases "tracker_apply (dc_state c1) obs (re_finishedAt env) g")
  have rds: "rds = map (\<lambda>ob. reading_of (dc_state c1) ob (re_finishedAt env) g) obs"
    using tracker_apply_readings [OF dist] ap by (metis snd_conv)
  let ?rs = "buildDiskRuntimeSnapshot st rds obs"
  have rs: "snapshot_ok ?rs" "map rt_disk ?rs = disks"
    using build_snapshot [OF obs disks, of st "dc_state c1"] rds by simp_all
  have sids: "snapshot_ids ?rs = map ud_id disks"
    using rs(2) by (simp only: snapshot_ids_map)
  have "dom st \<subseteq> ob_id ` set obs" using tracker_apply_dom [of "dc_state c1" obs "re_finishedAt env" g] ap by simp
  then have "dom st \<subseteq> set (snapshot_ids ?rs)"
    unfolding sids ids [symmetric] by (simp add: image_image)
  then show ?thesis
    using False rs
    by (auto simp: finish_refresh_def ct g_def [symmetric] ap publishDiskSuccess_def published_def collector_inv_def
        snapshot_list_def Let_def split: prod.split)
qed

lemma refresh_ok:
  assumes "collector_inv c"
  shows "collector_inv (refreshWithContext env c) \<and>
    (case refresh_inventory env c of
       Inl e \<Rightarrow> dc_err (refreshWithContext env c) = Some e
     | Inr disks \<Rightarrow> published disks (re_finishedAt env) (refreshWithContext env c))"
proof -
  obtain c1 decision poll where b: "begin_refresh env c = (c1, decision, poll)" by (metis prod_cases3)
  obtain c2 inv where r: "readInventory env c1 = (c2, inv)" by (cases "readInventory env c1")
  have ri: "refresh_inventory env c = inv" by (simp add: refresh_inventory_def b r)
  have "same_published c c2"
    using same_published_trans begin_refresh_same [of c env] readInventory_same [of c1 env] b r by auto
  then have ci: "collector_inv c2" using assms collector_inv_same by blast
  show ?thesis
  proof (cases inv)
    case (Inl e)
    have "dom (invalidateContinuity s) = dom s" for s by (auto simp: invalidateContinuity_def)
    then show ?thesis using Inl ci ri
      by (simp add: refreshWithContext_def b r publishDiskFailure_def collector_inv_def snapshot_list_def)
  next
    case (Inr disks)
    then show ?thesis
      using finish_refresh_ok [OF ci] refresh_inventory_ok [of env c disks] ri
      by (simp add: refreshWithContext_def b r)
  qed
qed

interpretation collector: step_invariant "\<lambda>c. \<exists>paths. c = newDiskCollector paths" collector_step collector_inv
proof
  show "collector_inv c" if "\<exists>paths. c = newDiskCollector paths" for c
    using that by (auto simp: collector_inv_def newDiskCollector_def snapshot_list_def snapshot_ok_def snapshot_ids_def)
  show "collector_inv (collector_step c e)" if "collector_inv c" for c e
  proof (cases e)
    case (Refresh env)
    then show ?thesis using refresh_ok [OF that] by simp
  next
    case (Heartbeat t)
    have "same_published c (collector_noteEmhttpPoll t c)"
      by (simp add: same_published_def collector_noteEmhttpPoll_def)
    then show ?thesis using Heartbeat that collector_inv_same by simp
  qed
qed

definition collector_after :: "diskDataPaths \<Rightarrow> collector_event list \<Rightarrow> diskCollector" where
  "collector_after paths es = run_events collector_step (newDiskCollector paths) es"

lemma collector_after_inv: "collector_inv (collector_after paths es)"
  unfolding collector_after_def by (rule collector.inv_run) blast

lemma collector_after_snoc [simp]:
  "collector_after paths (es @ [e]) = collector_step (collector_after paths es) e"
  by (simp add: collector_after_def)

subsection \<open>Freshness over time\<close>

definition is_refresh :: "collector_event \<Rightarrow> bool" where
  "is_refresh e = (case e of Refresh _ \<Rightarrow> True | Heartbeat _ \<Rightarrow> False)"

lemma last_refresh_published:
  assumes "dc_err (collector_after paths es) = None"
  shows "\<exists>pre env post disks. es = pre @ Refresh env # post \<and> (\<forall>e \<in> set post. \<not> is_refresh e) \<and>
    refresh_inventory env (collector_after paths pre) = Inr disks \<and>
    published disks (re_finishedAt env) (collector_after paths es)"
  using assms
proof (induction es rule: rev_induct)
  case Nil
  then show ?case by (simp add: collector_after_def newDiskCollector_def)
next
  case (snoc e es)
  show ?case
  proof (cases e)
    case (Refresh env)
    note ok = refresh_ok [OF collector_after_inv [of paths es], of env]
    show ?thesis
    proof (cases "refresh_inventory env (collector_after paths es)")
      case (Inl err)
      then show ?thesis using ok snoc.prems Refresh by simp
    next
      case (Inr disks)
      then show ?thesis using ok Refresh
        by (intro exI [of _ es] exI [of _ env] exI [of _ "[]"] exI [of _ disks]) simp
    qed
  next
    case (Heartbeat t)
    then have "dc_err (collector_after paths es) = None"
      using snoc.prems by (simp add: collector_noteEmhttpPoll_def)
    then obtain pre env post disks where "es = pre @ Refresh env # post" "\<forall>e \<in> set post. \<not> is_refresh e"
        "refresh_inventory env (collector_after paths pre) = Inr disks"
        "published disks (re_finishedAt env) (collector_after paths es)"
      using snoc.IH by blast
    moreover have "published disks (re_finishedAt env) (collector_after paths (es @ [e]))"
      using Heartbeat calculation(4) by (simp add: published_def collector_noteEmhttpPoll_def)
    moreover have "\<not> is_refresh e" using Heartbeat by (simp add: is_refresh_def)
    ultimately show ?thesis
      by (intro exI [of _ pre] exI [of _ env] exI [of _ "post @ [e]"] exI [of _ disks]) auto
  qed
qed

subsection \<open>Reuse\<close>

lemma previous_runtime_found:
  assumes "distinct (snapshot_ids (snapshot_list c))" "r \<in> set (snapshot_list c)"
  shows "previous_runtime c (ud_id (rt_disk r)) = Some r"
proof -
  let ?kvs = "map (\<lambda>r. (ud_id (rt_disk r), r)) (snapshot_list c)"
  have "distinct (map fst (rev ?kvs))" using assms(1) by (simp add: snapshot_ids_def rev_map [symmetric] comp_def)
  moreover have "(ud_id (rt_disk r), r) \<in> set (rev ?kvs)" using assms(2) by auto
  ultimately show ?thesis unfolding previous_runtime_def by (rule map_of_is_SomeI)
qed

subsection \<open>Properties\<close>

text \<open>
  C7: A disk snapshot is only handed out while it is fresh. Whatever refreshes, failures and
  heartbeats came before: when the collector answers with readings, its last refresh read the
  inventory without an error, finished less than 15 seconds ago, and the readings are those of
  exactly the disks of that inventory, in its order; after a refresh that could not read the
  inventory it answers with an error until one succeeds.
\<close>

theorem disk_snapshot_fresh:
  assumes "disk_snapshot (collector_after paths es) now = Inr rds"
  shows "\<exists>pre env post disks rs. es = pre @ Refresh env # post \<and> (\<forall>e \<in> set post. \<not> is_refresh e) \<and>
    refresh_inventory env (collector_after paths pre) = Inr disks \<and>
    now < re_finishedAt env + 15 * second \<and> rds = Some rs \<and> map disk_ID rs = map ud_id disks"
proof -
  let ?c = "collector_after paths es"
  have err: "dc_err ?c = None" and fresh: "\<not> disk_stale ?c now"
    and rds: "rds = diskReadingsFromRuntime (dc_lastSuccessfulSnapshot ?c)"
    using assms by (auto simp: disk_snapshot_def split: option.splits if_splits)
  obtain pre env post disks where es: "es = pre @ Refresh env # post" "\<forall>e \<in> set post. \<not> is_refresh e"
      "refresh_inventory env (collector_after paths pre) = Inr disks"
      "published disks (re_finishedAt env) ?c"
    using last_refresh_published [OF err] by blast
  then obtain rt where rt: "dc_lastSuccessfulSnapshot ?c = Some rt" "map rt_disk rt = disks"
      "dc_updatedAt ?c = re_finishedAt env" by (auto simp: published_def)
  have "snapshot_ok rt" using collector_after_inv [of paths es] rt by (simp add: collector_inv_def snapshot_list_def)
  then have "map disk_ID (map rt_reading rt) = map ud_id disks"
    unfolding rt(2) [symmetric] by (auto simp: snapshot_ok_def list_all_iff runtime_ok_def reading_matches_def)
  moreover have "now < re_finishedAt env + 15 * second"
    using fresh rt(3) by (simp add: disk_stale_def go_simps)
  ultimately show ?thesis using es rds rt by (auto simp: diskReadingsFromRuntime_def)
qed


text \<open>
  C30: Between two direct polls a reading is only carried over for the disk it was taken from: a disk
  of the last snapshot keeps its temperature and availability while its descriptive fields follow
  the inventory, and a disk that was not in it, or any disk after a failed refresh, is unavailable.
\<close>

theorem reuse_keeps_readings:
  assumes "c = collector_after paths es" and "d \<in> set disks"
  shows "reading_matches (rt_reading (reuse_one c d)) d \<and>
    (if dc_err c = None \<and> (\<exists>r \<in> set (snapshot_list c). ud_id (rt_disk r) = ud_id d)
     then \<exists>r \<in> set (snapshot_list c). disk_ID (rt_reading r) = ud_id d \<and>
       disk_Temp (rt_reading (reuse_one c d)) = disk_Temp (rt_reading r) \<and>
       disk_Unavailable (rt_reading (reuse_one c d)) = disk_Unavailable (rt_reading r)
     else disk_Unavailable (rt_reading (reuse_one c d)) \<and> disk_Temp (rt_reading (reuse_one c d)) = Fin 0) \<and>
    reuse_one c d \<in> set (snd (reuseFallbackSnapshot disks c))"
proof -
  have ok: "snapshot_ok (snapshot_list c)" using collector_after_inv [of paths es] assms(1) by (simp add: collector_inv_def)
  have m: "reading_matches (rt_reading (reuse_one c d)) d"
    by (simp add: reuse_one_def reading_matches_def Let_def)
  have i: "reuse_one c d \<in> set (snd (reuseFallbackSnapshot disks c))"
    using assms(2) by (simp add: reuseFallbackSnapshot_def)
  show ?thesis
  proof (cases "dc_err c = None \<and> (\<exists>r \<in> set (snapshot_list c). ud_id (rt_disk r) = ud_id d)")
    case True
    then obtain r where r: "r \<in> set (snapshot_list c)" "ud_id (rt_disk r) = ud_id d" by blast
    have "previous_runtime c (ud_id d) = Some r"
      using previous_runtime_found [OF _ r(1)] ok r(2) by (simp add: snapshot_ok_def)
    moreover have "disk_ID (rt_reading r) = ud_id d"
      using ok r by (auto simp: snapshot_ok_def list_all_iff runtime_ok_def reading_matches_def)
    ultimately show ?thesis using True r m i by (auto simp: reuse_one_def Let_def)
  next
    case False
    have "dc_err c \<noteq> None \<or> previous_runtime c (ud_id d) = None"
      using False previous_runtime_in [of c "ud_id d"] by (cases "previous_runtime c (ud_id d)") auto
    then show ?thesis using False m i by (auto simp: reuse_one_def Let_def)
  qed
qed

text \<open>A system with one watched disk, refreshed once.\<close>

definition example_paths :: diskDataPaths where
  "example_paths =
    \<lparr>pa_disksINI = ''disks.ini'', pa_devsINI = ''devs.ini'', pa_varINI = ''var.ini'', pa_sysBlockRoot = [],
     pa_policyFile = [], pa_sdspin = [], pa_smartctlType = []\<rparr>"

definition example_one_disk :: "string \<Rightarrow> ini_file result" where
  "example_one_disk path = Inr (if path = ''disks.ini'' then [example_section ''disk1'' ''WDC-1'' ''sdb''] else [])"

definition example_refresh :: refresh_env where
  "example_refresh =
    \<lparr>re_decisionAt = 10 * second, re_finishedAt = 11 * second, re_readFile = (\<lambda>_. Inl not_exist_error),
     re_iniData = (\<lambda>_. Inr []), re_iniLoad = example_one_disk, re_os = example_os [], re_sysfs = example_sysfs,
     re_claims = 0, re_exec = (\<lambda>_. example_exec)\<rparr>"

definition example_readings :: "Disk list" where
  "example_readings =
    [\<lparr>disk_ID = ''WDC-1'', disk_Name = ''disk1'', disk_Device = ''sdb'', disk_Transport = ''ata'',
      disk_Rotational = True, disk_Temp = Fin 31, disk_Unavailable = False\<rparr>]"

lemma example_snapshot:
  "disk_snapshot (collector_after example_paths [Refresh example_refresh]) (20 * second) = Inr (Some example_readings)"
  by code_simp

theorem disk_snapshot_fresh_witness:
  "\<exists>pre env post disks. [Refresh example_refresh] = pre @ Refresh env # post \<and>
    refresh_inventory env (collector_after example_paths pre) = Inr disks \<and>
    20 * second < re_finishedAt env + 15 * second \<and> map disk_ID example_readings = map ud_id disks"
  using disk_snapshot_fresh [OF example_snapshot] by blast


theorem reuse_keeps_readings_witness:
  "reading_matches (rt_reading (reuse_one (collector_after example_paths [Refresh example_refresh]) (example_disk False)))
     (example_disk False)"
  using reuse_keeps_readings [OF refl, of "example_disk False" "[example_disk False]" example_paths "[Refresh example_refresh]"]
  by simp

end
