(* ===== verification/Hba_Identity.thy ===== *)
theory Hba_Identity
  imports Sensors_Model
begin

text \<open>
  The identity of a host bus adapter and its readings (first part of \<^verbatim>\<open>hba.go\<close>): the stable
  identifier built from the SAS address or the PCI location, and the reading assembled from the
  metadata and the temperature probes.
\<close>

record hbaMetadata =
  hm_id :: string
  hm_model :: string
  hm_pciAddress :: string

record hbaTemperatures =
  ht_ioc :: "float64 option"
  ht_board :: "float64 option"

definition makeHBAReading :: "hbaMetadata \<Rightarrow> hbaTemperatures \<Rightarrow> HBA option" where
  "makeHBAReading metadata temperatures =
    (case (case ht_ioc temperatures of None \<Rightarrow> ht_board temperatures | Some t \<Rightarrow> Some t) of
       None \<Rightarrow> None
     | Some legacy \<Rightarrow>
         Some \<lparr>hba_ID = hm_id metadata, hba_Model = hm_model metadata, hba_PCIAddress = hm_pciAddress metadata,
               hba_Temp = legacy, hba_IOCTemp = ht_ioc temperatures, hba_BoardTemp = ht_board temperatures\<rparr>)"

definition maxSASAddressSize :: nat where "maxSASAddressSize = 16"
definition maxPCIAddressSize :: nat where "maxPCIAddressSize = length ''0000:00:00.0''"
definition maxSASHBAStableIDSize :: nat where "maxSASHBAStableIDSize = length ''sas:'' + maxSASAddressSize"
definition maxPCIHBAStableIDSize :: nat where "maxPCIHBAStableIDSize = length ''pci:'' + maxPCIAddressSize"
definition maxLegacySerialHBAStableIDSize :: nat where "maxLegacySerialHBAStableIDSize = length ''serial:'' + 32"

definition maxHBAStableIDSize :: nat where
  "maxHBAStableIDSize = max maxSASHBAStableIDSize (max maxPCIHBAStableIDSize maxLegacySerialHBAStableIDSize)"

definition normalizeSASAddress :: "string \<Rightarrow> string" where
  "normalizeSASAddress address0 =
    (let address1 = TrimPrefix (ToLower (TrimSpace address0)) ''0x'';
         address = filter (\<lambda>c. c \<noteq> CHR '':'' \<and> c \<noteq> CHR ''-'' \<and> c \<noteq> CHR '' '') address1
     in case ParseUint address 16 64 of
          Inl _ \<Rightarrow> []
        | Inr v \<Rightarrow> if v = 0 then [] else pad_left 16 (CHR ''0'') (digits 16 v))"

definition hbaIdentityValue :: "string \<Rightarrow> string" where
  "hbaIdentityValue value0 =
    (let v = TrimSpace value0 in
     if ToLower v \<in> {[], ''n/a'', ''na'', ''none'', ''unknown''} then [] else v)"

definition hbaStableID :: "string \<Rightarrow> string \<Rightarrow> string" where
  "hbaStableID sasAddress pciAddress =
    (let a = hbaIdentityValue sasAddress;
         n = (if a = [] then [] else normalizeSASAddress a)
     in if n \<noteq> [] then ''sas:'' @ n else if pciAddress \<noteq> [] then ''pci:'' @ pciAddress else [])"

subsection \<open>Canonical SAS addresses\<close>

text \<open>The printed form of an address: sixteen lower-case hexadecimal digits.\<close>

definition sas_text :: "nat \<Rightarrow> string" where
  "sas_text v = pad_left 16 (CHR ''0'') (digits 16 v)"

lemma sas_text_length: "v < 2 ^ 64 \<Longrightarrow> length (sas_text v) = 16"
  using length_digits [of 16 v 15] by (simp add: sas_text_def pad_left_def)

lemma parse_leading_zeros: "parse_digits 16 (2 ^ 64) 0 (replicate k (CHR ''0'') @ s) = parse_digits 16 (2 ^ 64) 0 s"
  by (induction k) (simp_all add: digit_val_def)

lemma parse_sas_text: "v < 2 ^ 64 \<Longrightarrow> parse_digits 16 (2 ^ 64) 0 (sas_text v) = Inr v"
  unfolding sas_text_def pad_left_def by (simp only: parse_leading_zeros) (simp add: parse_digits_digits)

lemma hex_digit_lower: "d < 16 \<Longrightarrow> hex_digit d \<in> set ''0123456789abcdef''"
proof -
  have "list_all (\<lambda>d. hex_digit d \<in> set ''0123456789abcdef'') [0..<16]" by code_simp
  then show "d < 16 \<Longrightarrow> ?thesis" by (simp add: list_all_iff)
qed

lemma zero_digit: "CHR ''0'' = hex_digit 0"
  by code_simp

lemma sas_text_chars: "c \<in> set (sas_text v) \<Longrightarrow> \<exists>d < 16. c = hex_digit d"
proof -
  assume "c \<in> set (sas_text v)"
  then have "c = hex_digit 0 \<or> c \<in> set (digits 16 v)"
    unfolding sas_text_def pad_left_def zero_digit by auto
  then show ?thesis
  proof
    assume "c = hex_digit 0"
    then show ?thesis by (intro exI [of _ 0]) simp
  qed (use digits_set [of 16 c v] in simp)
qed

lemma hex_digit_byte: "d < 16 \<Longrightarrow> byte (hex_digit d) = (if d < 10 then 48 + d else 87 + d)"
  by (simp add: hex_digit_def)

lemma sas_text_bytes:
  assumes "c \<in> set (sas_text v)"
  shows "byte c < 0x80" "\<not> IsSpace (byte c)" "rune_lower (byte c) = byte c"
    "c \<noteq> CHR '':'' \<and> c \<noteq> CHR ''-'' \<and> c \<noteq> CHR '' ''" "c \<noteq> CHR ''x''"
proof -
  obtain d where d: "d < 16" "c = hex_digit d" using sas_text_chars [OF assms] by blast
  then have b: "byte c = (if d < 10 then 48 + d else 87 + d)" by (simp add: hex_digit_byte)
  show "byte c < 0x80" "\<not> IsSpace (byte c)" "rune_lower (byte c) = byte c"
    using b d(1) by (simp_all add: IsSpace_def rune_lower_def)
  have "byte c \<noteq> 58 \<and> byte c \<noteq> 45 \<and> byte c \<noteq> 32 \<and> byte c \<noteq> 120" using b d(1) by simp
  then show "c \<noteq> CHR '':'' \<and> c \<noteq> CHR ''-'' \<and> c \<noteq> CHR '' ''" "c \<noteq> CHR ''x''" by auto
qed

lemma normalize_sas_text: "0 < v \<Longrightarrow> v < 2 ^ 64 \<Longrightarrow> normalizeSASAddress (sas_text v) = sas_text v"
proof -
  assume v: "0 < v" "v < 2 ^ 64"
  let ?s = "sas_text v"
  have ts: "TrimSpace ?s = ?s" using sas_text_bytes by (intro TrimSpace_ascii) blast
  have tl: "ToLower ?s = ?s" using sas_text_bytes by (intro ToLower_ascii) blast
  have "CHR ''x'' \<notin> set ?s" using sas_text_bytes by blast
  then have "\<not> HasPrefix ?s ''0x''" by (auto simp: HasPrefix_iff)
  then have tp: "TrimPrefix ?s ''0x'' = ?s" by (simp add: TrimPrefix_def)
  have f: "filter (\<lambda>c. c \<noteq> CHR '':'' \<and> c \<noteq> CHR ''-'' \<and> c \<noteq> CHR '' '') ?s = ?s"
    using sas_text_bytes by (intro filter_True) blast
  have ne: "?s \<noteq> []" using sas_text_length [OF v(2)] by auto
  have "ParseUint ?s 16 64 = Inr v" using ne parse_sas_text [OF v(2)] by (simp add: ParseUint_def)
  then show ?thesis using v
    by (simp add: normalizeSASAddress_def Let_def ts tl tp f sas_text_def [symmetric])
qed

lemma ParseUint_bound: "ParseUint s b n = Inr v \<Longrightarrow> v < 2 ^ n"
  by (auto simp: ParseUint_def split: if_splits sum.splits intro: parse_digits_bound)

lemma normalizeSASAddress_cases:
  "normalizeSASAddress s = [] \<or> (\<exists>v. 0 < v \<and> v < 2 ^ 64 \<and> normalizeSASAddress s = sas_text v)"
  by (auto simp: normalizeSASAddress_def Let_def sas_text_def split: sum.split dest!: ParseUint_bound)

text \<open>
  C34: The normalised form of a SAS address is empty or the sixteen lower-case hexadecimal digits
  of a nonzero 64-bit value, which reads back from it; normalising it again changes nothing.
\<close>

theorem normalizeSASAddress_canonical:
  "normalizeSASAddress s = [] \<and> normalizeSASAddress (normalizeSASAddress s) = [] \<or>
    (\<exists>v. 0 < v \<and> v < 2 ^ 64 \<and> normalizeSASAddress s = sas_text v \<and> length (sas_text v) = 16 \<and>
      list_all (\<lambda>c. c \<in> set ''0123456789abcdef'') (sas_text v) \<and> parse_digits 16 (2 ^ 64) 0 (sas_text v) = Inr v \<and>
      normalizeSASAddress (normalizeSASAddress s) = normalizeSASAddress s)"
proof (cases "normalizeSASAddress s = []")
  case True
  moreover have "normalizeSASAddress [] = []" by code_simp
  ultimately show ?thesis by simp
next
  case False
  then obtain v where "0 < v" "v < 2 ^ 64" "normalizeSASAddress s = sas_text v"
    using normalizeSASAddress_cases [of s] by auto
  moreover have "list_all (\<lambda>c. c \<in> set ''0123456789abcdef'') (sas_text v)"
    unfolding list_all_iff using sas_text_chars hex_digit_lower by blast
  ultimately show ?thesis
    using sas_text_length [of v] parse_sas_text [of v] normalize_sas_text [of v] by metis
qed

text \<open>
  A stable identifier derived from a PCI location of the usual form never exceeds the size the
  host reserves for it, and is empty only when neither identity is known.
\<close>

lemma hbaStableID_bound:
  assumes "length pci \<le> maxPCIAddressSize"
  shows "length (hbaStableID sas pci) \<le> maxHBAStableIDSize \<and>
    (hbaStableID sas pci = [] \<longleftrightarrow> pci = [] \<and> (hbaIdentityValue sas = [] \<or> normalizeSASAddress (hbaIdentityValue sas) = []))"
proof -
  have "length (normalizeSASAddress (hbaIdentityValue sas)) \<le> 16"
    using normalizeSASAddress_cases [of "hbaIdentityValue sas"] sas_text_length by auto
  then show ?thesis using assms
    by (auto simp: hbaStableID_def Let_def maxHBAStableIDSize_def maxSASHBAStableIDSize_def maxSASAddressSize_def
        maxPCIHBAStableIDSize_def maxLegacySerialHBAStableIDSize_def maxPCIAddressSize_def)
qed

end
