(* ===== verification/Hba_Sysfs.thy ===== *)
theory Hba_Sysfs
  imports Hba_Identity Disk_Bus
begin

text \<open>
  The controllers that sysfs lists (\<^verbatim>\<open>hba_sysfs.go\<close>) and the normal form of a PCI address
  (\<^verbatim>\<open>normalizePCIAddress\<close> of \<^verbatim>\<open>hba_storcli.go\<close>). Directory listings, file contents and
  resolved links come from the operating system and are an argument; a context is the answers its
  \<^verbatim>\<open>Err\<close> gives to the successive calls, nil once they are used up.
\<close>

subsection \<open>Contexts\<close>

type_synonym context_answers = "go_error option list"

fun ctx_Err :: "context_answers \<Rightarrow> go_error option \<times> context_answers" where
  "ctx_Err [] = (None, [])"
| "ctx_Err (e # es) = (e, es)"

subsection \<open>PCI addresses\<close>

text \<open>\<^verbatim>\<open>strings.LastIndexByte\<close>, which is \<open>-1\<close> when the byte is missing.\<close>

definition LastIndexByte :: "string \<Rightarrow> char \<Rightarrow> int" where
  "LastIndexByte s c = int (length (dropWhile (\<lambda>d. d \<noteq> c) (rev s))) - 1"

definition hex_pad :: "nat \<Rightarrow> nat \<Rightarrow> string" where
  "hex_pad w v = pad_left w (CHR ''0'') (digits 16 v)"

fun parse_hex_parts :: "string list \<Rightarrow> nat list option" where
  "parse_hex_parts [] = Some []"
| "parse_hex_parts (p # ps) =
    (case ParseUint p 16 16 of
       Inl _ \<Rightarrow> None
     | Inr v \<Rightarrow> map_option ((#) v) (parse_hex_parts ps))"

definition normalizePCIAddress :: "string \<Rightarrow> string" where
  "normalizePCIAddress address0 =
    (let trimmed = TrimSpace address0;
         dot = LastIndexByte trimmed (CHR ''.'');
         address = (if LastIndexByte trimmed (CHR '':'') < dot
                    then take (nat dot) trimmed @ '':'' @ drop (nat dot + 1) trimmed else trimmed);
         parts = split_on (CHR '':'') address
     in if length parts \<noteq> 4 then []
        else case parse_hex_parts parts of
          None \<Rightarrow> []
        | Some vs \<Rightarrow>
            if 0xffff < vs ! 0 \<or> 0xff < vs ! 1 \<or> 0x1f < vs ! 2 \<or> 7 < vs ! 3 then []
            else hex_pad 4 (vs ! 0) @ '':'' @ hex_pad 2 (vs ! 1) @ '':'' @ hex_pad 2 (vs ! 2) @ ''.'' @ digits 16 (vs ! 3))"

text \<open>The walk from a device path towards the root, until a component is a PCI address.\<close>

definition comps_weight :: "string list \<Rightarrow> nat" where
  "comps_weight cs = sum_list (map (\<lambda>c. Suc (length c)) cs)"

lemma comps_weight_simps [simp]:
  "comps_weight [] = 0" "comps_weight (c # cs) = Suc (length c + comps_weight cs)"
  "comps_weight (cs @ ds) = comps_weight cs + comps_weight ds" "comps_weight (rev cs) = comps_weight cs"
  by (simp_all add: comps_weight_def rev_map [symmetric] sum_list_rev)

lemma length_joinWith: "cs \<noteq> [] \<Longrightarrow> Suc (length (joinWith ''/'' cs)) = comps_weight cs"
  by (induction cs rule: induct_list012) auto

lemma split_on_weight: "comps_weight (split_on sep s) = Suc (length s)"
proof (induction s)
  case (Cons c s)
  then show ?case by (cases "split_on sep s") auto
qed simp

lemma clean_comps_weight:
  "comps_weight (clean_comps rooted acc cs) \<le> comps_weight acc + comps_weight (filter (\<lambda>c. c \<noteq> []) cs)"
proof (induction rooted acc cs rule: clean_comps.induct)
  case (2 rooted acc c cs)
  show ?case
  proof (cases "c = [] \<or> c = ''.''")
    case False
    show ?thesis
    proof (cases "c = ''..''")
      case True
      then show ?thesis using 2(2,3) False by (cases acc) (auto split: if_splits)
    qed (use 2(4) False in auto)
  qed (use 2(1) in auto)
qed simp

lemma split_on_slash_end: "s = t @ [sep] \<Longrightarrow> \<exists>cs. split_on sep s = cs @ [[]] \<and> cs \<noteq> []"
proof (induction t arbitrary: s)
  case (Cons c t)
  obtain cs where cs: "split_on sep (t @ [sep]) = cs @ [[]]" "cs \<noteq> []" using Cons by blast
  show ?case
  proof (cases "c = sep")
    case True
    then show ?thesis using cs Cons.prems by (intro exI [of _ "[] # cs"]) simp
  next
    case False
    then show ?thesis using cs Cons.prems by (cases cs) auto
  qed
qed simp

lemma path_comps_weight: "comps_weight (path_comps p) \<le> comps_weight (filter (\<lambda>c. c \<noteq> []) (split_on slash p))"
  using clean_comps_weight [of "IsAbs p" "[]" "split_on slash p"] by (simp add: path_comps_def)

lemma comps_weight_filter: "comps_weight (filter P cs) \<le> comps_weight cs"
  by (induction cs) auto

lemma IsAbs_weight: "IsAbs p \<Longrightarrow> comps_weight (filter (\<lambda>c. c \<noteq> []) (split_on slash p)) \<le> length p"
proof -
  assume "IsAbs p"
  then obtain q where "p = slash # q" by (auto simp: IsAbs_def HasPrefix_iff)
  then show ?thesis
    using comps_weight_filter [of "\<lambda>c. c \<noteq> []" "split_on slash q"] split_on_weight [of slash q] by simp
qed

lemma length_Clean: "length (Clean p) \<le> max 1 (length p)"
proof (cases "path_comps p = []")
  case True
  then show ?thesis by (simp add: Clean_def abs_path_def)
next
  case False
  have "comps_weight (path_comps p) \<le> Suc (length p)"
    using path_comps_weight [of p] comps_weight_filter [of "\<lambda>c. c \<noteq> []" "split_on slash p"] split_on_weight [of slash p]
    by simp
  then show ?thesis
    using False length_joinWith [OF False] path_comps_weight [of p] IsAbs_weight [of p]
    by (auto simp: Clean_def abs_path_def)
qed

lemma length_Clean_slash: "p = t @ ''/'' \<Longrightarrow> p \<noteq> ''/'' \<Longrightarrow> length (Clean p) < length p"
proof -
  assume p: "p = t @ ''/''" "p \<noteq> ''/''"
  then have t: "t \<noteq> []" by auto
  obtain cs where cs: "split_on slash p = cs @ [[]]" "cs \<noteq> []" using split_on_slash_end p(1) by blast
  have w: "comps_weight cs = length p" using split_on_weight [of slash p] cs by simp
  then have le: "comps_weight (path_comps p) \<le> length p"
    using path_comps_weight [of p] comps_weight_filter [of "\<lambda>c. c \<noteq> []" cs] cs by simp
  show ?thesis
  proof (cases "path_comps p = []")
    case True
    then show ?thesis using t p(1) by (cases t) (auto simp: Clean_def abs_path_def)
  next
    case False
    show ?thesis
    proof (cases "IsAbs p")
      case True
      then obtain q where q: "p = slash # q" by (auto simp: IsAbs_def HasPrefix_iff)
      then obtain q' where "q = q' @ ''/''" using p t by (cases t) auto
      then obtain ds where ds: "split_on slash q = ds @ [[]]" using split_on_slash_end by blast
      have "comps_weight ds = length q" using split_on_weight [of slash q] ds by simp
      then have "comps_weight (path_comps p) \<le> length q"
        using path_comps_weight [of p] comps_weight_filter [of "\<lambda>c. c \<noteq> []" ds] ds q by simp
      then show ?thesis using True False length_joinWith [OF False] q by (simp add: Clean_def abs_path_def)
    next
      case notabs: False
      then show ?thesis using False le length_joinWith [OF False] by (simp add: Clean_def)
    qed
  qed
qed

text \<open>\<^verbatim>\<open>filepath.Dir\<close> gets closer to its fixed point, which is the root or the current directory.\<close>

definition path_rank :: "string \<Rightarrow> nat" where
  "path_rank p = (if p = ''.'' then 0 else Suc (length p))"

lemma dir_part_snoc: "dir_part (p @ [c]) = (if c = slash then p @ [c] else dir_part p)"
  by (simp add: dir_part_def)

lemma length_dir_part: "length (dir_part p) \<le> length p"
  using length_dropWhile_le [of "\<lambda>c. c \<noteq> slash" "rev p"] by (simp add: dir_part_def)

lemma Dir_rank: "Dir p \<noteq> p \<Longrightarrow> path_rank (Dir p) < path_rank p"
proof (cases p rule: rev_cases)
  case Nil
  then show ?thesis by (simp add: Dir_def dir_part_def Clean_def path_comps_def IsAbs_def HasPrefix_def path_rank_def)
next
  case (snoc q c)
  assume ne: "Dir p \<noteq> p"
  show ?thesis
  proof (cases "c = slash")
    case True
    then have d: "dir_part p = p" by (simp add: snoc dir_part_snoc)
    have "p \<noteq> ''/''"
    proof
      assume "p = ''/''"
      moreover have "Dir ''/'' = ''/''" by code_simp
      ultimately show False using ne by simp
    qed
    then have "length (Clean p) < length p" using length_Clean_slash [of p q] snoc True by simp
    then show ?thesis using d snoc True by (auto simp: Dir_def path_rank_def)
  next
    case False
    then have d: "dir_part p = dir_part q" by (simp add: snoc dir_part_snoc)
    show ?thesis
    proof (cases "dir_part q = []")
      case True
      then have "Dir p = ''.''" by (simp add: Dir_def d Clean_def path_comps_def IsAbs_def HasPrefix_def)
      then show ?thesis using ne by (auto simp: path_rank_def)
    next
      case ne2: False
      have "length (Dir p) \<le> max 1 (length (dir_part q))" using length_Clean [of "dir_part q"] by (simp add: Dir_def d)
      moreover have "1 \<le> length (dir_part q)" using ne2 by (cases "dir_part q") auto
      moreover have "length (dir_part q) < length p" using length_dir_part [of q] snoc by simp
      ultimately show ?thesis using snoc False by (auto simp: path_rank_def)
    qed
  qed
qed

function pci_walk :: "string \<Rightarrow> string" where
  "pci_walk current =
    (let pci = normalizePCIAddress (Base current); parent = Dir current in
     if pci \<noteq> [] then pci else if parent = current then [] else pci_walk parent)"
  by pat_completeness auto
termination by (relation "measure path_rank") (auto intro: Dir_rank)

definition pciAddressFromSysfsPath :: "string \<Rightarrow> string" where
  "pciAddressFromSysfsPath path = pci_walk (Clean path)"

subsection \<open>The inventory of sysfs\<close>

definition defaultSCSIHostRoot :: string where
  "defaultSCSIHostRoot = ''/sys/class/scsi_host''"

record sysfsHBA =
  sh_hostPath :: string
  sh_driver :: string
  sh_metadata :: hbaMetadata

record sysfs_tree =
  tr_ReadDir :: "string \<Rightarrow> string list result"
  tr_ReadFile :: "string \<Rightarrow> string result"
  tr_EvalSymlinks :: "string \<Rightarrow> string result"

definition errNoHBA :: go_error where
  "errNoHBA = GoErr ''no HBA controllers found'' [ErrNoHBA]"

definition readSysfsHBAAttribute :: "sysfs_tree \<Rightarrow> string \<Rightarrow> bool \<Rightarrow> string result" where
  "readSysfsHBAAttribute tree path optional =
    (case tr_ReadFile tree path of
       Inl err \<Rightarrow> if optional \<and> errors_Is err ErrNotExist then Inr [] else Inl err
     | Inr v \<Rightarrow> Inr (hbaIdentityValue v))"

text \<open>
  One entry of the listing, given what the earlier ones registered: an error, nothing, or one more
  controller.
\<close>

definition sysfs_host ::
    "sysfs_tree \<Rightarrow> string \<Rightarrow> (string \<rightharpoonup> hbaMetadata) \<Rightarrow> (string \<rightharpoonup> string) \<Rightarrow> string \<Rightarrow> sysfsHBA option result" where
  "sysfs_host tree hostRoot metadataByPCI identities name =
    (if \<not> HasPrefix name ''host'' then Inr None
     else let host = path_Join [hostRoot, name] in
     case readSysfsHBAAttribute tree (path_Join [host, ''proc_name'']) False of
       Inl err \<Rightarrow> Inl (Errorf_w (''read '' @ name @ '' driver: '') err [])
     | Inr driver \<Rightarrow>
         if driver \<noteq> ''mpt3sas'' \<and> driver \<noteq> ''megaraid_sas'' then Inr None
         else case tr_EvalSymlinks tree (path_Join [host, ''device'']) of
           Inl err \<Rightarrow> Inl (Errorf_w (''resolve '' @ name @ '' device: '') err [])
         | Inr device \<Rightarrow>
             let pci = pciAddressFromSysfsPath device in
             if pci = [] then Inl (errors_New (name @ '' device '' @ quote device @ '' has no PCI address''))
             else case metadataByPCI pci of
               Some previous \<Rightarrow>
                 Inl (errors_New (''SCSI hosts for PCI controller '' @ pci @ '' appear more than once (previous identity ''
                   @ quote (hm_id previous) @ '')''))
             | None \<Rightarrow>
                 (case readSysfsHBAAttribute tree (path_Join [host, ''host_sas_address'']) True of
                    Inl err \<Rightarrow> Inl (Errorf_w (''read '' @ name @ '' SAS address: '') err [])
                  | Inr sas \<Rightarrow>
                      (case readSysfsHBAAttribute tree (path_Join [host, ''board_name'']) True of
                         Inl err \<Rightarrow> Inl (Errorf_w (''read '' @ name @ '' board name: '') err [])
                       | Inr model \<Rightarrow>
                           let hid = hbaStableID sas pci in
                           (case identities hid of
                              Some previous \<Rightarrow>
                                Inl (errors_New (''SCSI hosts at '' @ previous @ '' and '' @ pci @ '' have duplicate identity ''
                                  @ quote hid))
                            | None \<Rightarrow>
                                Inr (Some \<lparr>sh_hostPath = host, sh_driver = driver,
                                  sh_metadata = \<lparr>hm_id = hid, hm_model = model, hm_pciAddress = pci\<rparr>\<rparr>)))))"

fun discover_loop ::
    "sysfs_tree \<Rightarrow> string \<Rightarrow> context_answers \<Rightarrow> string list \<Rightarrow> sysfsHBA list \<Rightarrow> (string \<rightharpoonup> hbaMetadata) \<Rightarrow> (string \<rightharpoonup> string) \<Rightarrow>
     sysfsHBA list result \<times> context_answers" where
  "discover_loop tree hostRoot ctx [] hbas byPCI ids = (Inr hbas, ctx)"
| "discover_loop tree hostRoot ctx (name # names) hbas byPCI ids =
    (case ctx_Err ctx of
       (Some err, ctx1) \<Rightarrow> (Inl err, ctx1)
     | (None, ctx1) \<Rightarrow>
         (case sysfs_host tree hostRoot byPCI ids name of
            Inl err \<Rightarrow> (Inl err, ctx1)
          | Inr None \<Rightarrow> discover_loop tree hostRoot ctx1 names hbas byPCI ids
          | Inr (Some h) \<Rightarrow>
              discover_loop tree hostRoot ctx1 names (hbas @ [h])
                (byPCI(hm_pciAddress (sh_metadata h) \<mapsto> sh_metadata h))
                (ids(hm_id (sh_metadata h) \<mapsto> hm_pciAddress (sh_metadata h)))))"

definition discoverSysfsHBAs :: "sysfs_tree \<Rightarrow> string \<Rightarrow> context_answers \<Rightarrow> sysfsHBA list result \<times> context_answers" where
  "discoverSysfsHBAs tree hostRoot ctx =
    (case ctx_Err ctx of
       (Some err, ctx1) \<Rightarrow> (Inl err, ctx1)
     | (None, ctx1) \<Rightarrow>
         (case tr_ReadDir tree hostRoot of
            Inl err \<Rightarrow> (Inl (Errorf_w ''read SCSI host inventory: '' err []), ctx1)
          | Inr entries \<Rightarrow>
              (case discover_loop tree hostRoot ctx1 entries [] Map.empty Map.empty of
                 (Inl err, ctx2) \<Rightarrow> (Inl err, ctx2)
               | (Inr hbas, ctx2) \<Rightarrow> (if hbas = [] then Inl errNoHBA else Inr hbas, ctx2))))"

definition sysfsHBAMetadataByPCI :: "sysfsHBA list \<Rightarrow> (string \<rightharpoonup> hbaMetadata)" where
  "sysfsHBAMetadataByPCI hbas =
    foldl (\<lambda>m h. m(hm_pciAddress (sh_metadata h) \<mapsto> sh_metadata h)) Map.empty hbas"

definition readMPT3IOC :: "sysfs_tree \<Rightarrow> string \<Rightarrow> int result" where
  "readMPT3IOC tree path =
    (case tr_ReadFile tree path of
       Inl err \<Rightarrow> Inl err
     | Inr v \<Rightarrow>
         let raw = TrimSpace v in
         (case ParseUint raw 10 8 of
            Inl err \<Rightarrow> Inl (Errorf_w (''invalid decimal IOC '' @ quote raw @ '': '') err [])
          | Inr ioc \<Rightarrow> Inr (int ioc)))"

text \<open>
  The map from IOC numbers to metadata, as an association list in the order of insertion; the
  order in which a \<^verbatim>\<open>range\<close> visits it is chosen by the runtime (\<open>range_over\<close> below).
\<close>

fun ioc_loop ::
    "sysfs_tree \<Rightarrow> context_answers \<Rightarrow> sysfsHBA list \<Rightarrow> (int \<times> hbaMetadata) list \<Rightarrow>
     (int \<times> hbaMetadata) list result \<times> context_answers" where
  "ioc_loop tree ctx [] m = (Inr m, ctx)"
| "ioc_loop tree ctx (h # hs) m =
    (case ctx_Err ctx of
       (Some err, ctx1) \<Rightarrow> (Inl err, ctx1)
     | (None, ctx1) \<Rightarrow>
         if sh_driver h \<noteq> ''mpt3sas'' then ioc_loop tree ctx1 hs m
         else case readMPT3IOC tree (path_Join [sh_hostPath h, ''unique_id'']) of
           Inl err \<Rightarrow> (Inl (Errorf_w (''read '' @ Base (sh_hostPath h) @ '' unique ID: '') err []), ctx1)
         | Inr ioc \<Rightarrow>
             (case map_of m ioc of
                Some previous \<Rightarrow>
                  (Inl (errors_New (''mpt3sas IOC '' @ FormatInt ioc @ '' appears more than once at ''
                     @ hm_pciAddress previous @ '' and '' @ hm_pciAddress (sh_metadata h))), ctx1)
              | None \<Rightarrow> ioc_loop tree ctx1 hs (m @ [(ioc, sh_metadata h)])))"

definition mpt3HBAMetadataByIOC ::
    "sysfs_tree \<Rightarrow> context_answers \<Rightarrow> sysfsHBA list \<Rightarrow> (int \<times> hbaMetadata) list result \<times> context_answers" where
  "mpt3HBAMetadataByIOC tree ctx hbas = ioc_loop tree ctx hbas []"

subsection \<open>Normal forms of PCI addresses\<close>

definition pci_text :: "nat \<Rightarrow> nat \<Rightarrow> nat \<Rightarrow> nat \<Rightarrow> string" where
  "pci_text d b s f = hex_pad 4 d @ '':'' @ hex_pad 2 b @ '':'' @ hex_pad 2 s @ ''.'' @ digits 16 f"

definition pci_range :: "nat \<Rightarrow> nat \<Rightarrow> nat \<Rightarrow> nat \<Rightarrow> bool" where
  "pci_range d b s f = (d < 0x10000 \<and> b < 0x100 \<and> s < 0x20 \<and> f < 8)"

lemma parse_zeros: "0 < n \<Longrightarrow> parse_digits 16 n 0 (replicate k (CHR ''0'') @ s) = parse_digits 16 n 0 s"
  by (induction k) (simp_all add: digit_val_def)

lemma ParseUint_hex_pad: "v < 0x10000 \<Longrightarrow> ParseUint (hex_pad w v) 16 16 = Inr v"
  by (simp add: ParseUint_def hex_pad_def pad_left_def parse_zeros parse_digits_digits)

lemma ParseUint_hex: "v < 0x10000 \<Longrightarrow> ParseUint (digits 16 v) 16 16 = Inr v"
  by (simp add: ParseUint_def parse_digits_digits)

lemma hex_pad_chars: "c \<in> set (hex_pad w v) \<Longrightarrow> \<exists>d < 16. c = hex_digit d"
proof -
  assume "c \<in> set (hex_pad w v)"
  then have "c = hex_digit 0 \<or> c \<in> set (digits 16 v)" unfolding hex_pad_def pad_left_def zero_digit by auto
  then show ?thesis
  proof
    assume "c = hex_digit 0"
    then show ?thesis by (intro exI [of _ 0]) simp
  qed (use digits_set [of 16 c v] in simp)
qed

lemma hex_digit_plain: "d < 16 \<Longrightarrow> byte (hex_digit d) < 0x80 \<and> \<not> IsSpace (byte (hex_digit d)) \<and>
    hex_digit d \<noteq> CHR '':'' \<and> hex_digit d \<noteq> CHR ''.''"
proof -
  assume d: "d < 16"
  then have b: "byte (hex_digit d) = (if d < 10 then 48 + d else 87 + d)" by (rule hex_digit_byte)
  have "byte (hex_digit d) \<noteq> 58 \<and> byte (hex_digit d) \<noteq> 46" using b d by simp
  then have "hex_digit d \<noteq> CHR '':'' \<and> hex_digit d \<noteq> CHR ''.''" by auto
  then show ?thesis using b d by (simp add: IsSpace_def)
qed

lemma hex_pad_plain: "c \<in> set (hex_pad w v) \<union> set (digits 16 v) \<Longrightarrow> byte c < 0x80 \<and> \<not> IsSpace (byte c) \<and> c \<noteq> CHR '':'' \<and> c \<noteq> CHR ''.''"
  using hex_pad_chars [of c w v] digits_set [of 16 c v] hex_digit_plain by fastforce

lemma length_hex_pad: "0 < w \<Longrightarrow> v < 16 ^ w \<Longrightarrow> length (hex_pad w v) = w"
  using length_digits [of 16 v "w - 1"] by (simp add: hex_pad_def pad_left_def)

lemma digits_one: "f < 16 \<Longrightarrow> digits 16 f = [hex_digit f]"
  by (simp add: digits.simps)

lemma pci_text_length: "pci_range d b s f \<Longrightarrow> length (pci_text d b s f) = 12"
  by (simp add: pci_text_def pci_range_def length_hex_pad digits_one)

lemma LastIndexByte_append: "c \<notin> set t \<Longrightarrow> LastIndexByte (s @ c # t) c = int (length s)"
proof -
  assume "c \<notin> set t"
  then have "dropWhile (\<lambda>d. d \<noteq> c) (rev t @ c # rev s) = c # rev s"
    by (subst dropWhile_append2) auto
  then show ?thesis by (simp add: LastIndexByte_def)
qed

lemma LastIndexByte_less: "c \<notin> set t \<Longrightarrow> LastIndexByte (s @ t) c < int (length s)"
proof -
  assume "c \<notin> set t"
  then have "dropWhile (\<lambda>d. d \<noteq> c) (rev t @ rev s) = dropWhile (\<lambda>d. d \<noteq> c) (rev s)"
    by (subst dropWhile_append2) auto
  then show ?thesis
    using length_dropWhile_le [of "\<lambda>d. d \<noteq> c" "rev s"] by (simp add: LastIndexByte_def)
qed

lemma normalize_pci_text:
  assumes "pci_range d b s f"
  shows "normalizePCIAddress (pci_text d b s f) = pci_text d b s f"
proof -
  define pre where "pre = hex_pad 4 d @ '':'' @ hex_pad 2 b @ '':'' @ hex_pad 2 s"
  have t: "pci_text d b s f = pre @ CHR ''.'' # digits 16 f" by (simp add: pci_text_def pre_def)
  have dots: "CHR ''.'' \<notin> set (digits 16 f)" "CHR '':'' \<notin> set (digits 16 f)"
    using hex_pad_plain by blast+
  have colons: "CHR '':'' \<notin> set (hex_pad w v)" for w v using hex_pad_plain by blast
  have "byte c < 0x80 \<and> \<not> IsSpace (byte c)" if "c \<in> set (pci_text d b s f)" for c
  proof -
    have "c \<in> {CHR '':'', CHR ''.''} \<or> (\<exists>w v. c \<in> set (hex_pad w v) \<union> set (digits 16 v))"
      using that by (auto simp: pci_text_def)
    then show ?thesis using hex_pad_plain by (auto simp: IsSpace_def)
  qed
  then have trim: "TrimSpace (pci_text d b s f) = pci_text d b s f" by (intro TrimSpace_ascii) blast
  have dot: "LastIndexByte (pci_text d b s f) (CHR ''.'') = int (length pre)"
    using dots by (simp add: t LastIndexByte_append)
  have colon: "LastIndexByte (pci_text d b s f) (CHR '':'') < int (length pre)"
    using dots by (subst t, intro LastIndexByte_less) simp
  have parts: "split_on (CHR '':'') (pre @ '':'' @ digits 16 f) = [hex_pad 4 d, hex_pad 2 b, hex_pad 2 s, digits 16 f]"
    using colons dots by (simp add: pre_def split_on_append split_on_free)
  have body: "take (length pre) (pci_text d b s f) @ '':'' @ drop (length pre + 1) (pci_text d b s f) = pre @ '':'' @ digits 16 f"
    by (simp add: t)
  have vs: "parse_hex_parts [hex_pad 4 d, hex_pad 2 b, hex_pad 2 s, digits 16 f] = Some [d, b, s, f]"
    using assms by (simp add: pci_range_def ParseUint_hex_pad ParseUint_hex)
  have "normalizePCIAddress (pci_text d b s f) =
      hex_pad 4 d @ '':'' @ hex_pad 2 b @ '':'' @ hex_pad 2 s @ ''.'' @ digits 16 f"
    unfolding normalizePCIAddress_def Let_def trim dot nat_int if_P [OF colon] body parts vs
    using assms by (simp add: pci_range_def)
  then show ?thesis by (simp add: pci_text_def)
qed

lemma format_cases:
  "(case parse_hex_parts ps of
      None \<Rightarrow> []
    | Some vs \<Rightarrow>
        if 0xffff < vs ! 0 \<or> 0xff < vs ! 1 \<or> 0x1f < vs ! 2 \<or> 7 < vs ! 3 then []
        else hex_pad 4 (vs ! 0) @ '':'' @ hex_pad 2 (vs ! 1) @ '':'' @ hex_pad 2 (vs ! 2) @ ''.'' @ digits 16 (vs ! 3)) = x \<Longrightarrow>
   x = [] \<or> (\<exists>d b s f. pci_range d b s f \<and> x = pci_text d b s f)"
proof (cases "parse_hex_parts ps")
  case (Some vs)
  assume "(case parse_hex_parts ps of None \<Rightarrow> [] | Some vs \<Rightarrow>
        if 0xffff < vs ! 0 \<or> 0xff < vs ! 1 \<or> 0x1f < vs ! 2 \<or> 7 < vs ! 3 then []
        else hex_pad 4 (vs ! 0) @ '':'' @ hex_pad 2 (vs ! 1) @ '':'' @ hex_pad 2 (vs ! 2) @ ''.'' @ digits 16 (vs ! 3)) = x"
  then have "x = [] \<or> pci_range (vs ! 0) (vs ! 1) (vs ! 2) (vs ! 3) \<and> x = pci_text (vs ! 0) (vs ! 1) (vs ! 2) (vs ! 3)"
    using Some by (auto simp: pci_range_def pci_text_def split: if_splits)
  then show ?thesis by blast
qed simp

lemma normalizePCI_cases:
  "normalizePCIAddress a = [] \<or> (\<exists>d b s f. pci_range d b s f \<and> normalizePCIAddress a = pci_text d b s f)"
proof -
  obtain ps where "normalizePCIAddress a = (if length ps \<noteq> 4 then [] else case parse_hex_parts ps of None \<Rightarrow> [] | Some vs \<Rightarrow>
        if 0xffff < vs ! 0 \<or> 0xff < vs ! 1 \<or> 0x1f < vs ! 2 \<or> 7 < vs ! 3 then []
        else hex_pad 4 (vs ! 0) @ '':'' @ hex_pad 2 (vs ! 1) @ '':'' @ hex_pad 2 (vs ! 2) @ ''.'' @ digits 16 (vs ! 3))"
    unfolding normalizePCIAddress_def Let_def by blast
  then show ?thesis using format_cases [of ps] by (cases "length ps = 4") (simp_all only: simp_thms if_True if_False)
qed

text \<open>The normal form of an address: empty or twelve characters, and stable.\<close>

lemma normalizePCI_canonical:
  "normalizePCIAddress a \<noteq> [] \<Longrightarrow> length (normalizePCIAddress a) = maxPCIAddressSize \<and>
    normalizePCIAddress (normalizePCIAddress a) = normalizePCIAddress a"
  using normalizePCI_cases [of a] normalize_pci_text pci_text_length by (auto simp: maxPCIAddressSize_def)

lemma pci_walk_normal: "pci_walk p = [] \<or> (\<exists>a. pci_walk p = normalizePCIAddress a)"
proof (induction p rule: pci_walk.induct)
  case (1 p)
  then show ?case by (subst (1 2) pci_walk.simps) (auto simp: Let_def simp del: pci_walk.simps)
qed

declare pci_walk.simps [simp del]

subsection \<open>The inventory is well formed\<close>

definition hba_host_ok :: "sysfsHBA \<Rightarrow> bool" where
  "hba_host_ok h =
    (sh_driver h \<in> {''mpt3sas'', ''megaraid_sas''} \<and>
     normalizePCIAddress (hm_pciAddress (sh_metadata h)) = hm_pciAddress (sh_metadata h) \<and>
     length (hm_pciAddress (sh_metadata h)) = maxPCIAddressSize \<and>
     hm_id (sh_metadata h) \<noteq> [] \<and> length (hm_id (sh_metadata h)) \<le> maxHBAStableIDSize)"

definition host_pcis :: "sysfsHBA list \<Rightarrow> string list" where
  "host_pcis hbas = map (\<lambda>h. hm_pciAddress (sh_metadata h)) hbas"

definition host_ids :: "sysfsHBA list \<Rightarrow> string list" where
  "host_ids hbas = map (\<lambda>h. hm_id (sh_metadata h)) hbas"

definition hosts_ok :: "sysfsHBA list \<Rightarrow> bool" where
  "hosts_ok hbas = (list_all hba_host_ok hbas \<and> distinct (host_pcis hbas) \<and> distinct (host_ids hbas))"

lemma stable_id_ok:
  assumes "length pci = maxPCIAddressSize"
  shows "hbaStableID sas pci \<noteq> [] \<and> length (hbaStableID sas pci) \<le> maxHBAStableIDSize"
proof -
  have "length (normalizeSASAddress (hbaIdentityValue sas)) \<le> 16"
    using normalizeSASAddress_cases [of "hbaIdentityValue sas"] sas_text_length by auto
  moreover have "pci \<noteq> []" using assms by (auto simp: maxPCIAddressSize_def)
  ultimately show ?thesis using assms
    by (simp add: hbaStableID_def Let_def maxHBAStableIDSize_def maxSASHBAStableIDSize_def maxSASAddressSize_def
        maxPCIHBAStableIDSize_def maxLegacySerialHBAStableIDSize_def maxPCIAddressSize_def)
qed

lemma sysfs_host_ok:
  assumes "sysfs_host tree hostRoot byPCI ids name = Inr (Some h)"
  shows "hba_host_ok h \<and> byPCI (hm_pciAddress (sh_metadata h)) = None \<and> ids (hm_id (sh_metadata h)) = None"
proof -
  obtain driver device sas model pci where p: "pci = pciAddressFromSysfsPath device" "pci \<noteq> []" "byPCI pci = None"
      "ids (hbaStableID sas pci) = None" "driver = ''mpt3sas'' \<or> driver = ''megaraid_sas''"
    and h: "h = \<lparr>sh_hostPath = path_Join [hostRoot, name], sh_driver = driver,
        sh_metadata = \<lparr>hm_id = hbaStableID sas pci, hm_model = model, hm_pciAddress = pci\<rparr>\<rparr>"
    using assms by (auto simp: sysfs_host_def Let_def split: if_splits sum.splits option.splits)
  obtain a where a: "pci = normalizePCIAddress a"
    using p pci_walk_normal by (auto simp: pciAddressFromSysfsPath_def)
  show ?thesis using p h normalizePCI_canonical [of a] stable_id_ok [of pci sas] a by (simp add: hba_host_ok_def)
qed

lemma discover_loop_ok:
  assumes "discover_loop tree hostRoot ctx names hbas byPCI ids = (Inr out, ctx')"
    and "hosts_ok hbas" "dom byPCI = set (host_pcis hbas)" "dom ids = set (host_ids hbas)"
  shows "hosts_ok out"
  using assms
proof (induction names arbitrary: ctx hbas byPCI ids)
  case (Cons name names)
  obtain ctx1 where c: "ctx_Err ctx = (None, ctx1)" using Cons.prems(1) by (auto split: prod.splits option.splits)
  show ?case
  proof (cases "sysfs_host tree hostRoot byPCI ids name")
    case (Inr r)
    show ?thesis
    proof (cases r)
      case None
      then show ?thesis using Cons c Inr by simp
    next
      case (Some h)
      have h: "hba_host_ok h" "byPCI (hm_pciAddress (sh_metadata h)) = None" "ids (hm_id (sh_metadata h)) = None"
        using sysfs_host_ok Inr Some by auto
      have "hm_pciAddress (sh_metadata h) \<notin> set (host_pcis hbas)" "hm_id (sh_metadata h) \<notin> set (host_ids hbas)"
        using h Cons.prems(3,4) by (metis domIff)+
      then have "hosts_ok (hbas @ [h])" using Cons.prems(2) h(1)
        by (simp add: hosts_ok_def host_pcis_def host_ids_def)
      have dom_upd: "dom (f(x \<mapsto> y)) = insert x (dom f)" for f :: "string \<rightharpoonup> 'v" and x y by simp
      show ?thesis
      proof (rule Cons.IH)
        show "discover_loop tree hostRoot ctx1 names (hbas @ [h]) (byPCI(hm_pciAddress (sh_metadata h) \<mapsto> sh_metadata h))
            (ids(hm_id (sh_metadata h) \<mapsto> hm_pciAddress (sh_metadata h))) = (Inr out, ctx')"
          using Cons.prems(1) c Inr Some by simp
        show "hosts_ok (hbas @ [h])" by fact
        show "dom (byPCI(hm_pciAddress (sh_metadata h) \<mapsto> sh_metadata h)) = set (host_pcis (hbas @ [h]))"
          unfolding dom_upd Cons.prems(3) by (simp add: host_pcis_def)
        show "dom (ids(hm_id (sh_metadata h) \<mapsto> hm_pciAddress (sh_metadata h))) = set (host_ids (hbas @ [h]))"
          unfolding dom_upd Cons.prems(4) by (simp add: host_ids_def)
      qed
    qed
  qed (use Cons c in simp)
qed simp

lemma discovered_hosts_ok: "discoverSysfsHBAs tree hostRoot ctx = (Inr hbas, ctx') \<Longrightarrow> hosts_ok hbas"
  using discover_loop_ok [of tree hostRoot _ _ "[]" Map.empty Map.empty]
  by (auto simp: discoverSysfsHBAs_def hosts_ok_def host_pcis_def host_ids_def split: prod.splits option.splits sum.splits if_splits)

text \<open>
  C40: Whatever sysfs contains, an HBA inventory that is accepted is not empty, lists only
  controllers of the two supported drivers, gives every controller a canonical PCI address and a
  stable identifier that is not empty and fits the size reserved by the host, and repeats neither
  an address nor an identifier.
\<close>

theorem sysfs_inventory_ok:
  assumes "discoverSysfsHBAs tree hostRoot ctx = (Inr hbas, ctx')"
  shows "hbas \<noteq> [] \<and> hosts_ok hbas"
  using assms discovered_hosts_ok [OF assms]
  by (auto simp: discoverSysfsHBAs_def split: prod.splits option.splits sum.splits if_splits)

definition example_tree :: sysfs_tree where
  "example_tree =
    \<lparr>tr_ReadDir = (\<lambda>p. Inr [''host0'', ''host1'', ''host2'']),
     tr_ReadFile = (\<lambda>p.
       if p = ''/h/host0/proc_name'' then Inr (''mpt3sas'' @ [CHR 0x0A])
       else if p = ''/h/host1/proc_name'' then Inr ''ahci''
       else if p = ''/h/host2/proc_name'' then Inr ''megaraid_sas''
       else if p = ''/h/host0/host_sas_address'' then Inr ''0x500605b0123456f0''
       else if p = ''/h/host0/board_name'' then Inr ''SAS9300-8i''
       else if p = ''/h/host0/unique_id'' then Inr ''0''
       else Inl (GoErr ''no such file or directory'' [ErrNotExist])),
     tr_EvalSymlinks = (\<lambda>p.
       if p = ''/h/host0/device'' then Inr ''/sys/devices/pci0000:00/0000:01:00.0/host0''
       else Inr ''/sys/devices/pci0000:00/0000:02:00.0/host2'')\<rparr>"

definition example_hosts :: "sysfsHBA list" where
  "example_hosts =
    [\<lparr>sh_hostPath = ''/h/host0'', sh_driver = ''mpt3sas'',
      sh_metadata = \<lparr>hm_id = ''sas:500605b0123456f0'', hm_model = ''SAS9300-8i'', hm_pciAddress = ''0000:01:00.0''\<rparr>\<rparr>,
     \<lparr>sh_hostPath = ''/h/host2'', sh_driver = ''megaraid_sas'',
      sh_metadata = \<lparr>hm_id = ''pci:0000:02:00.0'', hm_model = [], hm_pciAddress = ''0000:02:00.0''\<rparr>\<rparr>]"

lemma example_discovered: "discoverSysfsHBAs example_tree ''/h'' [] = (Inr example_hosts, [])"
  by code_simp

theorem sysfs_inventory_ok_witness:
  "discoverSysfsHBAs example_tree ''/h'' [] = (Inr example_hosts, []) \<and> example_hosts \<noteq> [] \<and> hosts_ok example_hosts"
  using example_discovered sysfs_inventory_ok [OF example_discovered] by blast

subsection \<open>Metadata by address and by controller number\<close>

lemma fold_byPCI:
  "foldl (\<lambda>m h. m(hm_pciAddress (sh_metadata h) \<mapsto> sh_metadata h)) m0 hbas pci = Some m \<Longrightarrow>
    m0 pci = Some m \<or> (m \<in> sh_metadata ` set hbas \<and> hm_pciAddress m = pci)"
  by (induction hbas arbitrary: m0) (fastforce split: if_splits)+

lemma metadataByPCI_SomeD:
  "sysfsHBAMetadataByPCI hbas pci = Some m \<Longrightarrow> m \<in> sh_metadata ` set hbas \<and> hm_pciAddress m = pci"
  using fold_byPCI [of Map.empty hbas pci m] by (simp add: sysfsHBAMetadataByPCI_def)

text \<open>Controllers of a well-formed inventory are determined by their identifier.\<close>

lemma distinct_map_inj: "distinct (map f xs) \<Longrightarrow> x \<in> set xs \<Longrightarrow> y \<in> set xs \<Longrightarrow> f x = f y \<Longrightarrow> x = y"
  by (meson distinct_map inj_onD)

lemma hosts_ids_inj:
  "hosts_ok hbas \<Longrightarrow> m \<in> sh_metadata ` set hbas \<Longrightarrow> n \<in> sh_metadata ` set hbas \<Longrightarrow> hm_id m = hm_id n \<Longrightarrow> m = n"
  using distinct_map_inj [of "\<lambda>h. hm_id (sh_metadata h)" hbas] unfolding hosts_ok_def host_ids_def by blast

lemma ioc_loop_ok:
  assumes "ioc_loop tree ctx hs m = (Inr out, ctx')" "distinct (map fst m)" "distinct (host_ids (g @ hs))"
    and "map snd m = map sh_metadata (filter (\<lambda>h. sh_driver h = ''mpt3sas'') g)"
  shows "distinct (map fst out) \<and> map snd out = map sh_metadata (filter (\<lambda>h. sh_driver h = ''mpt3sas'') (g @ hs))"
  using assms
proof (induction hs arbitrary: ctx m g)
  case (Cons h hs)
  obtain ctx1 where c: "ctx_Err ctx = (None, ctx1)" using Cons.prems(1) by (auto split: prod.splits option.splits)
  show ?case
  proof (cases "sh_driver h = ''mpt3sas''")
    case False
    then show ?thesis using Cons.IH [of ctx1 m "g @ [h]"] Cons.prems c by simp
  next
    case True
    then obtain ioc where ioc: "map_of m ioc = None"
        "ioc_loop tree ctx1 hs (m @ [(ioc, sh_metadata h)]) = (Inr out, ctx')"
      using Cons.prems(1) c by (auto split: sum.splits option.splits)
    then have "ioc \<notin> fst ` set m" by (simp add: map_of_eq_None_iff)
    then show ?thesis
      using Cons.IH [of ctx1 "m @ [(ioc, sh_metadata h)]" "g @ [h]"] Cons.prems ioc(2) True by simp
  qed
qed simp

lemma metadataByIOC_ok:
  "mpt3HBAMetadataByIOC tree ctx hbas = (Inr m, ctx') \<Longrightarrow> hosts_ok hbas \<Longrightarrow>
    distinct (map fst m) \<and> map snd m = map sh_metadata (filter (\<lambda>h. sh_driver h = ''mpt3sas'') hbas)"
  using ioc_loop_ok [of tree ctx hbas "[]" m ctx' "[]"] by (simp add: mpt3HBAMetadataByIOC_def hosts_ok_def)

subsection \<open>Ranging over a map\<close>

text \<open>
  A Go \<^verbatim>\<open>range\<close> over a map visits every key once in an order the runtime chooses; the order is a
  function on the list of keys.
\<close>

type_synonym 'k range_order = "'k list \<Rightarrow> 'k list"

definition range_over :: "'k range_order \<Rightarrow> ('k \<times> 'v) list \<Rightarrow> ('k \<times> 'v) list" where
  "range_over order m = map (\<lambda>k. (k, the (map_of m k))) (order (map fst m))"

definition fair_order :: "'k range_order \<Rightarrow> bool" where
  "fair_order order = (\<forall>ks. mset (order ks) = mset ks)"

lemma mset_range_over:
  assumes "fair_order order" "distinct (map fst m)"
  shows "mset (range_over order m) = mset m"
proof -
  have "mset (range_over order m) = image_mset (\<lambda>k. (k, the (map_of m k))) (mset (map fst m))"
    using assms(1) by (simp add: range_over_def fair_order_def)
  also have "\<dots> = mset (map (\<lambda>p. (fst p, the (map_of m (fst p)))) m)" by (simp add: multiset.map_comp comp_def)
  also have "map (\<lambda>p. (fst p, the (map_of m (fst p)))) m = m"
    using assms(2) by (intro map_idI) (auto simp: map_of_eq_Some_iff)
  finally show ?thesis .
qed

lemma set_range_over: "fair_order order \<Longrightarrow> distinct (map fst m) \<Longrightarrow> set (range_over order m) = set m"
  by (metis mset_range_over set_mset_mset)

text \<open>
  \<^verbatim>\<open>sort.Slice\<close> by identifier. Its result is determined when the identifiers differ, which the
  callers guarantee.
\<close>

definition sort_readings :: "HBA list \<Rightarrow> HBA list" where
  "sort_readings rs = sort_key hba_ID rs"

lemma sort_readings_unique:
  assumes "mset rs = mset qs" "distinct (map hba_ID rs)"
  shows "sort_readings rs = sort_readings qs"
proof -
  have "inj_on hba_ID (set rs)" using assms(2) by (simp add: distinct_map)
  then show ?thesis using sort_key_inj_key_eq [of rs "sort_key hba_ID qs" hba_ID] assms(1)
    by (simp add: sort_readings_def)
qed

subsection \<open>The readings of a backend\<close>

text \<open>What every backend promises of the list it returns.\<close>

definition finite_probe :: "float64 option \<Rightarrow> bool" where
  "finite_probe t = (case t of None \<Rightarrow> True | Some x \<Rightarrow> (case x of Fin _ \<Rightarrow> True | _ \<Rightarrow> False))"

definition temperatures_ok :: "hbaTemperatures \<Rightarrow> bool" where
  "temperatures_ok t = (finite_probe (ht_ioc t) \<and> finite_probe (ht_board t))"

definition metadata_ok :: "hbaMetadata \<Rightarrow> bool" where
  "metadata_ok m = (hm_id m \<noteq> [] \<and> length (hm_id m) \<le> maxHBAStableIDSize)"

definition reading_ok :: "HBA \<Rightarrow> bool" where
  "reading_ok r =
    (hba_ID r \<noteq> [] \<and> length (hba_ID r) \<le> maxHBAStableIDSize \<and> finite_probe (hba_IOCTemp r) \<and> finite_probe (hba_BoardTemp r) \<and>
     Some (hba_Temp r) = (case hba_IOCTemp r of None \<Rightarrow> hba_BoardTemp r | Some t \<Rightarrow> Some t))"

definition readings_ok :: "HBA list \<Rightarrow> bool" where
  "readings_ok rs = (sorted_wrt (<) (map hba_ID rs) \<and> list_all reading_ok rs)"

definition readings_of :: "(hbaMetadata \<times> hbaTemperatures) list \<Rightarrow> HBA list" where
  "readings_of ps = List.map_filter (\<lambda>p. makeHBAReading (fst p) (snd p)) ps"

lemma readings_of_simps [simp]:
  "readings_of [] = []"
  "readings_of (p # ps) = (case makeHBAReading (fst p) (snd p) of None \<Rightarrow> readings_of ps | Some r \<Rightarrow> r # readings_of ps)"
  by (simp_all add: readings_of_def split: option.split)

lemma makeHBAReading_ok:
  "makeHBAReading m t = Some r \<Longrightarrow> metadata_ok m \<Longrightarrow> temperatures_ok t \<Longrightarrow> reading_ok r \<and> hba_ID r = hm_id m"
  by (auto simp: makeHBAReading_def reading_ok_def metadata_ok_def temperatures_ok_def split: option.splits)

lemma makeHBAReading_ID: "makeHBAReading m t = Some r \<Longrightarrow> hba_ID r = hm_id m"
  by (auto simp: makeHBAReading_def split: option.splits)

lemma readings_of_mset: "mset (readings_of ps) = image_mset the (filter_mset (\<lambda>r. r \<noteq> None)
    (image_mset (\<lambda>p. makeHBAReading (fst p) (snd p)) (mset ps)))"
  by (induction ps) (auto split: option.split)

lemma readings_of_ids: "set (map hba_ID (readings_of ps)) \<subseteq> set (map (\<lambda>p. hm_id (fst p)) ps)"
  by (induction ps) (auto split: option.splits dest: makeHBAReading_ID)

lemma readings_of_distinct: "distinct (map (\<lambda>p. hm_id (fst p)) ps) \<Longrightarrow> distinct (map hba_ID (readings_of ps))"
proof (induction ps)
  case (Cons p ps)
  have "hm_id (fst p) \<notin> hba_ID ` set (readings_of ps)" using Cons.prems readings_of_ids [of ps] by auto
  then show ?case using Cons makeHBAReading_ID [of "fst p" "snd p"]
    by (cases "makeHBAReading (fst p) (snd p)") auto
qed simp

lemma readings_of_ok:
  "list_all (\<lambda>p. metadata_ok (fst p) \<and> temperatures_ok (snd p)) ps \<Longrightarrow> list_all reading_ok (readings_of ps)"
  by (induction ps) (auto split: option.split dest: makeHBAReading_ok)

lemma sorted_readings_ok:
  assumes "distinct (map (\<lambda>p. hm_id (fst p)) ps)"
    and "list_all (\<lambda>p. metadata_ok (fst p) \<and> temperatures_ok (snd p)) ps"
  shows "readings_ok (sort_readings (readings_of ps))"
proof -
  let ?rs = "sort_readings (readings_of ps)"
  have "distinct (map hba_ID ?rs)"
    using readings_of_distinct [OF assms(1)]
    by (metis mset_map mset_sort mset_eq_imp_distinct_iff sort_readings_def)
  then have "sorted_wrt (<) (map hba_ID ?rs)"
    using strict_sorted_iff [of "map hba_ID ?rs"] by (simp add: sort_readings_def)
  moreover have "list_all reading_ok ?rs"
    using readings_of_ok [OF assms(2)] by (simp add: list_all_iff sort_readings_def)
  ultimately show ?thesis by (simp add: readings_ok_def)
qed

lemma sort_readings_mset:
  "mset ps = mset qs \<Longrightarrow> distinct (map (\<lambda>p. hm_id (fst p)) ps) \<Longrightarrow>
    sort_readings (readings_of ps) = sort_readings (readings_of qs)"
  by (intro sort_readings_unique) (simp_all add: readings_of_mset readings_of_distinct)

lemma hosts_metadata_ok: "hosts_ok hbas \<Longrightarrow> m \<in> sh_metadata ` set hbas \<Longrightarrow> metadata_ok m"
  by (auto simp: hosts_ok_def hba_host_ok_def metadata_ok_def list_all_iff)

end
