(* ===== verification/Go_Round.thy ===== *)
theory Go_Round
  imports Go_Float
begin

text \<open>
  How far rounding to binary64 moves a value: by half a unit in the last place, which is
  negligible for temperatures.
\<close>

lemma round_half_even_close: "\<bar>of_int (round_half_even x) - x\<bar> \<le> 1 / 2"
proof -
  define k where "k = floor x"
  have "of_int k \<le> x" "x < of_int k + 1" unfolding k_def by linarith+
  then have "of_int (round_half_even x) - x \<le> 1 / 2" "- (of_int (round_half_even x) - x) \<le> 1 / 2"
    by (auto simp: round_half_even_def Let_def k_def [symmetric])
  then show ?thesis by (rule abs_leI)
qed

lemma bitlen_power: "0 < a \<Longrightarrow> (2 :: rat) powi (bitlen a - 1) \<le> of_int a \<and> (of_int a :: rat) < 2 powi bitlen a"
proof -
  assume a: "0 < a"
  then have b: "2 ^ nat (bitlen a - 1) \<le> a" "a < 2 ^ nat (bitlen a)" using bitlen_bounds [of a] by auto
  have p: "0 < bitlen a" using a bitlen_nonneg [of a] bitlen_eq_zero_iff [of a] by simp
  have "(2 :: rat) powi (bitlen a - 1) = of_int (2 ^ nat (bitlen a - 1))" "(2 :: rat) powi bitlen a = of_int (2 ^ nat (bitlen a))"
    using p by (simp_all add: power_int_def)
  then show ?thesis using b by (simp only: of_int_le_iff of_int_less_iff)
qed

lemma ulp_exp_lower: "x \<noteq> 0 \<Longrightarrow> 2 powi (ulp_exp x + 52) \<le> \<bar>x\<bar>"
proof -
  assume x: "x \<noteq> 0"
  obtain a b where q: "quotient_of \<bar>x\<bar> = (a, b)" by (cases "quotient_of \<bar>x\<bar>")
  then have b: "0 < b" and xab: "\<bar>x\<bar> = of_int a / of_int b"
    using quotient_of_denom_pos quotient_of_div by blast+
  have "0 < of_int a / (of_int b :: rat)" using x by (simp flip: xab)
  then have a: "0 < a" using b by (simp add: zero_less_divide_iff)
  let ?e = "bitlen a - bitlen b - 53"
  have "(2 :: rat) powi (?e + 52) = 2 powi (bitlen a - 1) / 2 powi bitlen b"
    by (simp flip: power_int_diff add: algebra_simps)
  also have "\<dots> \<le> of_int a / of_int b"
    using bitlen_power [OF a] bitlen_power [OF b] a b by (intro frac_le) (auto intro: less_imp_le)
  finally have lo: "(2 :: rat) powi (?e + 52) \<le> \<bar>x\<bar>" using xab by simp
  show ?thesis
  proof (cases "\<bar>x\<bar> < 2 powi (?e + 53)")
    case True
    then show ?thesis using lo by (simp add: ulp_exp_def q Let_def)
  next
    case False
    then show ?thesis by (simp add: ulp_exp_def q Let_def algebra_simps)
  qed
qed

text \<open>A result in range differs from the exact one by half a unit in the last place at most.\<close>

lemma f64_round_close:
  assumes "\<bar>x\<bar> \<le> 10 ^ 9"
  shows "\<exists>v. f64_round x = Fin v \<and> \<bar>v - x\<bar> \<le> \<bar>x\<bar> / 10 ^ 15 + 1 / 10 ^ 15"
proof (cases "x = 0")
  case False
  define e where "e = max (ulp_exp x) (- 1074)"
  define v where "v = of_int (round_half_even (x / 2 powi e)) * (2 :: rat) powi e"
  have pe: "(0 :: rat) < 2 powi e" by simp
  have "v - x = (of_int (round_half_even (x / 2 powi e)) - x / 2 powi e) * 2 powi e"
    using pe by (simp add: v_def algebra_simps)
  then have "\<bar>v - x\<bar> = \<bar>of_int (round_half_even (x / 2 powi e)) - x / 2 powi e\<bar> * 2 powi e"
    using pe by (simp add: abs_mult)
  also have "\<dots> \<le> 1 / 2 * 2 powi e"
    using round_half_even_close pe by (intro mult_right_mono) auto
  finally have c: "\<bar>v - x\<bar> \<le> 2 powi e / 2" by simp
  have u: "(2 :: rat) powi ulp_exp x * 2 ^ 52 \<le> \<bar>x\<bar>"
    using ulp_exp_lower [OF False] by (simp add: power_int_add)
  have m: "(2 :: rat) powi (- 1074) \<le> 1 / 10 ^ 15"
  proof -
    have "(2 :: rat) powi (- 1074) \<le> 2 powi (- 60)" by (intro power_int_increasing) simp_all
    also have "\<dots> \<le> 1 / 10 ^ 15" by (simp add: power_int_minus)
    finally show ?thesis .
  qed
  have "(2 :: rat) powi e \<le> 2 powi ulp_exp x + 2 powi (- 1074)"
    by (simp add: e_def max_def)
  then have d: "\<bar>v - x\<bar> \<le> \<bar>x\<bar> / 10 ^ 15 + 1 / 10 ^ 15"
    using c u m by (simp add: field_simps)
  then have "\<bar>v\<bar> \<le> 10 ^ 10" using assms by (simp add: abs_if field_simps split: if_splits)
  also have "(10 :: rat) ^ 10 < f64_limit"
  proof -
    have "(10 :: rat) ^ 10 < 2 ^ 34" by simp
    also have "\<dots> \<le> 2 ^ 1024" by (intro power_increasing) simp_all
    finally show ?thesis by (simp add: f64_limit_def)
  qed
  finally have "f64_round x = Fin v" using False by (simp add: f64_round_def Let_def e_def v_def)
  then show ?thesis using d by blast
qed (simp add: f64_round_def)

end
