(* ===== verification/Hba_Mpt3.thy ===== *)
theory Hba_Mpt3
  imports Hba_Sysfs Go_Round
begin

text \<open>
  The \<^verbatim>\<open>mpt3ctl\<close> backend (\<^verbatim>\<open>hba_mpt3ctl.go\<close>): the CONFIG requests, the command block handed to
  the driver byte by byte, the checks on its reply, the temperature page and one collection over
  all controllers. Bytes are \<^typ>\<open>8 word\<close>. The driver is an argument: the bytes it writes into the
  reply and data buffers, or the error of the call, for each command block it is given.
\<close>

unbundle bit_operations_syntax

type_synonym bytes = "8 word list"

subsection \<open>Byte layouts\<close>

text \<open>\<^verbatim>\<open>binary.LittleEndian\<close> and \<^verbatim>\<open>copy\<close> into an array.\<close>

definition le_bytes :: "nat \<Rightarrow> 'a::len word \<Rightarrow> bytes" where
  "le_bytes n w = map (\<lambda>i. ucast (drop_bit (8 * i) w)) [0..<n]"

fun le_value :: "bytes \<Rightarrow> 'a::len word" where
  "le_value [] = 0"
| "le_value (b # bs) = ucast b OR push_bit 8 (le_value bs)"

definition put_at :: "nat \<Rightarrow> bytes \<Rightarrow> bytes \<Rightarrow> bytes" where
  "put_at off bs a = take off a @ bs @ drop (off + length bs) a"

definition slice_bytes :: "nat \<Rightarrow> nat \<Rightarrow> bytes \<Rightarrow> bytes" where
  "slice_bytes lo hi bs = take (hi - lo) (drop lo bs)"

abbreviation (input) mpt3ctlPath :: string where "mpt3ctlPath \<equiv> ''/dev/mpt3ctl''"
abbreviation (input) mpt3FirmwareTimeout :: "32 word" where "mpt3FirmwareTimeout \<equiv> 10"
abbreviation (input) mpt3CommandSize :: nat where "mpt3CommandSize \<equiv> 96"
abbreviation (input) mpt3CommandIOCOffset :: nat where "mpt3CommandIOCOffset \<equiv> 0"
abbreviation (input) mpt3CommandTimeoutOffset :: nat where "mpt3CommandTimeoutOffset \<equiv> 12"
abbreviation (input) mpt3CommandReplyPtrOff :: nat where "mpt3CommandReplyPtrOff \<equiv> 16"
abbreviation (input) mpt3CommandDataInPtrOff :: nat where "mpt3CommandDataInPtrOff \<equiv> 24"
abbreviation (input) mpt3CommandMaxReplyOff :: nat where "mpt3CommandMaxReplyOff \<equiv> 48"
abbreviation (input) mpt3CommandDataInSizeOff :: nat where "mpt3CommandDataInSizeOff \<equiv> 52"
abbreviation (input) mpt3CommandSGEOffset :: nat where "mpt3CommandSGEOffset \<equiv> 64"
abbreviation (input) mpt3CommandRequestOffset :: nat where "mpt3CommandRequestOffset \<equiv> 68"
abbreviation (input) mpt3ReplyBufferSize :: nat where "mpt3ReplyBufferSize \<equiv> 128"

abbreviation (input) mpi2FunctionConfig :: "8 word" where "mpi2FunctionConfig \<equiv> 0x04"
abbreviation (input) mpi2ConfigPageHeader :: "8 word" where "mpi2ConfigPageHeader \<equiv> 0x00"
abbreviation (input) mpi2ConfigPageReadCurrent :: "8 word" where "mpi2ConfigPageReadCurrent \<equiv> 0x01"
abbreviation (input) mpi2PageTypeIOUnit :: "8 word" where "mpi2PageTypeIOUnit \<equiv> 0x00"
abbreviation (input) mpi2IOUnit7Version :: "8 word" where "mpi2IOUnit7Version \<equiv> 0x05"
abbreviation (input) temperatureFahrenheit :: "8 word" where "temperatureFahrenheit \<equiv> 0x01"
abbreviation (input) temperatureCelsius :: "8 word" where "temperatureCelsius \<equiv> 0x02"
abbreviation (input) mpi2ConfigReplySize :: nat where "mpi2ConfigReplySize \<equiv> 0x18"
abbreviation (input) mpi2ConfigReplyDWords :: "8 word" where "mpi2ConfigReplyDWords \<equiv> 6"
abbreviation (input) mpi2IOCStatusMask :: "16 word" where "mpi2IOCStatusMask \<equiv> 0x7fff"

subsection \<open>Requests and commands\<close>

definition mpt3ConfigRequest :: "8 word \<Rightarrow> 8 word \<Rightarrow> 8 word \<Rightarrow> 8 word \<Rightarrow> bytes option \<Rightarrow> bytes" where
  "mpt3ConfigRequest action pageType pageNumber pageVersion header =
    (let request = (replicate 28 0)[0 := action, 3 := mpi2FunctionConfig] in
     case header of
       None \<Rightarrow> request[20 := pageVersion, 22 := pageNumber, 23 := pageType]
     | Some h \<Rightarrow> put_at 20 (take 4 h) request)"

definition makeMPT3Command :: "int \<Rightarrow> bytes \<Rightarrow> nat \<Rightarrow> 64 word \<Rightarrow> 64 word \<Rightarrow> bytes" where
  "makeMPT3Command ioc request dataSize replyPointer dataInPointer =
    (let c0 = replicate mpt3CommandSize 0;
         c1 = put_at mpt3CommandIOCOffset (le_bytes 4 (word_of_int ioc :: 32 word)) c0;
         c2 = put_at mpt3CommandTimeoutOffset (le_bytes 4 mpt3FirmwareTimeout) c1;
         c3 = put_at mpt3CommandReplyPtrOff (le_bytes 8 replyPointer) c2;
         c4 = put_at mpt3CommandDataInPtrOff (le_bytes 8 dataInPointer) c3;
         c5 = put_at mpt3CommandMaxReplyOff (le_bytes 4 (of_nat mpt3ReplyBufferSize :: 32 word)) c4;
         c6 = put_at mpt3CommandDataInSizeOff (le_bytes 4 (of_nat dataSize :: 32 word)) c5;
         c7 = put_at mpt3CommandSGEOffset (le_bytes 4 (7 :: 32 word)) c6
     in put_at mpt3CommandRequestOffset (take 28 request) c7)"

subsection \<open>The device\<close>

record mpt3_env =
  me_linux_amd64 :: bool
  me_open :: "go_error option"
  me_replyPointer :: "64 word"
  me_dataPointer :: "64 word"
  me_ioctl :: "bytes \<Rightarrow> go_error + bytes \<times> bytes"
  me_tree :: sysfs_tree
  me_order :: "int range_order"

definition errHBABackendUnavailable :: "string \<Rightarrow> go_error" where
  "errHBABackendUnavailable post = GoErr (''HBA backend unavailable'' @ post) [ErrHBABackendUnavailable]"

definition openMPT3 :: "mpt3_env \<Rightarrow> go_error option" where
  "openMPT3 env =
    (if \<not> me_linux_amd64 env then Some (errHBABackendUnavailable '': mpt3ctl requires linux/amd64'')
     else case me_open env of
       None \<Rightarrow> None
     | Some err \<Rightarrow>
         if errors_Is err ErrNotExist
         then Some (errHBABackendUnavailable ('': '' @ mpt3ctlPath @ '' does not exist''))
         else Some (Errorf_w (''open '' @ mpt3ctlPath @ '': '') err []))"

text \<open>The reader looks below the sysfs root it was made with.\<close>

definition newMPT3Reader :: string where
  "newMPT3Reader = defaultSCSIHostRoot"

text \<open>A zero-filled buffer of the given size after the driver wrote into it from its start.\<close>

definition filled :: "nat \<Rightarrow> bytes \<Rightarrow> bytes" where
  "filled n written = take n (written @ replicate n 0)"

text \<open>The command blocks handed to the driver so far are kept, oldest first.\<close>

definition mpt3_command ::
    "mpt3_env \<Rightarrow> bytes list \<Rightarrow> int \<Rightarrow> bytes \<Rightarrow> nat \<Rightarrow> bytes list \<times> (bytes \<times> bytes) result" where
  "mpt3_command env issued ioc request dataSize =
    (let dataInPointer = (if 0 < dataSize then me_dataPointer env else 0);
         command = makeMPT3Command ioc request dataSize (me_replyPointer env) dataInPointer
     in (issued @ [command],
         case me_ioctl env command of
           Inl err \<Rightarrow> Inl err
         | Inr (reply, data) \<Rightarrow> Inr (filled mpt3ReplyBufferSize reply, filled dataSize data)))"

definition hex_byte :: "8 word \<Rightarrow> string" where
  "hex_byte b = hex_pad 2 (unat b)"

definition validateMPT3ConfigReply :: "bytes \<Rightarrow> 8 word \<Rightarrow> 8 word \<Rightarrow> 8 word \<Rightarrow> go_error option" where
  "validateMPT3ConfigReply reply action pageType pageNumber =
    (if length reply < mpi2ConfigReplySize
     then Some (errors_New (''short MPI CONFIG reply: got '' @ digits 10 (length reply) @ '' bytes, need '' @ digits 10 mpi2ConfigReplySize))
     else if reply ! 0x02 \<noteq> mpi2ConfigReplyDWords
     then Some (errors_New (''invalid MPI CONFIG MsgLength: got '' @ digits 10 (unat (reply ! 0x02)) @ '' DWORDs, want '' @
       digits 10 (unat mpi2ConfigReplyDWords)))
     else if reply ! 0x03 \<noteq> mpi2FunctionConfig
     then Some (errors_New (''unexpected MPI function 0x'' @ hex_byte (reply ! 0x03)))
     else if reply ! 0x00 \<noteq> action
     then Some (errors_New (''unexpected MPI CONFIG action 0x'' @ hex_byte (reply ! 0x00) @ '', want 0x'' @ hex_byte action))
     else let status = (le_value (slice_bytes 0x0e 0x10 reply) :: 16 word) AND mpi2IOCStatusMask in
     if status \<noteq> 0
     then Some (errors_New (''MPI CONFIG returned IOCStatus 0x'' @ hex_pad 4 (unat status) @ '', IOCLogInfo 0x'' @
       hex_pad 8 (unat (le_value (slice_bytes 0x10 0x14 reply) :: 32 word))))
     else if (reply ! 0x17) AND 0x0f \<noteq> pageType AND 0x0f
     then Some (errors_New (''unexpected MPI CONFIG page type 0x'' @ hex_byte ((reply ! 0x17) AND 0x0f) @ '', want 0x'' @
       hex_byte (pageType AND 0x0f)))
     else if reply ! 0x16 \<noteq> pageNumber
     then Some (errors_New (''unexpected MPI CONFIG page number '' @ digits 10 (unat (reply ! 0x16)) @ '', want '' @
       digits 10 (unat pageNumber)))
     else None)"

definition page7_header_error :: "go_error \<Rightarrow> go_error" where
  "page7_header_error err = Errorf_w ''CONFIG header IO Unit Page 7: '' err []"

definition page7_read_error :: "go_error \<Rightarrow> go_error" where
  "page7_read_error err = Errorf_w ''CONFIG read IO Unit Page 7: '' err []"

definition read_page7_current ::
    "mpt3_env \<Rightarrow> context_answers \<Rightarrow> bytes list \<Rightarrow> int \<Rightarrow> bytes \<Rightarrow> context_answers \<times> bytes list \<times> bytes result" where
  "read_page7_current env ctx issued ioc header =
    (let pageSize = unat (header ! 1) * 4 in
     case ctx_Err ctx of
       (Some err, ctx1) \<Rightarrow> (ctx1, issued, Inl err)
     | (None, ctx1) \<Rightarrow>
         (case mpt3_command env issued ioc
             (mpt3ConfigRequest mpi2ConfigPageReadCurrent mpi2PageTypeIOUnit 7 mpi2IOUnit7Version (Some header)) pageSize of
            (issued1, Inl err) \<Rightarrow> (ctx1, issued1, Inl (page7_read_error err))
          | (issued1, Inr (reply, page)) \<Rightarrow>
              (case validateMPT3ConfigReply reply mpi2ConfigPageReadCurrent mpi2PageTypeIOUnit 7 of
                 Some err \<Rightarrow> (ctx1, issued1, Inl (page7_read_error err))
               | None \<Rightarrow> (ctx1, issued1, Inr page))))"

definition readIOUnitPage7 ::
    "mpt3_env \<Rightarrow> context_answers \<Rightarrow> bytes list \<Rightarrow> int \<Rightarrow> context_answers \<times> bytes list \<times> bytes result" where
  "readIOUnitPage7 env ctx issued ioc =
    (case ctx_Err ctx of
       (Some err, ctx1) \<Rightarrow> (ctx1, issued, Inl err)
     | (None, ctx1) \<Rightarrow>
         (case mpt3_command env issued ioc
             (mpt3ConfigRequest mpi2ConfigPageHeader mpi2PageTypeIOUnit 7 mpi2IOUnit7Version None) 0 of
            (issued1, Inl err) \<Rightarrow> (ctx1, issued1, Inl (page7_header_error err))
          | (issued1, Inr (reply, _)) \<Rightarrow>
              (case validateMPT3ConfigReply reply mpi2ConfigPageHeader mpi2PageTypeIOUnit 7 of
                 Some err \<Rightarrow> (ctx1, issued1, Inl (page7_header_error err))
               | None \<Rightarrow>
                   let header = slice_bytes 0x14 0x18 reply in
                   if header ! 1 = 0
                   then (ctx1, issued1, Inl (errors_New
                     (''CONFIG header IO Unit Page 7: invalid PageLength 0 for PageVersion 0x'' @ hex_byte (header ! 0))))
                   else read_page7_current env ctx1 issued1 ioc header)))"

definition decodeMPT3Temperature :: "bytes \<Rightarrow> 8 word \<Rightarrow> float64 option" where
  "decodeMPT3Temperature rawBytes units =
    (let raw = sint (le_value rawBytes :: 16 word) in
     if units = temperatureCelsius then Some (Fin (of_int raw))
     else if units = temperatureFahrenheit then
       Some (case f64_mul (f64_sub_fin (of_int raw) 32) (Fin 5) of Fin x \<Rightarrow> f64_div_fin x 9 | y \<Rightarrow> y)
     else None)"

definition parseMPT3Temperatures :: "bytes \<Rightarrow> hbaTemperatures result" where
  "parseMPT3Temperatures page =
    (if length page < 0x17
     then Inl (errors_New ''IO Unit Page 7 is shorter than the temperature fields'')
     else Inr \<lparr>ht_ioc = decodeMPT3Temperature (slice_bytes 0x10 0x12 page) (page ! 0x12),
               ht_board = decodeMPT3Temperature (slice_bytes 0x14 0x16 page) (page ! 0x16)\<rparr>)"

subsection \<open>One collection\<close>

definition ioc_error :: "int \<Rightarrow> go_error \<Rightarrow> go_error" where
  "ioc_error ioc err = Errorf_w (''mpt3ctl IOC '' @ FormatInt ioc @ '' temperature: '') err []"

fun mpt3_loop ::
    "mpt3_env \<Rightarrow> context_answers \<Rightarrow> bytes list \<Rightarrow> (int \<times> hbaMetadata) list \<Rightarrow> HBA list \<Rightarrow> bytes list \<times> HBA list result" where
  "mpt3_loop env ctx issued [] readings = (issued, Inr readings)"
| "mpt3_loop env ctx issued ((ioc, metadata) # rest) readings =
    (case ctx_Err ctx of
       (Some err, _) \<Rightarrow> (issued, Inl err)
     | (None, ctx1) \<Rightarrow>
         (case readIOUnitPage7 env ctx1 issued ioc of
            (_, issued1, Inl err) \<Rightarrow> (issued1, Inl (ioc_error ioc err))
          | (ctx2, issued1, Inr page) \<Rightarrow>
              (case parseMPT3Temperatures page of
                 Inl err \<Rightarrow> (issued1, Inl (ioc_error ioc err))
               | Inr temperatures \<Rightarrow>
                   mpt3_loop env ctx2 issued1 rest
                     (readings @ (case makeHBAReading metadata temperatures of None \<Rightarrow> [] | Some r \<Rightarrow> [r])))))"

definition mpt3_collect :: "string \<Rightarrow> mpt3_env \<Rightarrow> context_answers \<Rightarrow> bytes list \<times> HBA list result" where
  "mpt3_collect sysfsRoot env ctx =
    (case openMPT3 env of
       Some err \<Rightarrow> ([], Inl err)
     | None \<Rightarrow>
         (case discoverSysfsHBAs (me_tree env) sysfsRoot ctx of
            (Inl err, _) \<Rightarrow> ([], Inl (Errorf_w ''read sysfs HBA identities: '' err []))
          | (Inr hbas, ctx1) \<Rightarrow>
              (case mpt3HBAMetadataByIOC (me_tree env) ctx1 hbas of
                 (Inl err, _) \<Rightarrow> ([], Inl (Errorf_w ''read sysfs mpt3sas controllers: '' err []))
               | (Inr metadataByIOC, ctx2) \<Rightarrow>
                   if metadataByIOC = [] then ([], Inl errNoHBA)
                   else (case mpt3_loop env ctx2 [] (range_over (me_order env) metadataByIOC) [] of
                           (issued, Inl err) \<Rightarrow> (issued, Inl err)
                         | (issued, Inr readings) \<Rightarrow> (issued, Inr (sort_readings readings))))))"

subsection \<open>The layout of a command\<close>

lemma le_bytes_length [simp]: "length (le_bytes n w) = n"
  by (simp add: le_bytes_def)

lemma put_at_length [simp]: "off + length bs \<le> length a \<Longrightarrow> length (put_at off bs a) = length a"
  by (simp add: put_at_def)

text \<open>Writing beyond what is laid out so far of a zero-filled block.\<close>

lemma put_at_pad:
  assumes "length xs + k = off" "k + length bs + m = n"
  shows "put_at off bs (xs @ replicate n 0) = (xs @ replicate k 0 @ bs) @ replicate m 0"
proof -
  have "take off (xs @ replicate n 0) = xs @ replicate k 0" using assms by (auto simp: min_def)
  moreover have "drop (off + length bs) (xs @ replicate n 0) = replicate m 0"
    using assms by (auto simp: drop_replicate)
  ultimately show ?thesis by (simp add: put_at_def)
qed

lemma command_layout:
  assumes "length request = 28"
  shows "makeMPT3Command ioc request n rp dp =
    le_bytes 4 (word_of_int ioc :: 32 word) @ replicate 8 0 @ le_bytes 4 mpt3FirmwareTimeout @ le_bytes 8 rp @ le_bytes 8 dp @
    replicate 16 0 @ le_bytes 4 (of_nat mpt3ReplyBufferSize :: 32 word) @ le_bytes 4 (of_nat n :: 32 word) @ replicate 8 0 @
    le_bytes 4 (7 :: 32 word) @ request"
proof -
  have c1: "put_at 0 (le_bytes 4 w) (replicate 96 0) = le_bytes 4 w @ replicate 92 0" for w :: "32 word"
    using put_at_pad [of "[]" 0 0 "le_bytes 4 w" 92 96] by simp
  have c2: "length xs = 4 \<Longrightarrow> put_at 12 (le_bytes 4 w) (xs @ replicate 92 0) = (xs @ replicate 8 0 @ le_bytes 4 w) @ replicate 80 0"
    for xs and w :: "32 word" by (simp add: put_at_pad)
  have c3: "length xs = 16 \<Longrightarrow> put_at 16 (le_bytes 8 w) (xs @ replicate 80 0) = (xs @ replicate 0 0 @ le_bytes 8 w) @ replicate 72 0"
    for xs and w :: "64 word" by (rule put_at_pad) simp_all
  have c4: "length xs = 24 \<Longrightarrow> put_at 24 (le_bytes 8 w) (xs @ replicate 72 0) = (xs @ replicate 0 0 @ le_bytes 8 w) @ replicate 64 0"
    for xs and w :: "64 word" by (rule put_at_pad) simp_all
  have c5: "length xs = 32 \<Longrightarrow> put_at 48 (le_bytes 4 w) (xs @ replicate 64 0) = (xs @ replicate 16 0 @ le_bytes 4 w) @ replicate 44 0"
    for xs and w :: "32 word" by (rule put_at_pad) simp_all
  have c6: "length xs = 52 \<Longrightarrow> put_at 52 (le_bytes 4 w) (xs @ replicate 44 0) = (xs @ replicate 0 0 @ le_bytes 4 w) @ replicate 40 0"
    for xs and w :: "32 word" by (rule put_at_pad) simp_all
  have c7: "length xs = 56 \<Longrightarrow> put_at 64 (le_bytes 4 w) (xs @ replicate 40 0) = (xs @ replicate 8 0 @ le_bytes 4 w) @ replicate 28 0"
    for xs and w :: "32 word" by (rule put_at_pad) simp_all
  have c8: "length xs = 68 \<Longrightarrow> put_at 68 request (xs @ replicate 28 0) = (xs @ replicate 0 0 @ request) @ replicate 0 0"
    for xs by (rule put_at_pad) (simp_all add: assms)
  show ?thesis
    unfolding makeMPT3Command_def Let_def c1
    by (simp add: c2 c3 c4 c5 c6 c7 c8 assms del: append_assoc)
qed

lemma bit_le_value:
  "bit (le_value bs :: 'a::len word) k \<longleftrightarrow> k < LENGTH('a) \<and> k div 8 < length bs \<and> bit (bs ! (k div 8)) (k mod 8)"
proof (induction bs arbitrary: k)
  case (Cons b bs)
  show ?case
  proof (cases "k < 8")
    case True
    then show ?thesis using Cons by (auto simp: bit_or_iff bit_push_bit_iff bit_ucast_iff)
  next
    case False
    then obtain j where j: "k = 8 + j" using le_Suc_ex [of 8 k] by auto
    then have "k div 8 = Suc (j div 8)" "k mod 8 = j mod 8" by simp_all
    then show ?thesis using Cons [of j] j bit_imp_le_length [of b k]
      by (auto simp: bit_or_iff bit_push_bit_iff bit_ucast_iff)
  qed
qed simp

lemma le_value_le_bytes: "LENGTH('a) = 8 * n \<Longrightarrow> le_value (le_bytes n w) = (w :: 'a::len word)"
proof (rule bit_word_eqI)
  fix k assume n: "LENGTH('a) = 8 * n" and k: "k < LENGTH('a)"
  have "8 * (k div 8) + k mod 8 = k" by simp
  then show "bit (le_value (le_bytes n w) :: 'a word) k = bit w k"
    using n k by (auto simp: bit_le_value le_bytes_def bit_ucast_iff bit_drop_bit_eq)
qed

subsection \<open>Only reads are issued\<close>

text \<open>
  A command block that can only read a configuration page: the MPI function is CONFIG, the action
  is PAGE HEADER or PAGE READ CURRENT on IO Unit Page 7, the data-out and sense buffers are absent,
  and the data-in buffer has exactly the size of the page the request names.
\<close>

definition read_only_command :: "bytes \<Rightarrow> bool" where
  "read_only_command c =
    (length c = mpt3CommandSize \<and>
     slice_bytes 32 48 c = replicate 16 0 \<and> slice_bytes 56 64 c = replicate 8 0 \<and>
     c ! 71 = mpi2FunctionConfig \<and> c ! 68 \<in> {mpi2ConfigPageHeader, mpi2ConfigPageReadCurrent} \<and>
     c ! 90 = 7 \<and> c ! 91 AND 0x0f = mpi2PageTypeIOUnit \<and>
     unat (le_value (slice_bytes 48 52 c) :: 32 word) = mpt3ReplyBufferSize \<and>
     unat (le_value (slice_bytes 52 56 c) :: 32 word) = 4 * unat (c ! 89))"

lemma header_request:
  "mpt3ConfigRequest a t n v None = [a, 0, 0, 4] @ replicate 16 0 @ [v, 0, n, t, 0, 0, 0, 0]"
  by (simp add: mpt3ConfigRequest_def numeral_eq_Suc)

lemma current_request:
  "mpt3ConfigRequest a t n v (Some [h0, h1, h2, h3]) = [a, 0, 0, 4] @ replicate 16 0 @ [h0, h1, h2, h3, 0, 0, 0, 0]"
  by (simp add: mpt3ConfigRequest_def put_at_def numeral_eq_Suc)

lemma request_read_only:
  assumes "a \<in> {0, 1}" "t AND 0x0f = 0" "dsize = 4 * unat l"
  shows "read_only_command (makeMPT3Command ioc ([a, 0, 0, 4] @ replicate 16 0 @ [v, l, 7, t, 0, 0, 0, 0]) dsize rp dp)"
proof -
  let ?r = "[a, 0, 0, 4] @ replicate 16 0 @ [v, l, 7, t, 0, 0, 0, 0]"
  have "unat l < 256" using unsigned_less [of l, where ?'a = nat] by simp
  then have "dsize < 2 ^ LENGTH(32)" using assms(3) by simp
  then have "unat (of_nat dsize :: 32 word) = dsize" by (simp only: unat_of_nat mod_less)
  then have d: "unat (of_nat dsize :: 32 word) = 4 * unat l" using assms(3) by (rule trans)
  define p where "p = le_bytes 4 (word_of_int ioc :: 32 word) @ replicate 8 0 @ le_bytes 4 (10 :: 32 word) @ le_bytes 8 rp @ le_bytes 8 dp"
  define m where "m = le_bytes 4 (of_nat 128 :: 32 word)"
  define z where "z = le_bytes 4 (of_nat dsize :: 32 word)"
  define g where "g = le_bytes 4 (7 :: 32 word)"
  have len: "length p = 32" "length m = 4" "length z = 4" "length g = 4" by (simp_all add: p_def m_def z_def g_def)
  have c: "makeMPT3Command ioc ?r dsize rp dp = p @ replicate 16 0 @ m @ z @ replicate 8 0 @ g @ ?r"
    by (simp add: command_layout p_def m_def z_def g_def)
  have m: "unat (le_value m :: 32 word) = 128" by (simp add: m_def le_value_le_bytes)
  have z: "unat (le_value z :: 32 word) = 4 * unat l" using d by (simp add: z_def le_value_le_bytes)
  have "slice_bytes 32 48 (p @ replicate 16 0 @ m @ z @ replicate 8 0 @ g @ ?r) = replicate 16 0"
    "slice_bytes 56 64 (p @ replicate 16 0 @ m @ z @ replicate 8 0 @ g @ ?r) = replicate 8 0"
    "slice_bytes 48 52 (p @ replicate 16 0 @ m @ z @ replicate 8 0 @ g @ ?r) = m"
    "slice_bytes 52 56 (p @ replicate 16 0 @ m @ z @ replicate 8 0 @ g @ ?r) = z"
    using len by (simp_all add: slice_bytes_def)
  moreover have "(p @ replicate 16 0 @ m @ z @ replicate 8 0 @ g @ ?r) ! (68 + k) = ?r ! k" for k
    using len by (simp add: nth_append)
  from this [of 0] this [of 3] this [of 21] this [of 22] this [of 23]
  have "(p @ replicate 16 0 @ m @ z @ replicate 8 0 @ g @ ?r) ! 68 = a" "(p @ replicate 16 0 @ m @ z @ replicate 8 0 @ g @ ?r) ! 71 = 4"
    "(p @ replicate 16 0 @ m @ z @ replicate 8 0 @ g @ ?r) ! 89 = l" "(p @ replicate 16 0 @ m @ z @ replicate 8 0 @ g @ ?r) ! 90 = 7"
    "(p @ replicate 16 0 @ m @ z @ replicate 8 0 @ g @ ?r) ! 91 = t"
    by (simp_all add: nth_append)
  ultimately show ?thesis
    unfolding c read_only_command_def using len assms(1,2) m z by simp
qed

lemma page7_header:
  assumes "validateMPT3ConfigReply reply a mpi2PageTypeIOUnit 7 = None"
  shows "\<exists>h0 h1 h3. slice_bytes 0x14 0x18 reply = [h0, h1, 7, h3] \<and> h3 AND 0x0f = 0"
proof -
  have len: "24 \<le> length reply" and r: "reply ! 22 = 7" "reply ! 23 AND 0x0f = 0"
    using assms by (auto simp: validateMPT3ConfigReply_def Let_def split: if_splits)
  have "slice_bytes 20 24 reply = [reply ! 20, reply ! 21, reply ! 22, reply ! 23]"
    using len by (intro nth_equalityI) (auto simp: slice_bytes_def nth_Cons numeral_eq_Suc less_Suc_eq split: nat.split)
  then show ?thesis using r by auto
qed

lemma read_page7_read_only:
  assumes "list_all read_only_command issued"
  shows "list_all read_only_command (fst (snd (readIOUnitPage7 env ctx issued ioc)))"
proof -
  let ?req = "mpt3ConfigRequest 0 0 7 5 None"
  obtain e1 ctx1 where c: "ctx_Err ctx = (e1, ctx1)" by (cases "ctx_Err ctx")
  have hd: "read_only_command (makeMPT3Command ioc ?req 0 rp dp)" for rp dp
    unfolding header_request by (intro request_read_only) simp_all
  obtain issued1 r where m: "mpt3_command env issued ioc ?req 0 = (issued1, r)" by (cases "mpt3_command env issued ioc ?req 0")
  then have i1: "list_all read_only_command issued1" using assms hd by (auto simp: mpt3_command_def Let_def)
  have rd: "list_all read_only_command (fst (snd (read_page7_current env ctx1 issued1 ioc (slice_bytes 20 24 reply))))"
    if v: "validateMPT3ConfigReply reply 0 0 7 = None" for reply
  proof -
    obtain h0 h1 h3 where h: "slice_bytes 0x14 0x18 reply = [h0, h1, 7, h3]" "h3 AND 0x0f = 0" using page7_header [OF v] by auto
    have "read_only_command (makeMPT3Command ioc (mpt3ConfigRequest 1 0 7 5 (Some [h0, h1, 7, h3])) (unat h1 * 4) rp dp)" for rp dp
      unfolding current_request using h(2) by (intro request_read_only) simp_all
    then show ?thesis using i1 h
      by (auto simp: read_page7_current_def mpt3_command_def Let_def split: prod.splits option.splits sum.splits)
  qed
  show ?thesis
  proof (cases e1)
    case None
    show ?thesis
    proof (cases r)
      case (Inr x)
      obtain reply dat where x: "x = (reply, dat)" by (cases x)
      show ?thesis using None c m Inr x i1 rd [of reply]
        by (auto simp: readIOUnitPage7_def Let_def split: option.split)
    qed (use None c m i1 in \<open>simp add: readIOUnitPage7_def\<close>)
  qed (use c assms in \<open>simp add: readIOUnitPage7_def\<close>)
qed

lemma mpt3_loop_read_only:
  "list_all read_only_command issued \<Longrightarrow> list_all read_only_command (fst (mpt3_loop env ctx issued ms readings))"
proof (induction env ctx issued ms readings rule: mpt3_loop.induct)
  case (2 env ctx issued ioc metadata rest readings)
  obtain e1 ctx1 where c: "ctx_Err ctx = (e1, ctx1)" by (cases "ctx_Err ctx")
  obtain ctx2 issued1 r where p: "readIOUnitPage7 env ctx1 issued ioc = (ctx2, issued1, r)" by (rule prod_cases3)
  have i1: "list_all read_only_command issued1" using read_page7_read_only [OF 2(2), of env ctx1 ioc] p by simp
  show ?case using 2 c p i1 by (auto split: option.split sum.split)
qed simp

text \<open>
  C14: Whatever the driver answers and whatever sysfs lists, every command block a collection hands
  to the mpt3 driver is a read of IO Unit Page 7: CONFIG function, header or read-current action,
  no data-out and no sense buffer, and a data-in buffer exactly as large as the page the request
  asks for.
\<close>

theorem mpt3_collect_read_only: "list_all read_only_command (fst (mpt3_collect sysfsRoot env ctx))"
  using mpt3_loop_read_only [of "[]" env]
  by (auto simp: mpt3_collect_def split: option.split prod.split sum.split)
    (metis fst_conv)+

subsection \<open>Temperatures\<close>

text \<open>The value of two bytes as a little-endian signed number.\<close>

definition int16_value :: "8 word \<Rightarrow> 8 word \<Rightarrow> int" where
  "int16_value lo hi =
    (let n = uint lo + 256 * uint hi in if n < 2 ^ 15 then n else n - 2 ^ 16)"

lemma byte_range: "0 \<le> uint (b :: 8 word) \<and> uint b < 256"
  using unsigned_less [of b, where ?'a = int] by simp

lemma uint_le16: "uint (le_value [lo, hi] :: 16 word) = uint lo + 256 * uint hi"
proof -
  let ?a = "ucast lo :: 16 word" and ?b = "push_bit 8 (ucast hi :: 16 word)"
  have "?a AND ?b = 0"
    by (rule bit_word_eqI) (auto simp: bit_and_iff bit_push_bit_iff bit_ucast_iff dest: bit_imp_le_length)
  then have "?a OR ?b = ?a + ?b" using word_plus_and_or [of ?a ?b] by simp
  also have "\<dots> = word_of_int (uint lo + 256 * uint hi)"
    by (simp add: push_bit_eq_mult)
  finally have w: "(le_value [lo, hi] :: 16 word) = word_of_int (uint lo + 256 * uint hi)"
    by (simp only: le_value.simps push_bit_of_0 or.right_neutral)
  have "uint (word_of_int (uint lo + 256 * uint hi) :: 16 word) = (uint lo + 256 * uint hi) mod 2 ^ LENGTH(16)"
    by (simp only: uint_word_of_int)
  also have "\<dots> = uint lo + 256 * uint hi"
    using byte_range [of lo] byte_range [of hi] by (intro mod_pos_pos_trivial) auto
  finally show ?thesis by (simp only: w)
qed

lemma sint_le16: "sint (le_value [lo, hi] :: 16 word) = int16_value lo hi"
proof -
  define n where "n = uint lo + 256 * uint hi"
  have n: "0 \<le> n" "n < 65536" using byte_range [of lo] byte_range [of hi] by (auto simp: n_def)
  have "sint (le_value [lo, hi] :: 16 word) = (n + 2 ^ 15) mod 2 ^ 16 - 2 ^ 15"
    by (simp only: sint_uint signed_take_bit_eq_take_bit_shift take_bit_eq_mod uint_le16 n_def) simp
  also have "\<dots> = (if n < 2 ^ 15 then n else n - 2 ^ 16)"
  proof (cases "n < 2 ^ 15")
    case False
    have "(n + 2 ^ 15) mod 2 ^ 16 = ((n - 2 ^ 15) + 2 ^ 16) mod 2 ^ 16" by (simp add: add.commute)
    then have "(n + 2 ^ 15) mod 2 ^ 16 = (n - 2 ^ 15) mod 2 ^ 16" by (simp only: mod_add_self2)
    then show ?thesis using False n by (simp add: mod_pos_pos_trivial)
  qed (use n in \<open>simp add: mod_pos_pos_trivial\<close>)
  finally show ?thesis by (simp add: int16_value_def n_def Let_def)
qed

lemma int16_range: "- 32768 \<le> int16_value lo hi \<and> int16_value lo hi < 32768"
proof -
  define n where "n = uint lo + 256 * uint hi"
  have "0 \<le> n" "n < 65536" using byte_range [of lo] byte_range [of hi] by (auto simp: n_def)
  then show ?thesis by (auto simp: int16_value_def Let_def n_def [symmetric])
qed

lemma fahrenheit_value:
  "\<exists>q. decodeMPT3Temperature [lo, hi] temperatureFahrenheit = Some (Fin q) \<and>
      \<bar>q - (of_int (int16_value lo hi) - 32) * 5 / 9\<bar> \<le> 1 / 10 ^ 9"
proof -
  let ?r = "int16_value lo hi"
  let ?x = "of_int ((?r - 32) * 5) / 9 :: rat"
  have r: "- 32768 \<le> ?r" "?r < 32768" using int16_range [of lo hi] by simp_all
  have s: "f64_sub_fin (of_int ?r) 32 = Fin (of_int (?r - 32))"
    using f64_round_of_int [of "?r - 32"] r by (simp add: f64_sub_fin_def abs_if)
  have m: "f64_mul (Fin (of_int (?r - 32))) (Fin 5) = Fin (of_int ((?r - 32) * 5))"
    using f64_round_of_int [of "(?r - 32) * 5"] r by (simp add: abs_if)
  have "\<bar>(?r - 32) * 5\<bar> \<le> 164000" using r by (simp add: abs_if)
  then have "\<bar>of_int ((?r - 32) * 5) :: rat\<bar> \<le> 164000" by (metis of_int_abs of_int_le_iff of_int_numeral)
  then have b: "\<bar>?x\<bar> \<le> 20000" by (simp only: abs_divide)
  then obtain v where v: "f64_round ?x = Fin v" "\<bar>v - ?x\<bar> \<le> \<bar>?x\<bar> / 10 ^ 15 + 1 / 10 ^ 15"
    using f64_round_close [of ?x] by auto
  have "\<bar>v - ?x\<bar> \<le> 1 / 10 ^ 9" using v(2) b by simp
  moreover have "?x = (of_int ?r - 32) * 5 / 9" by simp
  moreover have "decodeMPT3Temperature [lo, hi] 1 = Some (Fin v)"
    unfolding decodeMPT3Temperature_def Let_def sint_le16 s m using v(1) by (simp add: f64_div_fin_def)
  ultimately show ?thesis by auto
qed

text \<open>
  C38: A temperature field in Celsius is the signed 16-bit value of its bytes, exactly; one in
  Fahrenheit is the converted value up to a billionth of a degree; a field without a unit the code
  knows gives no temperature.
\<close>

theorem decodeMPT3Temperature_correct:
  "decodeMPT3Temperature [lo, hi] temperatureCelsius = Some (Fin (of_int (int16_value lo hi))) \<and>
   (\<exists>q. decodeMPT3Temperature [lo, hi] temperatureFahrenheit = Some (Fin q) \<and>
      \<bar>q - (of_int (int16_value lo hi) - 32) * 5 / 9\<bar> \<le> 1 / 10 ^ 9) \<and>
   (decodeMPT3Temperature [lo, hi] units = None) = (units \<noteq> temperatureCelsius \<and> units \<noteq> temperatureFahrenheit)"
  using fahrenheit_value [of lo hi]
  by (auto simp: decodeMPT3Temperature_def Let_def sint_le16 simp del: le_value.simps)

subsection \<open>What a collection returns\<close>

text \<open>The temperatures of a controller, as its pages give them when nothing is cancelled.\<close>

definition ioc_temperatures :: "mpt3_env \<Rightarrow> int \<Rightarrow> hbaTemperatures result" where
  "ioc_temperatures env ioc =
    (case snd (snd (readIOUnitPage7 env [] [] ioc)) of Inl err \<Rightarrow> Inl err | Inr page \<Rightarrow> parseMPT3Temperatures page)"

lemma mpt3_command_result: "snd (mpt3_command env issued ioc req n) = snd (mpt3_command env [] ioc req n)"
  by (simp add: mpt3_command_def Let_def)

lemma read_current_result:
  assumes "read_page7_current env ctx issued ioc h = (ctx', issued', Inr page)"
  shows "snd (snd (read_page7_current env [] i0 ioc h)) = Inr page"
proof -
  let ?c = "\<lambda>i. mpt3_command env i ioc (mpt3ConfigRequest 1 0 7 5 (Some h)) (unat (h ! 1) * 4)"
  obtain ctx1 where c: "ctx_Err ctx = (None, ctx1)" using assms by (auto simp: read_page7_current_def Let_def split: prod.splits option.splits)
  obtain reply where m: "snd (?c issued) = Inr (reply, page)" "validateMPT3ConfigReply reply 1 0 7 = None"
    using assms c by (auto simp: read_page7_current_def Let_def split: prod.splits sum.splits option.splits)
  then have "?c i0 = (fst (?c i0), Inr (reply, page))" using mpt3_command_result by (metis prod.collapse)
  then show ?thesis using m(2) by (cases "?c i0") (simp add: read_page7_current_def Let_def)
qed

lemma page7_result:
  assumes "readIOUnitPage7 env ctx issued ioc = (ctx', issued', Inr page)"
  shows "snd (snd (readIOUnitPage7 env [] i0 ioc)) = Inr page"
proof -
  let ?req = "mpt3ConfigRequest 0 0 7 5 None"
  obtain ctx1 where c: "ctx_Err ctx = (None, ctx1)" using assms by (auto simp: readIOUnitPage7_def split: prod.splits option.splits)
  obtain reply dat where m: "snd (mpt3_command env issued ioc ?req 0) = Inr (reply, dat)"
    using assms c by (auto simp: readIOUnitPage7_def split: prod.splits sum.splits)
  then have m0: "mpt3_command env i0 ioc ?req 0 = (fst (mpt3_command env i0 ioc ?req 0), Inr (reply, dat))"
    using mpt3_command_result [of env issued] mpt3_command_result [of env i0] by (metis prod.collapse)
  have mi: "mpt3_command env issued ioc ?req 0 = (fst (mpt3_command env issued ioc ?req 0), Inr (reply, dat))"
    using m by (metis prod.collapse)
  have v: "validateMPT3ConfigReply reply 0 0 7 = None" "slice_bytes 20 24 reply ! 1 \<noteq> 0"
      "read_page7_current env ctx1 (fst (mpt3_command env issued ioc ?req 0)) ioc (slice_bytes 20 24 reply) = (ctx', issued', Inr page)"
    using assms unfolding readIOUnitPage7_def c by (subst (asm) mi, auto simp: Let_def split: option.splits if_splits)+
  show ?thesis
    unfolding readIOUnitPage7_def by (subst m0) (use v read_current_result [OF v(3)] in \<open>simp add: Let_def\<close>)
qed

lemma page7_ctx: "fst (readIOUnitPage7 env [] i0 ioc) = []"
  by (auto simp: readIOUnitPage7_def read_page7_current_def Let_def split: prod.split sum.split option.split)

lemma decode_finite: "finite_probe (decodeMPT3Temperature [lo, hi] units)"
proof -
  obtain q where "decodeMPT3Temperature [lo, hi] 1 = Some (Fin q)" using fahrenheit_value by blast
  then show ?thesis
    by (cases "units = 2"; cases "units = 1")
      (auto simp: finite_probe_def decodeMPT3Temperature_def Let_def simp del: le_value.simps)
qed

lemma slice_two: "Suc k < length page \<Longrightarrow> slice_bytes k (k + 2) page = [page ! k, page ! Suc k]"
  by (simp add: slice_bytes_def numeral_2_eq_2 Cons_nth_drop_Suc [symmetric])

lemma parse_temperatures_ok: "parseMPT3Temperatures page = Inr t \<Longrightarrow> temperatures_ok t"
proof -
  assume p: "parseMPT3Temperatures page = Inr t"
  then have len: "0x17 \<le> length page" by (auto simp: parseMPT3Temperatures_def split: if_splits)
  have "slice_bytes 0x10 0x12 page = [page ! 0x10, page ! 0x11]" "slice_bytes 0x14 0x16 page = [page ! 0x14, page ! 0x15]"
    using slice_two [of 16 page] slice_two [of 20 page] len by simp_all
  then show ?thesis using p len decode_finite
    by (auto simp: parseMPT3Temperatures_def temperatures_ok_def)
qed

lemma mpt3_loop_success:
  assumes "mpt3_loop env ctx issued ms rs = (issued', Inr out)"
  shows "\<exists>ts. list_all2 (\<lambda>m t. ioc_temperatures env (fst m) = Inr t) ms ts \<and> list_all temperatures_ok ts \<and>
    out = rs @ readings_of (zip (map snd ms) ts)"
  using assms
proof (induction env ctx issued ms rs rule: mpt3_loop.induct)
  case (2 env ctx issued ioc metadata rest rs)
  obtain ctx1 where c: "ctx_Err ctx = (None, ctx1)" using 2(2) by (auto split: prod.splits option.splits)
  obtain ctx2 issued1 page where p: "readIOUnitPage7 env ctx1 issued ioc = (ctx2, issued1, Inr page)"
    using 2(2) c by (auto split: prod.splits sum.splits)
  obtain t where t: "parseMPT3Temperatures page = Inr t" using 2(2) c p by (auto split: sum.splits)
  let ?rs = "rs @ (case makeHBAReading metadata t of None \<Rightarrow> [] | Some r \<Rightarrow> [r])"
  have "mpt3_loop env ctx2 issued1 rest ?rs = (issued', Inr out)" using 2(2) c p t by simp
  then obtain ts where ts: "list_all2 (\<lambda>m t. ioc_temperatures env (fst m) = Inr t) rest ts" "list_all temperatures_ok ts"
      "out = ?rs @ readings_of (zip (map snd rest) ts)"
    using 2(1) [OF c [symmetric] refl p [symmetric] refl refl t] by auto
  have "ioc_temperatures env ioc = Inr t" using page7_result [OF p, of "[]"] t by (simp add: ioc_temperatures_def)
  then show ?case using ts parse_temperatures_ok [OF t]
    by (intro exI [of _ "t # ts"]) (auto split: option.split)
qed simp

text \<open>On success a context left no trace.\<close>

lemma discover_loop_ctx:
  "discover_loop tree hostRoot ctx names hbas byPCI ids = (Inr out, ctx') \<Longrightarrow>
    discover_loop tree hostRoot [] names hbas byPCI ids = (Inr out, [])"
  by (induction names arbitrary: ctx hbas byPCI ids)
    (auto split: prod.splits option.splits sum.splits)

lemma discover_ctx: "discoverSysfsHBAs tree hostRoot ctx = (Inr hbas, ctx') \<Longrightarrow> discoverSysfsHBAs tree hostRoot [] = (Inr hbas, [])"
  by (auto simp: discoverSysfsHBAs_def split: prod.splits option.splits sum.splits if_splits dest: discover_loop_ctx)

lemma ioc_loop_ctx: "ioc_loop tree ctx hs m = (Inr out, ctx') \<Longrightarrow> ioc_loop tree [] hs m = (Inr out, [])"
  by (induction hs arbitrary: ctx m) (auto split: prod.splits option.splits sum.splits if_splits)

lemma iocs_ctx: "mpt3HBAMetadataByIOC tree ctx hbas = (Inr m, ctx') \<Longrightarrow> mpt3HBAMetadataByIOC tree [] hbas = (Inr m, [])"
  by (simp add: mpt3HBAMetadataByIOC_def ioc_loop_ctx)

lemma list_all2_results: "list_all2 (\<lambda>m t. f (fst m) = Inr t) ms ts \<Longrightarrow> ts = map (\<lambda>m. projr (f (fst m))) ms"
  by (induction rule: list_all2_induct) auto

definition mpt3_pairs :: "mpt3_env \<Rightarrow> (int \<times> hbaMetadata) list \<Rightarrow> (hbaMetadata \<times> hbaTemperatures) list" where
  "mpt3_pairs env m = map (\<lambda>x. (snd x, projr (ioc_temperatures env (fst x)))) m"

lemma zip_map_pair: "zip (map f xs) (map g xs) = map (\<lambda>x. (f x, g x)) xs"
  by (induction xs) auto

text \<open>Conversely, controllers whose pages can be read are all reported.\<close>

lemma mpt3_loop_complete:
  assumes "\<And>m. m \<in> set ms \<Longrightarrow> \<exists>t. ioc_temperatures env (fst m) = Inr t"
  shows "snd (mpt3_loop env [] issued ms rs) = Inr (rs @ readings_of (mpt3_pairs env ms))"
  using assms
proof (induction ms arbitrary: issued rs)
  case (Cons m ms)
  obtain ioc metadata where m: "m = (ioc, metadata)" by (cases m)
  obtain t where t: "ioc_temperatures env ioc = Inr t" using Cons.prems [of m] m by auto
  then obtain page where page: "snd (snd (readIOUnitPage7 env [] [] ioc)) = Inr page" "parseMPT3Temperatures page = Inr t"
    by (auto simp: ioc_temperatures_def split: sum.splits)
  then have "readIOUnitPage7 env [] [] ioc = (fst (readIOUnitPage7 env [] [] ioc), fst (snd (readIOUnitPage7 env [] [] ioc)), Inr page)"
    by (metis prod.collapse)
  from page7_result [OF this, of issued] page7_ctx [of env issued ioc]
  obtain i1 where "readIOUnitPage7 env [] issued ioc = ([], i1, Inr page)" by (metis prod.collapse)
  then show ?case using Cons page(2) t m by (auto simp: mpt3_pairs_def split: option.split)
qed (simp add: mpt3_pairs_def)

lemma mpt3_collect_success:
  assumes "mpt3_collect sysfsRoot env ctx = (issued, Inr rs)" "fair_order (me_order env)"
  obtains hbas m where "discoverSysfsHBAs (me_tree env) sysfsRoot [] = (Inr hbas, [])"
    "mpt3HBAMetadataByIOC (me_tree env) [] hbas = (Inr m, [])"
    "rs = sort_readings (readings_of (mpt3_pairs env m))" "readings_ok rs"
proof -
  obtain hbas ctx1 where h: "discoverSysfsHBAs (me_tree env) sysfsRoot ctx = (Inr hbas, ctx1)"
    using assms(1) by (auto simp: mpt3_collect_def split: option.splits prod.splits sum.splits)
  obtain m ctx2 where m: "mpt3HBAMetadataByIOC (me_tree env) ctx1 hbas = (Inr m, ctx2)"
    using assms(1) h by (auto simp: mpt3_collect_def split: option.splits prod.splits sum.splits)
  let ?ms = "range_over (me_order env) m"
  obtain i2 out where l: "mpt3_loop env ctx2 [] ?ms [] = (i2, Inr out)" "rs = sort_readings out"
    using assms(1) h m by (auto simp: mpt3_collect_def split: option.splits prod.splits sum.splits if_splits)
  obtain ts where ts: "list_all2 (\<lambda>m t. ioc_temperatures env (fst m) = Inr t) ?ms ts" "list_all temperatures_ok ts"
      "out = readings_of (zip (map snd ?ms) ts)"
    using mpt3_loop_success [OF l(1)] by auto
  have hosts: "hosts_ok hbas" by (rule discovered_hosts_ok [OF h])
  then have dm: "distinct (map fst m)" "map snd m = map sh_metadata (filter (\<lambda>h. sh_driver h = ''mpt3sas'') hbas)"
    using metadataByIOC_ok m by auto
  have mm: "mset ?ms = mset m" using mset_range_over assms(2) dm(1) by blast
  have out: "out = readings_of (mpt3_pairs env ?ms)"
    using ts(3) list_all2_results [OF ts(1)] by (simp add: mpt3_pairs_def zip_map_pair)
  have mp: "mset (mpt3_pairs env ?ms) = mset (mpt3_pairs env m)"
    using mm by (simp add: mpt3_pairs_def)
  have "distinct (map hm_id (map snd m))"
    using hosts unfolding dm(2) by (simp add: hosts_ok_def host_ids_def comp_def distinct_map_filter)
  then have di: "distinct (map (\<lambda>p. hm_id (fst p)) (mpt3_pairs env m))" by (simp add: mpt3_pairs_def comp_def)
  then have rs: "rs = sort_readings (readings_of (mpt3_pairs env m))"
    using sort_readings_mset [OF mp [symmetric]] out l(2) by simp
  have "list_all temperatures_ok (map snd (mpt3_pairs env ?ms))"
    using ts(2) list_all2_results [OF ts(1)] by (simp add: mpt3_pairs_def comp_def)
  then have "\<forall>p \<in> set (mpt3_pairs env m). temperatures_ok (snd p)"
    using mp by (metis (no_types, lifting) list.pred_map list.pred_set comp_apply set_mset_mset)
  moreover have "\<forall>p \<in> set (mpt3_pairs env m). metadata_ok (fst p)"
  proof
    fix p assume "p \<in> set (mpt3_pairs env m)"
    then have "fst p \<in> set (map snd m)" by (force simp: mpt3_pairs_def)
    then show "metadata_ok (fst p)" using hosts_metadata_ok [OF hosts] dm(2) by auto
  qed
  ultimately have "readings_ok rs" unfolding rs using di by (intro sorted_readings_ok) (simp_all add: list_all_iff)
  then show ?thesis using that discover_ctx [OF h] iocs_ctx [OF m] rs by blast
qed

lemma ioc_temperatures_order: "ioc_temperatures (env\<lparr>me_order := order2\<rparr>) = ioc_temperatures env"
proof -
  let ?env2 = "env\<lparr>me_order := order2\<rparr>"
  have "mpt3_command ?env2 = mpt3_command env" by (intro ext) (simp add: mpt3_command_def Let_def)
  then have "readIOUnitPage7 ?env2 = readIOUnitPage7 env"
    by (intro ext) (simp only: readIOUnitPage7_def read_page7_current_def)
  then show ?thesis by (intro ext) (simp only: ioc_temperatures_def)
qed

text \<open>
  C37: The readings of the mpt3 backend are well formed - sorted by strictly increasing stable
  identifier, finite, the legacy temperature the IOC probe's or else the board's - and they do not
  depend on the order in which the runtime visits the map of controllers.
\<close>

theorem mpt3_collect_deterministic:
  assumes "mpt3_collect sysfsRoot env ctx = (issued, Inr rs)" "fair_order (me_order env)"
    and "mpt3_collect sysfsRoot (env\<lparr>me_order := order2\<rparr>) ctx2 = (issued2, Inr qs)" "fair_order order2"
  shows "readings_ok rs \<and> rs = qs"
proof -
  let ?env2 = "env\<lparr>me_order := order2\<rparr>"
  have f2: "fair_order (me_order ?env2)" using assms(4) by simp
  obtain hbas m where r1: "discoverSysfsHBAs (me_tree env) sysfsRoot [] = (Inr hbas, [])"
      "mpt3HBAMetadataByIOC (me_tree env) [] hbas = (Inr m, [])"
      "rs = sort_readings (readings_of (mpt3_pairs env m))" "readings_ok rs"
    using mpt3_collect_success [OF assms(1,2)] by blast
  obtain hbas2 m2 where r2: "discoverSysfsHBAs (me_tree ?env2) sysfsRoot [] = (Inr hbas2, [])"
      "mpt3HBAMetadataByIOC (me_tree ?env2) [] hbas2 = (Inr m2, [])"
      "qs = sort_readings (readings_of (mpt3_pairs ?env2 m2))"
    using mpt3_collect_success [OF assms(3) f2] by blast
  have "hbas2 = hbas" "m2 = m" using r1 r2 by simp_all
  then show ?thesis using r1 r2 by (simp add: mpt3_pairs_def ioc_temperatures_order)
qed

definition example_reply :: "8 word \<Rightarrow> bytes" where
  "example_reply action = [action, 0, 6, 4] @ replicate 16 0 @ [5, 6, 7, 0]"

definition example_page :: bytes where
  "example_page = replicate 16 0 @ [45, 0, 2, 0, 104, 0, 1, 0]"

definition example_mpt3 :: mpt3_env where
  "example_mpt3 =
    \<lparr>me_linux_amd64 = True, me_open = None, me_replyPointer = 0x1000, me_dataPointer = 0x2000,
     me_ioctl = (\<lambda>c. Inr (example_reply (c ! 68), if c ! 68 = 1 then example_page else [])),
     me_tree = \<lparr>tr_ReadDir = (\<lambda>p. Inr [''host0'', ''host1'']),
       tr_ReadFile = (\<lambda>p.
         if p = ''/h/host0/unique_id'' then Inr ''0''
         else if p = ''/h/host1/unique_id'' then Inr ''1''
         else if p = ''/h/host0/proc_name'' \<or> p = ''/h/host1/proc_name'' then Inr ''mpt3sas''
         else Inl (GoErr ''no such file or directory'' [ErrNotExist])),
       tr_EvalSymlinks = (\<lambda>p.
         if p = ''/h/host0/device'' then Inr ''/sys/devices/0000:02:00.0/host0''
         else Inr ''/sys/devices/0000:01:00.0/host1'')\<rparr>,
     me_order = (\<lambda>ks. ks)\<rparr>"

lemma example_pages:
  "snd (snd (readIOUnitPage7 example_mpt3 [] [] 0)) = Inr example_page"
  "snd (snd (readIOUnitPage7 example_mpt3 [] [] 1)) = Inr example_page"
  "parseMPT3Temperatures example_page = Inr \<lparr>ht_ioc = Some (Fin 45), ht_board = Some (Fin 40)\<rparr>"
  by code_simp+

definition example_iocs :: "(int \<times> hbaMetadata) list" where
  "example_iocs =
    [(0, \<lparr>hm_id = ''pci:0000:02:00.0'', hm_model = [], hm_pciAddress = ''0000:02:00.0''\<rparr>),
     (1, \<lparr>hm_id = ''pci:0000:01:00.0'', hm_model = [], hm_pciAddress = ''0000:01:00.0''\<rparr>)]"

lemma example_inventory:
  "fst (case discoverSysfsHBAs (me_tree example_mpt3) ''/h'' [] of
      (Inr hbas, ctx) \<Rightarrow> mpt3HBAMetadataByIOC (me_tree example_mpt3) ctx hbas | (Inl e, ctx) \<Rightarrow> (Inl e, ctx)) = Inr example_iocs"
  by code_simp

lemma example_readings:
  assumes "fair_order order"
  shows "snd (mpt3_collect ''/h'' (example_mpt3\<lparr>me_order := order\<rparr>) []) =
    Inr (sort_readings (readings_of (mpt3_pairs (example_mpt3\<lparr>me_order := order\<rparr>) (range_over order example_iocs))))"
proof -
  let ?env = "example_mpt3\<lparr>me_order := order\<rparr>"
  obtain hbas ctx1 where h: "discoverSysfsHBAs (me_tree example_mpt3) ''/h'' [] = (Inr hbas, ctx1)"
      "fst (mpt3HBAMetadataByIOC (me_tree example_mpt3) ctx1 hbas) = Inr example_iocs"
    using example_inventory by (auto split: prod.splits sum.splits)
  then have d: "discoverSysfsHBAs (me_tree ?env) ''/h'' [] = (Inr hbas, [])" using discover_ctx [OF h(1)] by simp
  have i: "mpt3HBAMetadataByIOC (me_tree ?env) [] hbas = (Inr example_iocs, [])"
    using iocs_ctx [of "me_tree example_mpt3" ctx1 hbas] h(2) by (cases "mpt3HBAMetadataByIOC (me_tree example_mpt3) ctx1 hbas") simp
  have "set (range_over order example_iocs) = set example_iocs"
    by (rule set_range_over [OF assms]) (simp add: example_iocs_def)
  then have "\<exists>t. ioc_temperatures ?env (fst m) = Inr t" if "m \<in> set (range_over order example_iocs)" for m
    using that example_pages by (auto simp: example_iocs_def ioc_temperatures_order ioc_temperatures_def)
  from mpt3_loop_complete [OF this, of "range_over order example_iocs" "[]" "[]"]
  show ?thesis using d i
    by (auto simp: mpt3_collect_def openMPT3_def example_mpt3_def example_iocs_def split: prod.split sum.splits)
qed

theorem mpt3_collect_deterministic_witness:
  "\<exists>rs qs. snd (mpt3_collect ''/h'' example_mpt3 []) = Inr rs \<and>
    snd (mpt3_collect ''/h'' (example_mpt3\<lparr>me_order := rev\<rparr>) []) = Inr qs \<and> length rs = 2 \<and> readings_ok rs \<and> rs = qs"
proof -
  have f: "fair_order (me_order example_mpt3)" "fair_order rev" by (simp_all add: fair_order_def example_mpt3_def)
  have e: "example_mpt3\<lparr>me_order := me_order example_mpt3\<rparr> = example_mpt3" by simp
  obtain rs qs where r: "snd (mpt3_collect ''/h'' example_mpt3 []) = Inr rs"
      "snd (mpt3_collect ''/h'' (example_mpt3\<lparr>me_order := rev\<rparr>) []) = Inr qs"
      "rs = sort_readings (readings_of (mpt3_pairs example_mpt3 (range_over (me_order example_mpt3) example_iocs)))"
    using example_readings [OF f(1)] example_readings [OF f(2)] e by simp
  have o: "me_order example_mpt3 = (\<lambda>ks. ks)" by (simp add: example_mpt3_def)
  have t: "ioc_temperatures example_mpt3 0 = Inr \<lparr>ht_ioc = Some (Fin 45), ht_board = Some (Fin 40)\<rparr>"
    "ioc_temperatures example_mpt3 1 = Inr \<lparr>ht_ioc = Some (Fin 45), ht_board = Some (Fin 40)\<rparr>"
    by (simp_all add: ioc_temperatures_def example_pages)
  have "length rs = 2"
    by (simp add: r(3) sort_readings_def mpt3_pairs_def range_over_def example_iocs_def o t makeHBAReading_def)
  moreover have "mpt3_collect ''/h'' example_mpt3 [] = (fst (mpt3_collect ''/h'' example_mpt3 []), Inr rs)"
    "mpt3_collect ''/h'' (example_mpt3\<lparr>me_order := rev\<rparr>) [] = (fst (mpt3_collect ''/h'' (example_mpt3\<lparr>me_order := rev\<rparr>) []), Inr qs)"
    using r by (metis prod.collapse)+
  note mpt3_collect_deterministic [OF this(1) f(1) this(2) f(2)]
  ultimately show ?thesis using r(1,2) by blast
qed

end
