(* ===== verification/Hba_Storcli.thy ===== *)
theory Hba_Storcli
  imports Hba_Sysfs Json
begin

text \<open>
  The StorCLI backend (\<^verbatim>\<open>hba_storcli.go\<close>): its two commands, the JSON they print, the match of
  their controllers with the sysfs inventory, and a collection that keeps the metadata between
  calls and discovers anew at most once per call. What a command prints is an argument, indexed by
  how many commands the collection runs before.
\<close>

subsection \<open>Parsing\<close>

record storcli_info =
  si_controller :: int
  si_status :: string
  si_basics :: string
  si_pci :: string

definition storcli_info_zero :: storcli_info where
  "storcli_info_zero = \<lparr>si_controller = 0, si_status = [], si_basics = [], si_pci = []\<rparr>"

definition decode_storcli_info :: "storcli_info decoder" where
  "decode_storcli_info = decode_struct ''struct''
    [(''Command Status'', decode_struct ''struct''
        [(''Controller'', decode_int (\<lambda>v r. r\<lparr>si_controller := v\<rparr>)),
         (''Status'', decode_string (\<lambda>v r. r\<lparr>si_status := v\<rparr>))]),
     (''Response Data'', decode_struct ''struct''
        [(''Basics'', decode_struct ''main.storCLIBasics''
            [(''PCI Address'', decode_string (\<lambda>v r. r\<lparr>si_basics := v\<rparr>))]),
         (''PCI Address'', decode_string (\<lambda>v r. r\<lparr>si_pci := v\<rparr>))])]"

definition decode_controllers :: "'x \<Rightarrow> 'x decoder \<Rightarrow> 'x list option decoder" where
  "decode_controllers zero dec = decode_struct ''struct''
    [(''Controllers'', decode_slice zero (\<lambda>v r. v) dec ''[]struct'')]"

definition firstHBAValue :: "string list \<Rightarrow> string" where
  "firstHBAValue vs = (case dropWhile (\<lambda>v. v = []) (map hbaIdentityValue vs) of [] \<Rightarrow> [] | v # _ \<Rightarrow> v)"

definition duplicate_error :: "int \<Rightarrow> go_error" where
  "duplicate_error n = errors_New (''storcli controller '' @ FormatInt n @ '' appears more than once'')"

definition status_error :: "int \<Rightarrow> string \<Rightarrow> go_error" where
  "status_error n status = errors_New (''storcli controller '' @ FormatInt n @ '' status is '' @ quote status)"

fun controllers_loop :: "storcli_info list \<Rightarrow> (int \<times> string) list \<Rightarrow> (int \<times> string) list result" where
  "controllers_loop [] m = Inr m"
| "controllers_loop (c # cs) m =
    (let number = si_controller c in
     if map_of m number \<noteq> None then Inl (duplicate_error number)
     else if si_status c \<noteq> ''Success'' then Inl (status_error number (si_status c))
     else let pci = normalizePCIAddress (firstHBAValue [si_basics c, si_pci c]) in
     if pci = [] then Inl (errors_New (''storcli controller '' @ FormatInt number @ '' has no valid PCI address''))
     else controllers_loop cs (m @ [(number, pci)]))"

definition parseStorCLIControllers :: "string \<Rightarrow> (int \<times> string) list result" where
  "parseStorCLIControllers data =
    (case json_Unmarshal (decode_controllers storcli_info_zero decode_storcli_info) None data of
       Inl err \<Rightarrow> Inl (Errorf_w ''parse storcli discovery JSON: '' err [])
     | Inr None \<Rightarrow> Inl errNoHBA
     | Inr (Some cs) \<Rightarrow> if cs = [] then Inl errNoHBA else controllers_loop cs [])"

record storcli_property =
  sp_property :: string
  sp_value :: string

record storcli_reading =
  sr_controller :: int
  sr_status :: string
  sr_properties :: "storcli_property list option"

definition storcli_property_zero :: storcli_property where
  "storcli_property_zero = \<lparr>sp_property = [], sp_value = []\<rparr>"

definition storcli_reading_zero :: storcli_reading where
  "storcli_reading_zero = \<lparr>sr_controller = 0, sr_status = [], sr_properties = None\<rparr>"

definition decode_storcli_reading :: "storcli_reading decoder" where
  "decode_storcli_reading = decode_struct ''struct''
    [(''Command Status'', decode_struct ''struct''
        [(''Controller'', decode_int (\<lambda>v r. r\<lparr>sr_controller := v\<rparr>)),
         (''Status'', decode_string (\<lambda>v r. r\<lparr>sr_status := v\<rparr>))]),
     (''Response Data'', decode_struct ''struct''
        [(''Controller Properties'', decode_slice storcli_property_zero (\<lambda>v r. r\<lparr>sr_properties := v\<rparr>)
            (decode_struct ''struct''
              [(''Ctrl_Prop'', decode_string (\<lambda>v r. r\<lparr>sp_property := v\<rparr>)),
               (''Value'', decode_string (\<lambda>v r. r\<lparr>sp_value := v\<rparr>))]) ''[]struct'')])]"

definition roc_property :: "string \<Rightarrow> bool" where
  "roc_property p = (p = ''ROC temperature(Degree Celsius)'' \<or> p = ''ROC temperature(Degree Celcius)'')"

definition board_property :: "string \<Rightarrow> bool" where
  "board_property p =
    (p = ''Ctrl temperature(Degree Celsius)'' \<or> p = ''Ctrl temperature(Degree Celcius)'' \<or>
     p = ''Controller temperature(Degree Celsius)'' \<or> p = ''Controller temperature(Degree Celcius)'')"

definition storcli_temperature :: "int \<Rightarrow> string \<Rightarrow> string \<Rightarrow> float64 option \<Rightarrow> float64 result" where
  "storcli_temperature n prop v destination =
    (if destination \<noteq> None
     then Inl (errors_New (''storcli controller '' @ FormatInt n @ '' has duplicate temperature property '' @ quote prop))
     else case ParseFloat v of
       Inl _ \<Rightarrow> Inl (errors_New (''storcli controller '' @ FormatInt n @ '' invalid temperature '' @ quote v))
     | Inr t \<Rightarrow>
         if IsNaN t \<or> IsInf t
         then Inl (errors_New (''storcli controller '' @ FormatInt n @ '' invalid temperature '' @ quote v))
         else Inr t)"

fun properties_loop :: "int \<Rightarrow> storcli_property list \<Rightarrow> hbaTemperatures \<Rightarrow> hbaTemperatures result" where
  "properties_loop n [] t = Inr t"
| "properties_loop n (p # ps) t =
    (if roc_property (sp_property p) then
       (case storcli_temperature n (sp_property p) (sp_value p) (ht_ioc t) of
          Inl err \<Rightarrow> Inl err | Inr v \<Rightarrow> properties_loop n ps (t\<lparr>ht_ioc := Some v\<rparr>))
     else if board_property (sp_property p) then
       (case storcli_temperature n (sp_property p) (sp_value p) (ht_board t) of
          Inl err \<Rightarrow> Inl err | Inr v \<Rightarrow> properties_loop n ps (t\<lparr>ht_board := Some v\<rparr>))
     else properties_loop n ps t)"

fun temperatures_loop :: "storcli_reading list \<Rightarrow> (int \<times> hbaTemperatures) list \<Rightarrow> (int \<times> hbaTemperatures) list result" where
  "temperatures_loop [] m = Inr m"
| "temperatures_loop (c # cs) m =
    (let number = sr_controller c in
     if map_of m number \<noteq> None then Inl (duplicate_error number)
     else if sr_status c \<noteq> ''Success'' then Inl (status_error number (sr_status c))
     else case properties_loop number (case sr_properties c of None \<Rightarrow> [] | Some ps \<Rightarrow> ps) \<lparr>ht_ioc = None, ht_board = None\<rparr> of
       Inl err \<Rightarrow> Inl err
     | Inr t \<Rightarrow> temperatures_loop cs (m @ [(number, t)]))"

definition parseStorCLI :: "string \<Rightarrow> (int \<times> hbaTemperatures) list result" where
  "parseStorCLI data =
    (case json_Unmarshal (decode_controllers storcli_reading_zero decode_storcli_reading) None data of
       Inl err \<Rightarrow> Inl (Errorf_w ''parse storcli JSON: '' err [])
     | Inr None \<Rightarrow> Inl errNoHBA
     | Inr (Some cs) \<Rightarrow> if cs = [] then Inl errNoHBA else temperatures_loop cs [])"

subsection \<open>Running the command\<close>

record storcli_run =
  sn_output :: string
  sn_error :: "go_error option"
  sn_stderr :: string
  sn_ctx :: "go_error option"

record storcli_env =
  se_lookPath :: "go_error option"
  se_run :: "nat \<Rightarrow> string list \<Rightarrow> storcli_run"
  se_tree :: sysfs_tree
  se_ctx :: context_answers
  se_order :: "int range_order"

definition storcliContextError :: "string \<Rightarrow> go_error \<Rightarrow> go_error" where
  "storcliContextError operation err =
    (if errors_Is err DeadlineExceeded then Errorf_w (''storcli '' @ operation @ '' timeout: '') err []
     else Errorf_w (''storcli '' @ operation @ '' canceled: '') err [])"

definition storcliCommandError :: "string \<Rightarrow> go_error \<Rightarrow> string \<Rightarrow> go_error" where
  "storcliCommandError operation err stderr =
    (if errors_As_Exit err \<noteq> None \<and> TrimSpace stderr \<noteq> []
     then Errorf_w (''storcli '' @ operation @ '': '') err ('': '' @ TrimSpace stderr)
     else Errorf_w (''storcli '' @ operation @ '': '') err [])"

text \<open>The arguments of the commands run so far are kept, oldest first.\<close>

definition runStorCLI :: "storcli_env \<Rightarrow> string list list \<Rightarrow> string \<Rightarrow> string list \<Rightarrow> string list list \<times> string result" where
  "runStorCLI env runs operation args =
    (case se_lookPath env of
       Some _ \<Rightarrow> (runs, Inl (GoErr ''HBA backend unavailable: storcli is not installed'' [ErrHBABackendUnavailable]))
     | None \<Rightarrow>
         let r = se_run env (length runs) args in
         (runs @ [args],
          case sn_ctx r of
            Some e \<Rightarrow> Inl (storcliContextError operation e)
          | None \<Rightarrow>
              (case sn_error r of
                 Some e \<Rightarrow> Inl (storcliCommandError operation e (sn_stderr r))
               | None \<Rightarrow> Inr (sn_output r))))"

definition temperature_args :: "string list" where
  "temperature_args = [''/cALL'', ''show'', ''temperature'', ''J'', ''nolog'']"

definition discovery_args :: "string list" where
  "discovery_args = [''/cALL'', ''show'', ''J'', ''nolog'']"

definition readStorCLITemperatures ::
    "storcli_env \<Rightarrow> string list list \<Rightarrow> string list list \<times> (int \<times> hbaTemperatures) list result" where
  "readStorCLITemperatures env runs =
    (case runStorCLI env runs ''temperature'' temperature_args of
       (ran1, Inl err) \<Rightarrow> (ran1, Inl err)
     | (ran1, Inr out) \<Rightarrow> (ran1, parseStorCLI out))"

fun match_loop ::
    "(string \<rightharpoonup> hbaMetadata) \<Rightarrow> (int \<times> string) list \<Rightarrow> (int \<times> hbaMetadata) list \<Rightarrow> (string \<rightharpoonup> int) \<Rightarrow>
     (int \<times> hbaMetadata) list result" where
  "match_loop identities [] m ids = Inr m"
| "match_loop identities ((controller, pci) # rest) m ids =
    (case identities pci of
       None \<Rightarrow> Inl (errors_New (''storcli controller '' @ FormatInt controller @ '' at '' @ pci @ '' is missing from sysfs HBA inventory''))
     | Some identity \<Rightarrow>
         (case ids (hm_id identity) of
            Some previous \<Rightarrow>
              Inl (errors_New (''storcli controllers '' @ FormatInt previous @ '' and '' @ FormatInt controller @
                '' have duplicate identity '' @ quote (hm_id identity)))
          | None \<Rightarrow> match_loop identities rest (m @ [(controller, identity)]) (ids(hm_id identity \<mapsto> controller))))"

definition matchStorCLIControllers ::
    "int range_order \<Rightarrow> (int \<times> string) list \<Rightarrow> (string \<rightharpoonup> hbaMetadata) \<Rightarrow> (int \<times> hbaMetadata) list result" where
  "matchStorCLIControllers order controllers identities = match_loop identities (range_over order controllers) [] Map.empty"

definition discoverStorCLIHBAs ::
    "storcli_env \<Rightarrow> string list list \<Rightarrow> string list list \<times> (int \<times> hbaMetadata) list result" where
  "discoverStorCLIHBAs env runs =
    (case runStorCLI env runs ''discovery'' discovery_args of
       (ran1, Inl err) \<Rightarrow> (ran1, Inl err)
     | (ran1, Inr out) \<Rightarrow>
         (ran1,
          case parseStorCLIControllers out of
            Inl err \<Rightarrow> Inl err
          | Inr controllers \<Rightarrow>
              (case discoverSysfsHBAs (se_tree env) defaultSCSIHostRoot (se_ctx env) of
                 (Inl err, _) \<Rightarrow> Inl (Errorf_w ''read sysfs HBA identities: '' err [])
               | (Inr hbas, _) \<Rightarrow> matchStorCLIControllers (se_order env) controllers (sysfsHBAMetadataByPCI hbas))))"

subsection \<open>One collection\<close>

record storCLIReader =
  sc_metadata :: "(int \<times> hbaMetadata) list option"

definition sortedIntKeys :: "(int \<times> 'v) list \<Rightarrow> int list" where
  "sortedIntKeys m = sort (map fst m)"

definition ints_text :: "int list \<Rightarrow> string" where
  "ints_text xs = ''['' @ joinWith '' '' (map FormatInt xs) @ '']''"

definition validateHBAControllerSet :: "int list \<Rightarrow> (int \<times> hbaTemperatures) list \<Rightarrow> go_error option" where
  "validateHBAControllerSet controllers temperatures =
    (if controllers \<noteq> sortedIntKeys temperatures
     then Some (errors_New (''HBA controller set changed: expected '' @ ints_text controllers @ '', got '' @
       ints_text (sortedIntKeys temperatures)))
     else None)"

definition hbaMetadata_zero :: hbaMetadata where
  "hbaMetadata_zero = \<lparr>hm_id = [], hm_model = [], hm_pciAddress = []\<rparr>"

definition buildHBAReadings ::
    "int range_order \<Rightarrow> (int \<times> hbaTemperatures) list \<Rightarrow> (int \<times> hbaMetadata) list \<Rightarrow> HBA list" where
  "buildHBAReadings order temperatures metadata =
    sort_readings (readings_of (map (\<lambda>ct. (case map_of metadata (fst ct) of None \<Rightarrow> hbaMetadata_zero | Some m \<Rightarrow> m, snd ct))
      (range_over order temperatures)))"

definition storcli_read ::
    "storcli_env \<Rightarrow> string list list \<Rightarrow> storCLIReader \<Rightarrow> string list list \<times> HBA list result" where
  "storcli_read env runs r =
    (let metadata = (case sc_metadata r of None \<Rightarrow> [] | Some m \<Rightarrow> m);
         controllers = sortedIntKeys metadata
     in case readStorCLITemperatures env runs of
          (ran1, Inl err) \<Rightarrow> (ran1, Inl err)
        | (ran1, Inr temperatures) \<Rightarrow>
            (ran1,
             case validateHBAControllerSet controllers temperatures of
               Some err \<Rightarrow> Inl err
             | None \<Rightarrow> Inr (buildHBAReadings (se_order env) temperatures metadata)))"

definition storcli_discover ::
    "storcli_env \<Rightarrow> string list list \<Rightarrow> storCLIReader \<Rightarrow> string list list \<times> storCLIReader \<times> go_error option" where
  "storcli_discover env runs r =
    (case discoverStorCLIHBAs env runs of
       (ran1, Inl err) \<Rightarrow> (ran1, r, Some (Errorf_w ''storcli discovery: '' err []))
     | (ran1, Inr metadata) \<Rightarrow> (ran1, r\<lparr>sc_metadata := Some metadata\<rparr>, None))"

text \<open>After a failed read of metadata that was not fresh: discover once more and read again.\<close>

definition storcli_retry ::
    "storcli_env \<Rightarrow> string list list \<Rightarrow> go_error \<Rightarrow> string list list \<times> storCLIReader \<times> HBA list result" where
  "storcli_retry env runs err =
    (case storcli_discover env runs \<lparr>sc_metadata = None\<rparr> of
       (ran1, r1, Some discoveryErr) \<Rightarrow>
         (ran1, r1, Inl (the (errors_Join [Some err, Some discoveryErr])))
     | (ran1, r1, None) \<Rightarrow> (case storcli_read env ran1 r1 of (ran2, res) \<Rightarrow> (ran2, r1, res)))"

definition storcli_collect :: "storcli_env \<Rightarrow> storCLIReader \<Rightarrow> string list list \<times> storCLIReader \<times> HBA list result" where
  "storcli_collect env r =
    (case (if sc_metadata r = None then storcli_discover env [] r else ([], r, None)) of
       (ran1, r1, Some err) \<Rightarrow> (ran1, r1, Inl err)
     | (ran1, r1, None) \<Rightarrow>
         (case storcli_read env ran1 r1 of
            (ran2, Inr readings) \<Rightarrow> (ran2, r1, Inr readings)
          | (ran2, Inl err) \<Rightarrow>
              if sc_metadata r = None then (ran2, r1\<lparr>sc_metadata := None\<rparr>, Inl err)
              else storcli_retry env ran2 err))"

subsection \<open>What the parsers accept\<close>

lemma storcli_temperature_finite: "storcli_temperature n p v d = Inr t \<Longrightarrow> finite_probe (Some t)"
  by (cases t) (auto simp: storcli_temperature_def finite_probe_def IsNaN_def IsInf_def split: if_splits sum.splits)

lemma properties_loop_ok: "properties_loop n ps t = Inr t' \<Longrightarrow> temperatures_ok t \<Longrightarrow> temperatures_ok t'"
proof (induction n ps t rule: properties_loop.induct)
  case (2 n p ps t)
  have fin: "storcli_temperature n q v d = Inr x \<Longrightarrow> finite_probe (Some x)" for q v d x
    by (rule storcli_temperature_finite)
  show ?case
  proof (cases "roc_property (sp_property p)")
    case True
    then obtain v where "storcli_temperature n (sp_property p) (sp_value p) (ht_ioc t) = Inr v"
        "properties_loop n ps (t\<lparr>ht_ioc := Some v\<rparr>) = Inr t'"
      using 2 by (auto split: sum.splits)
    then show ?thesis using 2 True fin by (auto simp: temperatures_ok_def)
  next
    case False
    show ?thesis
    proof (cases "board_property (sp_property p)")
      case True
      then obtain v where "storcli_temperature n (sp_property p) (sp_value p) (ht_board t) = Inr v"
          "properties_loop n ps (t\<lparr>ht_board := Some v\<rparr>) = Inr t'"
        using 2 False by (auto split: sum.splits)
      then show ?thesis using 2 True False fin by (auto simp: temperatures_ok_def)
    qed (use 2 False in simp)
  qed
qed simp

definition temperature_map_ok :: "(int \<times> hbaTemperatures) list \<Rightarrow> bool" where
  "temperature_map_ok m = (distinct (map fst m) \<and> list_all (\<lambda>x. temperatures_ok (snd x)) m)"

lemma temperatures_loop_ok: "temperatures_loop cs m = Inr out \<Longrightarrow> temperature_map_ok m \<Longrightarrow> temperature_map_ok out"
proof (induction cs m rule: temperatures_loop.induct)
  case (2 c cs m)
  let ?ps = "case sr_properties c of None \<Rightarrow> [] | Some ps \<Rightarrow> ps"
  obtain t where t: "map_of m (sr_controller c) = None" "sr_status c = ''Success''"
      "properties_loop (sr_controller c) ?ps \<lparr>ht_ioc = None, ht_board = None\<rparr> = Inr t"
      "temperatures_loop cs (m @ [(sr_controller c, t)]) = Inr out"
    using 2(2) by (auto simp: Let_def split: if_splits sum.splits)
  have "temperatures_ok t" using properties_loop_ok [OF t(3)] by (simp add: temperatures_ok_def finite_probe_def)
  then have "temperature_map_ok (m @ [(sr_controller c, t)])"
    using 2(3) t(1) by (auto simp: temperature_map_ok_def map_of_eq_None_iff)
  then show ?case using 2(1) [OF refl _ _ t(3)] t by simp
qed simp

lemma parseStorCLI_ok: "parseStorCLI out = Inr m \<Longrightarrow> temperature_map_ok m"
  using temperatures_loop_ok [of _ "[]" m]
  by (auto simp: parseStorCLI_def temperature_map_ok_def split: sum.splits option.splits if_splits)

lemma controllers_loop_ok: "controllers_loop cs m = Inr out \<Longrightarrow> distinct (map fst m) \<Longrightarrow> distinct (map fst out)"
  by (induction cs m rule: controllers_loop.induct)
    (auto simp: Let_def map_of_eq_None_iff split: if_splits)

lemma parseStorCLIControllers_ok: "parseStorCLIControllers out = Inr m \<Longrightarrow> distinct (map fst m)"
  using controllers_loop_ok [of _ "[]" m]
  by (auto simp: parseStorCLIControllers_def split: sum.splits option.splits if_splits)

text \<open>Metadata by controller number: every number and every identifier occurs once.\<close>

definition controllers_ok :: "(int \<times> hbaMetadata) list \<Rightarrow> bool" where
  "controllers_ok m =
    (distinct (map fst m) \<and> distinct (map (\<lambda>x. hm_id (snd x)) m) \<and> list_all (\<lambda>x. metadata_ok (snd x)) m)"

lemma match_loop_ok:
  assumes "match_loop identities cs m ids = Inr out" "distinct (map fst m @ map fst cs)"
    and "dom ids = set (map (\<lambda>x. hm_id (snd x)) m)" "distinct (map (\<lambda>x. hm_id (snd x)) m)"
    and "list_all (\<lambda>x. metadata_ok (snd x)) m" "\<And>p i. identities p = Some i \<Longrightarrow> metadata_ok i"
  shows "controllers_ok out"
  using assms(1-5)
proof (induction cs arbitrary: m ids)
  case (Cons c rest)
  obtain controller pci where c: "c = (controller, pci)" by (cases c)
  obtain i where i: "identities pci = Some i" "ids (hm_id i) = None"
      "match_loop identities rest (m @ [(controller, i)]) (ids(hm_id i \<mapsto> controller)) = Inr out"
    using Cons.prems(1) c by (auto split: option.splits)
  have new: "hm_id i \<notin> set (map (\<lambda>x. hm_id (snd x)) m)" using i(2) Cons.prems(3) by (metis domIff)
  have dom: "dom (ids(hm_id i \<mapsto> controller)) = set (map (\<lambda>x. hm_id (snd x)) (m @ [(controller, i)]))"
    using Cons.prems(3) by (simp only: dom_fun_upd) simp
  show ?case
    by (rule Cons.IH [OF i(3) _ dom]) (use Cons.prems new c assms(6) [OF i(1)] in auto)
qed (simp add: controllers_ok_def)

lemma match_loop_matched:
  "match_loop identities cs m ids = Inr out \<Longrightarrow>
    \<exists>xs. out = m @ xs \<and> list_all2 (\<lambda>c x. fst x = fst c \<and> identities (snd c) = Some (snd x)) cs xs"
proof (induction cs arbitrary: m ids)
  case (Cons c rest)
  obtain controller pci where c: "c = (controller, pci)" by (cases c)
  obtain i where i: "identities pci = Some i"
      "match_loop identities rest (m @ [(controller, i)]) (ids(hm_id i \<mapsto> controller)) = Inr out"
    using Cons.prems c by (auto split: option.splits)
  then obtain xs where "out = m @ (controller, i) # xs"
      "list_all2 (\<lambda>c x. fst x = fst c \<and> identities (snd c) = Some (snd x)) rest xs"
    using Cons.IH [OF i(2)] by auto
  then show ?case using c i(1) by (intro exI [of _ "(controller, i) # xs"]) simp
qed simp

lemma list_all2_fst: "list_all2 (\<lambda>c x. fst x = fst c \<and> P c x) cs xs \<Longrightarrow> map fst xs = map fst cs"
  by (induction rule: list_all2_induct) auto

lemma runStorCLI_output: "runStorCLI env runs op args = (runs1, Inr out) \<Longrightarrow> out = sn_output (se_run env (length runs) args)"
  by (auto simp: runStorCLI_def Let_def split: option.splits)

text \<open>
  Metadata that a discovery made from what StorCLI and sysfs report: it has the controllers StorCLI
  lists, each with the metadata of the sysfs adapter at the PCI address StorCLI gives for it.
\<close>

definition discovered :: "storcli_env \<Rightarrow> (int \<times> hbaMetadata) list \<Rightarrow> bool" where
  "discovered env m =
    (\<exists>n controllers hbas ctx1.
       parseStorCLIControllers (sn_output (se_run env n discovery_args)) = Inr controllers \<and>
       discoverSysfsHBAs (se_tree env) defaultSCSIHostRoot (se_ctx env) = (Inr hbas, ctx1) \<and>
       set (map fst m) = set (map fst controllers) \<and>
       (\<forall>(c, i) \<in> set m. i \<in> sh_metadata ` set hbas \<and> (c, hm_pciAddress i) \<in> set controllers))"

lemma discoverStorCLIHBAs_ok:
  assumes "discoverStorCLIHBAs env runs = (runs1, Inr m)" "fair_order (se_order env)"
  shows "controllers_ok m \<and> discovered env m"
proof -
  obtain controllers hbas ctx1 where p: "parseStorCLIControllers (sn_output (se_run env (length runs) discovery_args)) = Inr controllers"
      "discoverSysfsHBAs (se_tree env) defaultSCSIHostRoot (se_ctx env) = (Inr hbas, ctx1)"
      "match_loop (sysfsHBAMetadataByPCI hbas) (range_over (se_order env) controllers) [] Map.empty = Inr m"
    using assms(1) by (auto simp: discoverStorCLIHBAs_def matchStorCLIControllers_def split: prod.splits sum.splits
        dest!: runStorCLI_output)
  let ?cs = "range_over (se_order env) controllers"
  have hosts: "hosts_ok hbas" by (rule discovered_hosts_ok [OF p(2)])
  have d: "distinct (map fst controllers)" by (rule parseStorCLIControllers_ok [OF p(1)])
  then have ms: "mset ?cs = mset controllers" using assms(2) mset_range_over by blast
  then have se: "set ?cs = set controllers" by (metis set_mset_mset)
  have "distinct (map fst ?cs)" using d ms by (metis mset_map mset_eq_imp_distinct_iff)
  then have ok: "controllers_ok m"
    by (intro match_loop_ok [OF p(3)]) (auto dest!: metadataByPCI_SomeD intro: hosts_metadata_ok [OF hosts])
  have m: "list_all2 (\<lambda>c x. fst x = fst c \<and> sysfsHBAMetadataByPCI hbas (snd c) = Some (snd x)) ?cs m"
    using match_loop_matched [OF p(3)] by simp
  have "set (map fst m) = set (map fst controllers)" using list_all2_fst [OF m] se by simp
  moreover have "i \<in> sh_metadata ` set hbas \<and> (c, hm_pciAddress i) \<in> set controllers" if x: "(c, i) \<in> set m" for c i
  proof -
    obtain pci where "(c, pci) \<in> set ?cs" "sysfsHBAMetadataByPCI hbas pci = Some i"
      using m x by (auto simp: list_all2_conv_all_nth in_set_conv_nth) (metis fst_conv prod.collapse snd_conv)
    then show ?thesis using metadataByPCI_SomeD [of hbas pci i] se by auto
  qed
  ultimately have "discovered env m" unfolding discovered_def using p(1,2) by blast
  with ok show ?thesis by blast
qed

subsection \<open>A collection\<close>

definition storcli_inv :: "storCLIReader \<Rightarrow> bool" where
  "storcli_inv r = (case sc_metadata r of None \<Rightarrow> True | Some m \<Rightarrow> controllers_ok m)"

text \<open>The readings of controllers whose numbers are those of the metadata.\<close>

definition storcli_pairs :: "(int \<times> hbaMetadata) list \<Rightarrow> (int \<times> hbaTemperatures) list \<Rightarrow> (hbaMetadata \<times> hbaTemperatures) list" where
  "storcli_pairs metadata ts = map (\<lambda>ct. (case map_of metadata (fst ct) of None \<Rightarrow> hbaMetadata_zero | Some m \<Rightarrow> m, snd ct)) ts"

lemma map_of_SomeI: "distinct (map fst m) \<Longrightarrow> k \<in> fst ` set m \<Longrightarrow> \<exists>v. map_of m k = Some v \<and> (k, v) \<in> set m"
  by (metis map_of_SomeD map_of_eq_None_iff option.exhaust)

lemma storcli_pairs_ok:
  assumes "controllers_ok metadata" "temperature_map_ok ts" "set (map fst ts) = set (map fst metadata)"
  shows "distinct (map (\<lambda>p. hm_id (fst p)) (storcli_pairs metadata ts)) \<and>
    list_all (\<lambda>p. metadata_ok (fst p) \<and> temperatures_ok (snd p)) (storcli_pairs metadata ts)"
proof -
  have known: "\<exists>m. map_of metadata k = Some m \<and> (k, m) \<in> set metadata" if "(k, t) \<in> set ts" for k t
  proof -
    have "k \<in> set (map fst ts)" using that by force
    then have "k \<in> fst ` set metadata" using assms(3) by simp
    then show ?thesis using map_of_SomeI [of metadata k] assms(1) by (simp add: controllers_ok_def)
  qed
  have inj: "k = k'" if "(k, m) \<in> set metadata" "(k', m') \<in> set metadata" "hm_id m = hm_id m'" for k m k' m'
    using distinct_map_inj [of "\<lambda>x. hm_id (snd x)" metadata "(k, m)" "(k', m')"] that assms(1)
    by (simp add: controllers_ok_def)
  have "inj_on (\<lambda>ct. hm_id (case map_of metadata (fst ct) of None \<Rightarrow> hbaMetadata_zero | Some m \<Rightarrow> m)) (set ts)"
  proof (rule inj_onI)
    fix x y assume xy: "x \<in> set ts" "y \<in> set ts"
      "hm_id (case map_of metadata (fst x) of None \<Rightarrow> hbaMetadata_zero | Some m \<Rightarrow> m) =
       hm_id (case map_of metadata (fst y) of None \<Rightarrow> hbaMetadata_zero | Some m \<Rightarrow> m)"
    obtain m n where mn: "map_of metadata (fst x) = Some m" "(fst x, m) \<in> set metadata"
        "map_of metadata (fst y) = Some n" "(fst y, n) \<in> set metadata"
      using known [of "fst x" "snd x"] known [of "fst y" "snd y"] xy by auto
    then have "fst x = fst y" using inj xy(3) by simp
    then show "x = y" using xy assms(2) distinct_map_inj [of fst ts] by (auto simp: temperature_map_ok_def)
  qed
  moreover have "distinct ts" using assms(2) by (auto simp: temperature_map_ok_def distinct_map)
  ultimately have "distinct (map (\<lambda>p. hm_id (fst p)) (storcli_pairs metadata ts))"
    by (simp add: storcli_pairs_def distinct_map comp_def)
  moreover have "metadata_ok (fst p) \<and> temperatures_ok (snd p)" if "p \<in> set (storcli_pairs metadata ts)" for p
  proof -
    obtain k t where kt: "(k, t) \<in> set ts" "p = (case map_of metadata k of None \<Rightarrow> hbaMetadata_zero | Some m \<Rightarrow> m, t)"
      using \<open>p \<in> _\<close> by (auto simp: storcli_pairs_def)
    obtain m where "map_of metadata k = Some m" "(k, m) \<in> set metadata" using known [OF kt(1)] by blast
    then show ?thesis using kt assms(1,2) by (auto simp: controllers_ok_def temperature_map_ok_def list_all_iff)
  qed
  ultimately show ?thesis by (simp add: list_all_iff)
qed

lemma readings_of_set: "set (readings_of ps) = {h. \<exists>p \<in> set ps. makeHBAReading (fst p) (snd p) = Some h}"
  by (induction ps) (auto split: option.split)

text \<open>Readings of exactly the controllers of the metadata, from the temperatures StorCLI printed for them.\<close>

definition measured :: "storcli_env \<Rightarrow> (int \<times> hbaMetadata) list \<Rightarrow> HBA list \<Rightarrow> bool" where
  "measured env m rs =
    (\<exists>n ts. parseStorCLI (sn_output (se_run env n temperature_args)) = Inr ts \<and>
       (\<forall>h. h \<in> set rs \<longleftrightarrow> (\<exists>c i t. (c, i) \<in> set m \<and> (c, t) \<in> set ts \<and> makeHBAReading i t = Some h)))"

lemma storcli_read_ok:
  assumes "storcli_read env runs r = (runs1, Inr rs)" "storcli_inv r" "sc_metadata r = Some m" "fair_order (se_order env)"
  shows "readings_ok rs \<and> measured env m rs"
proof -
  obtain ts where t: "parseStorCLI (sn_output (se_run env (length runs) temperature_args)) = Inr ts"
      "sortedIntKeys m = sortedIntKeys ts" "rs = buildHBAReadings (se_order env) ts m"
    using assms(1,3)
    by (auto simp: storcli_read_def readStorCLITemperatures_def validateHBAControllerSet_def Let_def
        split: prod.splits sum.splits option.splits if_splits dest!: runStorCLI_output)
  have ts: "temperature_map_ok ts" by (rule parseStorCLI_ok [OF t(1)])
  have keys: "set (map fst ts) = set (map fst m)" using t(2) by (metis set_sort sortedIntKeys_def)
  have m: "controllers_ok m" using assms(2,3) by (simp add: storcli_inv_def)
  let ?ts = "range_over (se_order env) ts"
  have mm: "mset ?ts = mset ts" using ts mset_range_over assms(4) by (auto simp: temperature_map_ok_def)
  then have "mset (map fst ?ts) = mset (map fst ts)" and se: "set ?ts = set ts" by (simp, metis set_mset_mset)
  then have ts2: "temperature_map_ok ?ts" "set (map fst ?ts) = set (map fst m)"
    using ts keys mset_eq_imp_distinct_iff [of "map fst ?ts" "map fst ts"] by (simp_all add: temperature_map_ok_def list_all_iff)
  have rs: "rs = sort_readings (readings_of (storcli_pairs m ?ts))"
    using t(3) by (simp add: buildHBAReadings_def storcli_pairs_def)
  have ok: "readings_ok rs" unfolding rs using storcli_pairs_ok [OF m ts2] by (intro sorted_readings_ok) auto
  have "h \<in> set rs \<longleftrightarrow> (\<exists>c i t. (c, i) \<in> set m \<and> (c, t) \<in> set ts \<and> makeHBAReading i t = Some h)" for h
  proof -
    have known: "\<exists>i. map_of m c = Some i \<and> (c, i) \<in> set m" if "(c, t) \<in> set ts" for c t
      using that keys map_of_SomeI [of m c] m by (force simp: controllers_ok_def)
    have only: "map_of m c = Some i" if "(c, i) \<in> set m" for c i
      using that m by (simp add: controllers_ok_def)
    have "h \<in> set rs \<longleftrightarrow> (\<exists>x \<in> set ts. makeHBAReading (case map_of m (fst x) of None \<Rightarrow> hbaMetadata_zero | Some i \<Rightarrow> i) (snd x) = Some h)"
      by (simp add: rs sort_readings_def readings_of_set storcli_pairs_def se)
    also have "\<dots> \<longleftrightarrow> (\<exists>c i t. (c, i) \<in> set m \<and> (c, t) \<in> set ts \<and> makeHBAReading i t = Some h)"
    proof (intro iffI; elim bexE exE conjE)
      fix x assume "x \<in> set ts" "makeHBAReading (case map_of m (fst x) of None \<Rightarrow> hbaMetadata_zero | Some i \<Rightarrow> i) (snd x) = Some h"
      then show "\<exists>c i t. (c, i) \<in> set m \<and> (c, t) \<in> set ts \<and> makeHBAReading i t = Some h"
        using known [of "fst x" "snd x"] by (auto intro!: exI [of _ "fst x"]) (metis prod.collapse)
    next
      fix c i t assume "(c, i) \<in> set m" "(c, t) \<in> set ts" "makeHBAReading i t = Some h"
      then show "\<exists>x \<in> set ts. makeHBAReading (case map_of m (fst x) of None \<Rightarrow> hbaMetadata_zero | Some i \<Rightarrow> i) (snd x) = Some h"
        using only [of c i] by (intro bexI [of _ "(c, t)"]) simp_all
    qed
    finally show ?thesis .
  qed
  then show ?thesis using ok t(1) unfolding measured_def by blast
qed

lemma runStorCLI_runs: "fst (runStorCLI env runs op args) \<in> {runs, runs @ [args]}"
  by (auto simp: runStorCLI_def Let_def split: option.split)

lemma storcli_read_runs: "fst (storcli_read env runs r) \<in> {runs, runs @ [temperature_args]}"
  using runStorCLI_runs [of env runs "''temperature''" temperature_args]
  by (auto simp: storcli_read_def readStorCLITemperatures_def Let_def split: prod.splits sum.splits)

lemma storcli_discover_runs: "fst (storcli_discover env runs r) \<in> {runs, runs @ [discovery_args]}"
  using runStorCLI_runs [of env runs "''discovery''" discovery_args]
  by (auto simp: storcli_discover_def discoverStorCLIHBAs_def split: prod.splits sum.splits)

lemma storcli_discover_ok:
  assumes "storcli_discover env runs r = (runs1, r1, e)" "fair_order (se_order env)" "storcli_inv r"
  shows "storcli_inv r1 \<and> (e = None \<longrightarrow> (\<exists>m. sc_metadata r1 = Some m \<and> discovered env m)) \<and> (e \<noteq> None \<longrightarrow> r1 = r)"
  using assms discoverStorCLIHBAs_ok [of env runs runs1]
  by (auto simp: storcli_discover_def storcli_inv_def split: prod.splits sum.splits)

definition collection_ok :: "storcli_env \<Rightarrow> storCLIReader \<Rightarrow> HBA list result \<Rightarrow> bool" where
  "collection_ok env r res =
    (storcli_inv r \<and>
     (case res of
        Inl _ \<Rightarrow> True
      | Inr rs \<Rightarrow> readings_ok rs \<and> (case sc_metadata r of None \<Rightarrow> False | Some m \<Rightarrow> measured env m rs)))"

text \<open>Where the metadata comes from: it was there before, or a discovery of this collection made it.\<close>

definition known_metadata :: "storcli_env \<Rightarrow> storCLIReader \<Rightarrow> storCLIReader \<Rightarrow> bool" where
  "known_metadata env r r1 = (\<forall>m. sc_metadata r1 = Some m \<longrightarrow> sc_metadata r = Some m \<or> discovered env m)"

lemma storcli_read_collection:
  assumes "storcli_read env runs r = (runs1, res)" "storcli_inv r" "sc_metadata r \<noteq> None" "fair_order (se_order env)"
  shows "collection_ok env r res"
  using assms storcli_read_ok [of env runs r runs1]
  by (cases res) (auto simp: collection_ok_def)

lemma storcli_retry_ok:
  assumes "storcli_retry env runs err = (runs1, r1, res)" "fair_order (se_order env)"
  shows "collection_ok env r1 res \<and> known_metadata env r r1 \<and> (\<exists>ds ts. runs1 = runs @ ds @ ts \<and> ds \<in> {[], [discovery_args]} \<and> ts \<in> {[], [temperature_args]})"
proof -
  obtain rn ra ea where d: "storcli_discover env runs \<lparr>sc_metadata = None\<rparr> = (rn, ra, ea)" by (rule prod_cases3)
  have inv: "storcli_inv ra" "ea = None \<Longrightarrow> \<exists>m. sc_metadata ra = Some m \<and> discovered env m"
      "ea \<noteq> None \<Longrightarrow> sc_metadata ra = None"
    using storcli_discover_ok [OF d assms(2)] by (auto simp: storcli_inv_def)
  obtain ds where ds: "rn = runs @ ds" "ds \<in> {[], [discovery_args]}"
    using storcli_discover_runs [of env runs "\<lparr>sc_metadata = None\<rparr>"] d by auto
  show ?thesis
  proof (cases ea)
    case None
    obtain rn2 res2 where r: "storcli_read env rn ra = (rn2, res2)" by (cases "storcli_read env rn ra")
    obtain ts where "rn2 = rn @ ts" "ts \<in> {[], [temperature_args]}" using storcli_read_runs [of env rn ra] r by auto
    then show ?thesis using assms d None r ds storcli_read_collection [OF r inv(1)] inv(2) assms(2)
      by (auto simp: storcli_retry_def known_metadata_def)
  next
    case (Some e)
    then show ?thesis using assms d inv ds by (auto simp: storcli_retry_def collection_ok_def known_metadata_def)
  qed
qed

lemma storcli_collection_result:
  assumes "storcli_collect env r = (runs, r1, res)" "storcli_inv r" "fair_order (se_order env)"
  shows "collection_ok env r1 res \<and> known_metadata env r r1 \<and> length (filter (\<lambda>a. a = discovery_args) runs) \<le> 1 \<and> length runs \<le> 3"
proof -
  have args: "temperature_args \<noteq> discovery_args" by (simp add: temperature_args_def discovery_args_def)
  show ?thesis
  proof (cases "sc_metadata r = None")
    case True
    obtain rn ra ea where d: "storcli_discover env [] r = (rn, ra, ea)" by (rule prod_cases3)
    have inv: "storcli_inv ra" "ea = None \<Longrightarrow> \<exists>m. sc_metadata ra = Some m \<and> discovered env m" "ea \<noteq> None \<Longrightarrow> ra = r"
      using storcli_discover_ok [OF d assms(3,2)] by simp_all
    have ds: "rn \<in> {[], [discovery_args]}" using storcli_discover_runs [of env "[]" r] d by simp
    obtain rn2 res2 where rd: "storcli_read env rn ra = (rn2, res2)" by (cases "storcli_read env rn ra")
    have ts: "rn2 \<in> {rn, rn @ [temperature_args]}" using storcli_read_runs [of env rn ra] rd by simp
    show ?thesis
    proof (cases ea)
      case None
      then show ?thesis
        using assms(1) True d rd args ds ts storcli_read_collection [OF rd inv(1) _ assms(3)] inv(2)
        by (cases res2) (auto simp: storcli_collect_def collection_ok_def storcli_inv_def known_metadata_def)
    next
      case (Some e)
      then show ?thesis using assms(1) True d ds inv by (auto simp: storcli_collect_def collection_ok_def known_metadata_def)
    qed
  next
    case False
    obtain rn res2 where rd: "storcli_read env [] r = (rn, res2)" by (cases "storcli_read env [] r")
    have ts: "rn \<in> {[], [temperature_args]}" using storcli_read_runs [of env "[]" r] rd by simp
    show ?thesis
    proof (cases res2)
      case (Inr rs)
      then show ?thesis using assms(1) False rd ts args storcli_read_collection [OF rd assms(2) False assms(3)]
        by (auto simp: storcli_collect_def known_metadata_def)
    next
      case (Inl e)
      then have "storcli_retry env rn e = (runs, r1, res)" using assms(1) False rd by (simp add: storcli_collect_def)
      from storcli_retry_ok [OF this assms(3), of r] show ?thesis using ts args by auto
    qed
  qed
qed

lemma storcli_collection: "storcli_inv r \<Longrightarrow> fair_order (se_order env) \<Longrightarrow> snd (storcli_collect env r) = (r1, res) \<Longrightarrow> collection_ok env r1 res"
  using storcli_collection_result [of env r "fst (storcli_collect env r)" r1 res] by (metis prod.collapse)

text \<open>
  C39: From a reader whose metadata is well formed, a StorCLI collection leaves it well formed, runs
  at most one discovery and at most three commands, and returns only readings that are sorted by
  strictly increasing stable identifier and finite: those of exactly the controllers of the kept
  metadata that StorCLI printed a temperature for, with that temperature and with the identity in the
  metadata. The metadata was either kept from before or has just been discovered: then it has the
  controllers StorCLI lists, each with the identity of the sysfs adapter at the PCI address StorCLI
  gives for it. This holds whatever the commands print and in whatever order maps are visited.
\<close>

theorem storcli_collect_ok:
  assumes "storcli_collect env r = (runs, r1, res)" "storcli_inv r" "fair_order (se_order env)"
  shows "collection_ok env r1 res \<and> known_metadata env r r1 \<and>
    length (filter (\<lambda>a. a = discovery_args) runs) \<le> 1 \<and> length runs \<le> 3"
  using assms by (rule storcli_collection_result)

definition example_storcli :: storcli_env where
  "example_storcli =
    \<lparr>se_lookPath = None,
     se_run = (\<lambda>n args. \<lparr>sn_output = json_print (JObj [(''Controllers'', JArr [JObj
         [(''Command Status'', JObj [(''Controller'', JNum ''0''), (''Status'', JStr ''Success'')]),
          (''Response Data'', JObj
            (if args = discovery_args then [(''PCI Address'', JStr ''00:01:00:00'')]
             else [(''Controller Properties'', JArr [JObj [(''Ctrl_Prop'', JStr ''ROC temperature(Degree Celsius)''), (''Value'', JStr ''41'')]])]))]])]),
       sn_error = None, sn_stderr = [], sn_ctx = None\<rparr>),
     se_tree = \<lparr>tr_ReadDir = (\<lambda>p. Inr [''host0'']),
       tr_ReadFile = (\<lambda>p. if Base p = ''proc_name'' then Inr ''mpt3sas''
         else Inl (GoErr ''no such file or directory'' [ErrNotExist])),
       tr_EvalSymlinks = (\<lambda>p. Inr ''/sys/devices/0000:01:00.0/host0'')\<rparr>,
     se_ctx = [], se_order = (\<lambda>ks. ks)\<rparr>"

definition example_hba :: HBA where
  "example_hba = \<lparr>hba_ID = ''pci:0000:01:00.0'', hba_Model = [], hba_PCIAddress = ''0000:01:00.0'', hba_Temp = Fin 41,
     hba_IOCTemp = Some (Fin 41), hba_BoardTemp = None\<rparr>"

lemma example_storcli_runs:
  "storcli_collect example_storcli \<lparr>sc_metadata = None\<rparr> =
    ([discovery_args, temperature_args],
     \<lparr>sc_metadata = Some [(0, \<lparr>hm_id = ''pci:0000:01:00.0'', hm_model = [], hm_pciAddress = ''0000:01:00.0''\<rparr>)]\<rparr>, Inr [example_hba])"
  by code_simp

theorem storcli_collect_ok_witness:
  "snd (snd (storcli_collect example_storcli \<lparr>sc_metadata = None\<rparr>)) = Inr [example_hba] \<and>
   collection_ok example_storcli (fst (snd (storcli_collect example_storcli \<lparr>sc_metadata = None\<rparr>))) (Inr [example_hba]) \<and>
   discovered example_storcli [(0, \<lparr>hm_id = ''pci:0000:01:00.0'', hm_model = [], hm_pciAddress = ''0000:01:00.0''\<rparr>)]"
  using example_storcli_runs storcli_collect_ok [OF example_storcli_runs]
  by (simp add: storcli_inv_def fair_order_def example_storcli_def known_metadata_def)

end
