(* ===== verification/Hba_Collector.thy ===== *)
theory Hba_Collector
  imports Hba_Mpt3 Hba_Storcli
begin

text \<open>
  The HBA collector (\<^verbatim>\<open>hba.go\<close>): it refreshes through one of the two backends within a deadline
  and serves the last readings until they expire. A backend is an implementation of
  \<^verbatim>\<open>hbaSnapshotReader\<close>: a collection may change the reader and returns readings or an error. The
  locale \<open>hba_backend\<close> states what the collector relies on; both backends, and the reader that is
  one of the two, are interpretations of it.
\<close>

subsection \<open>Data\<close>

definition hbaModeEnabled :: string where "hbaModeEnabled = ''enabled''"
definition hbaModeDisabled :: string where "hbaModeDisabled = ''disabled''"
definition hbaBackendMPT3CTL :: string where "hbaBackendMPT3CTL = ''mpt3ctl''"
definition hbaBackendStorCLI :: string where "hbaBackendStorCLI = ''storcli''"

abbreviation (input) hbaMPT3CTLRefreshInterval :: duration where "hbaMPT3CTLRefreshInterval \<equiv> 15 * second"
abbreviation (input) hbaStorCLIRefreshInterval :: duration where "hbaStorCLIRefreshInterval \<equiv> 30 * second"
abbreviation (input) hbaCollectionTimeout :: duration where "hbaCollectionTimeout \<equiv> 15 * second"

record 'r hbaCollector =
  hc_interval :: duration
  hc_mode :: string
  hc_backend :: string
  hc_err :: "go_error option"
  hc_lastSuccessfulAt :: time
  hc_lastErrorAt :: time
  hc_lastSuccessfulSnapshot :: "HBA list option"
  hc_reader :: 'r

record hbaCollectorStatus =
  hs_interval :: duration
  hs_mode :: string
  hs_backend :: string
  hs_lastSuccessfulAt :: time
  hs_lastErrorAt :: time
  hs_err :: "go_error option"
  hs_lastSuccessfulSnapshot :: "HBA list option"
  hs_stale :: bool

datatype hba_reader = MPT3Reader string | StorCLIReader storCLIReader

subsection \<open>Operations\<close>

definition newConfiguredHBACollector :: "string \<Rightarrow> string \<Rightarrow> hba_reader hbaCollector result" where
  "newConfiguredHBACollector mode backend =
    (let make = (\<lambda>interval reader.
           \<lparr>hc_interval = interval, hc_mode = mode, hc_backend = backend,
            hc_err = (if mode = hbaModeDisabled then None
                      else Some (errors_New ''HBA temperatures have not been collected yet'')),
            hc_lastSuccessfulAt = time_zero, hc_lastErrorAt = time_zero, hc_lastSuccessfulSnapshot = None,
            hc_reader = reader\<rparr>)
     in if backend = hbaBackendMPT3CTL then Inr (make hbaMPT3CTLRefreshInterval (MPT3Reader newMPT3Reader))
        else if backend = hbaBackendStorCLI then Inr (make hbaStorCLIRefreshInterval (StorCLIReader \<lparr>sc_metadata = None\<rparr>))
        else Inl (errors_New (''invalid HBA backend '' @ quote backend @ '' (expected mpt3ctl or storcli)'')))"

text \<open>What one refresh sees: the clock before and after, the state of its context, the backend's world.\<close>

record 'e hba_refresh_env =
  hr_startedAt :: time
  hr_finishedAt :: time
  hr_ctxErr :: "go_error option"
  hr_world :: 'e

definition hba_deadline :: "'e hba_refresh_env \<Rightarrow> time" where
  "hba_deadline env = time_Add (hr_startedAt env) hbaCollectionTimeout"

definition deadline_exceeded :: go_error where
  "deadline_exceeded = GoErr ''context deadline exceeded'' [DeadlineExceeded]"

definition hba_refresh ::
    "('e \<Rightarrow> 'r \<Rightarrow> 'r \<times> HBA list result) \<Rightarrow> 'r hbaCollector \<Rightarrow> 'e hba_refresh_env \<Rightarrow> 'r hbaCollector" where
  "hba_refresh collect c env =
    (case collect (hr_world env) (hc_reader c) of
       (reader, res) \<Rightarrow>
         let err = (if \<not> time_Before (hr_finishedAt env) (hba_deadline env) then Some deadline_exceeded
                    else case result_err res of None \<Rightarrow> hr_ctxErr env | Some e \<Rightarrow> Some e);
             c1 = c\<lparr>hc_reader := reader, hc_err := err\<rparr>
         in if err \<noteq> None then c1\<lparr>hc_lastErrorAt := hr_finishedAt env\<rparr>
            else c1\<lparr>hc_lastSuccessfulAt := hr_finishedAt env, hc_lastErrorAt := time_zero,
                    hc_lastSuccessfulSnapshot := (case res of Inr rs \<Rightarrow> Some rs | Inl _ \<Rightarrow> None)\<rparr>)"

text \<open>\<^verbatim>\<open>run\<close>: one refresh at once and one per tick of the timer; nothing when disabled.\<close>

definition hba_run ::
    "('e \<Rightarrow> 'r \<Rightarrow> 'r \<times> HBA list result) \<Rightarrow> 'r hbaCollector \<Rightarrow> 'e hba_refresh_env list \<Rightarrow> 'r hbaCollector" where
  "hba_run collect c envs = (if hc_mode c = hbaModeDisabled then c else run_events (hba_refresh collect) c envs)"

definition hba_stale :: "'r hbaCollector \<Rightarrow> time \<Rightarrow> bool" where
  "hba_stale c now =
    (\<not> time_Before now (time_Add (hc_lastSuccessfulAt c) (dur_add (hc_interval c) hbaCollectionTimeout)))"

definition hba_snapshot :: "'r hbaCollector \<Rightarrow> time \<Rightarrow> HBA list option result" where
  "hba_snapshot c now =
    (if hc_mode c = hbaModeDisabled then Inr (Some [])
     else case hc_err c of
       Some e \<Rightarrow> Inl e
     | None \<Rightarrow>
         if hba_stale c now then Inl (errors_New ''HBA temperature snapshot expired'')
         else Inr (hc_lastSuccessfulSnapshot c))"

definition hba_status :: "'r hbaCollector \<Rightarrow> time \<Rightarrow> hbaCollectorStatus" where
  "hba_status c now =
    \<lparr>hs_interval = hc_interval c, hs_mode = hc_mode c, hs_backend = hc_backend c,
     hs_lastSuccessfulAt = hc_lastSuccessfulAt c, hs_lastErrorAt = hc_lastErrorAt c, hs_err = hc_err c,
     hs_lastSuccessfulSnapshot = hc_lastSuccessfulSnapshot c, hs_stale = hba_stale c now\<rparr>"

subsection \<open>The readers\<close>

record hba_world =
  hw_mpt3 :: mpt3_env
  hw_ctx :: context_answers
  hw_storcli :: storcli_env

fun reader_collect :: "hba_world \<Rightarrow> hba_reader \<Rightarrow> hba_reader \<times> HBA list result" where
  "reader_collect w (MPT3Reader sysfsRoot) = (MPT3Reader sysfsRoot, snd (mpt3_collect sysfsRoot (hw_mpt3 w) (hw_ctx w)))"
| "reader_collect w (StorCLIReader r) =
    (case storcli_collect (hw_storcli w) r of (_, r1, res) \<Rightarrow> (StorCLIReader r1, res))"

subsection \<open>What the collector relies on\<close>

locale hba_backend =
  fixes collect :: "'e \<Rightarrow> 'r \<Rightarrow> 'r \<times> HBA list result"
    and reader_ok :: "'r \<Rightarrow> bool"
    and world_ok :: "'e \<Rightarrow> bool"
  assumes collect_keeps: "reader_ok r \<Longrightarrow> world_ok w \<Longrightarrow> collect w r = (r1, res) \<Longrightarrow> reader_ok r1"
    and collect_readings: "reader_ok r \<Longrightarrow> world_ok w \<Longrightarrow> collect w r = (r1, Inr rs) \<Longrightarrow> readings_ok rs"
begin

text \<open>The last refresh decides: what it saw, when it succeeded, is what is served.\<close>

definition served_by :: "'r hbaCollector \<Rightarrow> 'e hba_refresh_env \<Rightarrow> HBA list \<Rightarrow> bool" where
  "served_by c env rs =
    (hr_finishedAt env < hba_deadline env \<and> hr_ctxErr env = None \<and>
     hc_lastSuccessfulAt c = hr_finishedAt env \<and> hc_lastSuccessfulSnapshot c = Some rs \<and> readings_ok rs)"

lemma refresh_reader: "reader_ok (hc_reader c) \<Longrightarrow> world_ok (hr_world env) \<Longrightarrow> reader_ok (hc_reader (hba_refresh collect c env))"
  using collect_keeps by (auto simp: hba_refresh_def Let_def split: prod.split)

lemma refresh_served:
  assumes "reader_ok (hc_reader c)" "world_ok (hr_world env)" "hc_err (hba_refresh collect c env) = None"
  shows "\<exists>rs. snd (collect (hr_world env) (hc_reader c)) = Inr rs \<and> served_by (hba_refresh collect c env) env rs"
proof -
  obtain r1 res where r: "collect (hr_world env) (hc_reader c) = (r1, res)" by (cases "collect (hr_world env) (hc_reader c)")
  have "\<exists>rs. res = Inr rs" "hr_finishedAt env < hba_deadline env" "hr_ctxErr env = None"
    using assms(3) r by (auto simp: hba_refresh_def Let_def go_simps split: if_splits option.splits sum.splits)
  then show ?thesis using r collect_readings [OF assms(1,2)]
    by (auto simp: hba_refresh_def Let_def served_by_def go_simps)
qed

lemma run_reader:
  "reader_ok (hc_reader c) \<Longrightarrow> list_all (\<lambda>e. world_ok (hr_world e)) envs \<Longrightarrow>
    reader_ok (hc_reader (run_events (hba_refresh collect) c envs))"
  by (induction envs arbitrary: c) (auto intro: refresh_reader)

lemma run_served:
  assumes "reader_ok (hc_reader c)" "list_all (\<lambda>e. world_ok (hr_world e)) envs" "envs \<noteq> []"
    and "hc_err (run_events (hba_refresh collect) c envs) = None"
  shows "\<exists>rs. served_by (run_events (hba_refresh collect) c envs) (last envs) rs"
proof -
  obtain es e where es: "envs = es @ [e]" using assms(3) by (cases envs rule: rev_cases) auto
  have "reader_ok (hc_reader (run_events (hba_refresh collect) c es))" using run_reader assms(1,2) es by simp
  from refresh_served [OF this, of e] show ?thesis using assms(2,4) es by auto
qed

end

interpretation mpt3: hba_backend "\<lambda>w sysfsRoot. (sysfsRoot, snd (mpt3_collect sysfsRoot (fst w) (snd w)))" "\<lambda>_. True"
    "\<lambda>w. fair_order (me_order (fst w))"
proof unfold_locales
  fix r1 :: string and rs sysfsRoot and w :: "mpt3_env \<times> context_answers"
  assume f: "fair_order (me_order (fst w))" "(sysfsRoot, snd (mpt3_collect sysfsRoot (fst w) (snd w))) = (r1, Inr rs)"
  then have "mpt3_collect sysfsRoot (fst w) (snd w) = (fst (mpt3_collect sysfsRoot (fst w) (snd w)), Inr rs)"
    by (metis Pair_inject prod.collapse)
  from mpt3_collect_success [OF this f(1)] show "readings_ok rs" by blast
qed

interpretation storcli: hba_backend "\<lambda>w r. snd (storcli_collect w r)" storcli_inv "\<lambda>w. fair_order (se_order w)"
proof unfold_locales
  fix r w r1 res assume "storcli_inv r" "fair_order (se_order w)" "snd (storcli_collect w r) = (r1, res)"
  then show "storcli_inv r1" using storcli_collection [of r w] by (auto simp: collection_ok_def)
next
  fix r w r1 rs assume "storcli_inv r" "fair_order (se_order w)" "snd (storcli_collect w r) = (r1, Inr rs)"
  then show "readings_ok rs" using storcli_collection [of r w] by (auto simp: collection_ok_def)
qed

fun hba_reader_ok :: "hba_reader \<Rightarrow> bool" where
  "hba_reader_ok (MPT3Reader _) = True"
| "hba_reader_ok (StorCLIReader r) = storcli_inv r"

definition hba_world_ok :: "hba_world \<Rightarrow> bool" where
  "hba_world_ok w = (fair_order (me_order (hw_mpt3 w)) \<and> fair_order (se_order (hw_storcli w)))"

interpretation configured: hba_backend reader_collect hba_reader_ok hba_world_ok
proof unfold_locales
  fix r w r1 res assume a: "hba_reader_ok r" "hba_world_ok w" "reader_collect w r = (r1, res)"
  then show "hba_reader_ok r1"
    using storcli.collect_keeps [of _ "hw_storcli w"] by (cases r) (auto simp: hba_world_ok_def split: prod.splits)
next
  fix r w r1 rs assume a: "hba_reader_ok r" "hba_world_ok w" "reader_collect w r = (r1, Inr rs)"
  then show "readings_ok rs"
    using storcli.collect_readings [of _ "hw_storcli w"] mpt3.collect_readings [where w = "(hw_mpt3 w, hw_ctx w)"]
    by (cases r) (auto simp: hba_world_ok_def split: prod.splits)
qed

subsection \<open>Freshness\<close>

lemma run_constants:
  "hc_interval (run_events (hba_refresh f) c envs) = hc_interval c \<and> hc_mode (run_events (hba_refresh f) c envs) = hc_mode c"
proof (induction envs arbitrary: c)
  case (Cons e envs)
  have "hc_interval (hba_refresh f c e) = hc_interval c" "hc_mode (hba_refresh f c e) = hc_mode c"
    by (auto simp: hba_refresh_def Let_def split: prod.split)
  then show ?case using Cons by simp
qed simp

lemma configured_cases:
  assumes "newConfiguredHBACollector mode backend = Inr c"
  shows "hc_mode c = mode \<and> hba_reader_ok (hc_reader c) \<and> hc_interval c \<in> {15 * second, 30 * second} \<and>
    (mode \<noteq> hbaModeDisabled \<longrightarrow> hc_err c \<noteq> None)"
  using assms by (auto simp: newConfiguredHBACollector_def Let_def storcli_inv_def split: if_splits)

text \<open>
  C10: With HBA collection enabled, temperatures are served only when the most recent refresh
  finished within its fifteen-second budget without being cancelled, and only until the refresh
  interval plus that budget has passed since; what is served is well formed.
\<close>

theorem hba_snapshot_fresh:
  assumes "newConfiguredHBACollector mode backend = Inr c0" "mode \<noteq> hbaModeDisabled"
    and "list_all (\<lambda>e. hba_world_ok (hr_world e)) envs"
    and "hba_snapshot (hba_run reader_collect c0 envs) now = Inr served"
  shows "\<exists>rs. served = Some rs \<and> readings_ok rs \<and> envs \<noteq> [] \<and> hr_ctxErr (last envs) = None \<and>
    hr_finishedAt (last envs) < hr_startedAt (last envs) + 15 * second \<and>
    now < hr_finishedAt (last envs) + hc_interval c0 + 15 * second \<and> hc_interval c0 \<le> 30 * second"
proof -
  let ?c = "run_events (hba_refresh reader_collect) c0 envs"
  have c0: "hc_mode c0 = mode" "hba_reader_ok (hc_reader c0)" "hc_interval c0 \<in> {15 * second, 30 * second}" "hc_err c0 \<noteq> None"
    using configured_cases [OF assms(1)] assms(2) by auto
  have c: "hba_run reader_collect c0 envs = ?c" "hc_mode ?c = mode" "hc_interval ?c = hc_interval c0"
    using c0(1) assms(2) run_constants [of reader_collect c0 envs] by (simp_all add: hba_run_def)
  then have e: "hc_err ?c = None" "\<not> hba_stale ?c now" "served = hc_lastSuccessfulSnapshot ?c"
    using assms(2,4) by (auto simp: hba_snapshot_def split: option.splits if_splits)
  then have ne: "envs \<noteq> []" using c0(4) by auto
  obtain rs where "configured.served_by ?c (last envs) rs"
    using configured.run_served [OF c0(2) assms(3) ne e(1)] by blast
  moreover have "dur_add (hc_interval c0) (15 * second) = hc_interval c0 + 15 * second"
    using c0(3) by (auto simp: dur_add_def intro!: wrap64_id simp: int64_range_def)
  ultimately show ?thesis using e ne c(3) c0(3)
    by (auto simp: configured.served_by_def hba_stale_def hba_deadline_def go_simps)
qed

definition example_world :: hba_world where
  "example_world = \<lparr>hw_mpt3 = example_mpt3, hw_ctx = [], hw_storcli = example_storcli\<rparr>"

definition example_refresh :: "time \<Rightarrow> time \<Rightarrow> hba_world hba_refresh_env" where
  "example_refresh start finish = \<lparr>hr_startedAt = start, hr_finishedAt = finish, hr_ctxErr = None, hr_world = example_world\<rparr>"

lemma example_hba_run:
  assumes "newConfiguredHBACollector hbaModeEnabled hbaBackendStorCLI = Inr c"
  shows "hba_snapshot (hba_run reader_collect c [example_refresh (10 * second) (12 * second)]) (40 * second) = Inr (Some [example_hba])"
proof -
  have c: "hc_reader c = StorCLIReader \<lparr>sc_metadata = None\<rparr>" "hc_mode c = ''enabled''" "hc_interval c = 30 * second"
    using assms by (auto simp: newConfiguredHBACollector_def hbaModeEnabled_def hbaModeDisabled_def hbaBackendStorCLI_def hbaBackendMPT3CTL_def)
  show ?thesis
    using c example_storcli_runs
    by (simp add: hba_run_def hba_snapshot_def hbaModeDisabled_def hba_refresh_def example_refresh_def example_world_def
        hba_deadline_def hba_stale_def go_simps dur_add_def wrap64_def Let_def)
qed

theorem hba_snapshot_fresh_witness:
  "\<exists>c rs. newConfiguredHBACollector hbaModeEnabled hbaBackendStorCLI = Inr c \<and>
    hba_snapshot (hba_run reader_collect c [example_refresh (10 * second) (12 * second)]) (40 * second) = Inr (Some rs) \<and>
    rs = [example_hba] \<and> readings_ok rs \<and> 40 * second < 12 * second + hc_interval c + 15 * second"
proof -
  obtain c where c: "newConfiguredHBACollector hbaModeEnabled hbaBackendStorCLI = Inr c"
    by (simp add: newConfiguredHBACollector_def hbaBackendStorCLI_def hbaBackendMPT3CTL_def)
  have m: "hbaModeEnabled \<noteq> hbaModeDisabled" by (simp add: hbaModeEnabled_def hbaModeDisabled_def)
  have w: "list_all (\<lambda>e. hba_world_ok (hr_world e)) [example_refresh (10 * second) (12 * second)]"
    by (simp add: example_refresh_def example_world_def hba_world_ok_def fair_order_def example_mpt3_def example_storcli_def)
  show ?thesis
    using c example_hba_run [OF c] hba_snapshot_fresh [OF c m w example_hba_run [OF c]]
    by (auto simp: example_refresh_def)
qed

end
