(* ===== verification/Publisher.thy ===== *)
theory Publisher
  imports Sensor_Stream Disk_Collector Hba_Collector
begin

text \<open>
  The guest's publisher (\<^verbatim>\<open>publisher.go\<close>): the state of the service that diagnostics observe, the
  snapshot built from both collectors, the loop that writes one frame per second on a connection and
  the loop that connects again. What a turn of a loop sees is an argument: the clock, the collectors
  at that moment, the outcomes of the calls on the connection and the end of the context.
\<close>

subsection \<open>State of the service\<close>

definition publisherStatusConnected :: string where "publisherStatusConnected = ''connected''"
definition publisherStatusReconnecting :: string where "publisherStatusReconnecting = ''reconnecting''"
abbreviation (input) vsockIOTimeout :: duration where "vsockIOTimeout \<equiv> 3 * second"

record publisherRuntimeStatus =
  pr_status :: string
  pr_hostCID :: "32 word"
  pr_port :: "32 word"
  pr_lastConnectedAt :: time
  pr_lastPublishedAt :: time
  pr_lastError :: string
  pr_lastErrorAt :: time

record serviceState =
  sv_startedAt :: time
  sv_pid :: int
  sv_publisher :: publisherRuntimeStatus

text \<open>The well-known context ID of the host, \<^verbatim>\<open>vsock.Host\<close>.\<close>

definition vsock_Host :: nat where "vsock_Host = 2"

definition newServiceState :: "32 word \<Rightarrow> time \<Rightarrow> int \<Rightarrow> serviceState" where
  "newServiceState port now pid =
    \<lparr>sv_startedAt = now, sv_pid = pid,
     sv_publisher = \<lparr>pr_status = publisherStatusReconnecting, pr_hostCID = of_nat vsock_Host, pr_port = port,
       pr_lastConnectedAt = time_zero, pr_lastPublishedAt = time_zero, pr_lastError = [], pr_lastErrorAt = time_zero\<rparr>\<rparr>"

definition connectedNow :: "time \<Rightarrow> serviceState \<Rightarrow> serviceState" where
  "connectedNow now s =
    s\<lparr>sv_publisher := (sv_publisher s)\<lparr>pr_status := publisherStatusConnected, pr_lastConnectedAt := now,
        pr_lastError := [], pr_lastErrorAt := time_zero\<rparr>\<rparr>"

definition publishedNow :: "time \<Rightarrow> serviceState \<Rightarrow> serviceState" where
  "publishedNow now s = s\<lparr>sv_publisher := (sv_publisher s)\<lparr>pr_lastPublishedAt := now\<rparr>\<rparr>"

definition disconnected :: "go_error \<Rightarrow> time \<Rightarrow> serviceState \<Rightarrow> serviceState" where
  "disconnected err now s =
    s\<lparr>sv_publisher := (sv_publisher s)\<lparr>pr_status := publisherStatusReconnecting, pr_lastError := errorText (Some err),
        pr_lastErrorAt := now\<rparr>\<rparr>"

text \<open>\<^verbatim>\<open>status\<close> hands out a copy: the record itself.\<close>

definition service_status :: "serviceState \<Rightarrow> serviceState" where
  "service_status s = \<lparr>sv_startedAt = sv_startedAt s, sv_pid = sv_pid s, sv_publisher = sv_publisher s\<rparr>"

subsection \<open>Snapshots\<close>

definition collectorSnapshot :: "diskCollector \<Rightarrow> time \<Rightarrow> 'r hbaCollector \<Rightarrow> time \<Rightarrow> Response" where
  "collectorSnapshot disks diskNow hbas hbaNow =
    (let diskRes = disk_snapshot disks diskNow;
         hbaRes = hba_snapshot hbas hbaNow
     in \<lparr>resp_Protocol = ProtocolVersion,
         resp_Disks = (case diskRes of Inr readings \<Rightarrow> readings | Inl _ \<Rightarrow> None),
         resp_HBAs = (case hbaRes of Inr readings \<Rightarrow> readings | Inl _ \<Rightarrow> None),
         resp_HBAError = (case hbaRes of Inr _ \<Rightarrow> [] | Inl err \<Rightarrow> Error err),
         resp_Error = (case diskRes of Inr _ \<Rightarrow> [] | Inl err \<Rightarrow> Error err)\<rparr>)"

text \<open>\<^verbatim>\<open>waitFor\<close>: false when the context ends before the delay has passed.\<close>

definition waitFor :: "bool \<Rightarrow> bool" where
  "waitFor ctx_done_first = (\<not> ctx_done_first)"

subsection \<open>Publishing on a connection\<close>

record 'r publish_turn =
  pt_ctxErr :: "go_error option"
  pt_deadlineErr :: "go_error option"
  pt_disks :: diskCollector
  pt_diskNow :: time
  pt_hbas :: "'r hbaCollector"
  pt_hbaNow :: time
  pt_write :: "string \<Rightarrow> nat \<times> go_error option"
  pt_now :: time
  pt_interrupted :: bool

definition turn_response :: "'r publish_turn \<Rightarrow> Response" where
  "turn_response t = collectorSnapshot (pt_disks t) (pt_diskNow t) (pt_hbas t) (pt_hbaNow t)"

text \<open>
  The publisher: the service's state, its log, the bytes the current connection has accepted and
  those of the connections before.
\<close>

record publisher =
  pb_service :: serviceState
  pb_log :: stickyErrorLog
  pb_lines :: "string list"
  pb_sent :: string
  pb_closed :: "string list"

definition pb_update :: "go_error option \<Rightarrow> publisher \<Rightarrow> publisher" where
  "pb_update err p = (case sticky_update (pb_log p) err of (l, lines) \<Rightarrow> p\<lparr>pb_log := l, pb_lines := pb_lines p @ lines\<rparr>)"

definition accepted_bytes :: "(string \<Rightarrow> nat \<times> go_error option) \<Rightarrow> Response \<Rightarrow> string" where
  "accepted_bytes write response =
    (case frame_data response of Inl _ \<Rightarrow> [] | Inr data \<Rightarrow> take (fst (write data)) data)"

datatype publish_end = Publishing | Ended "go_error option"

fun publishConnection :: "'r publish_turn list \<Rightarrow> publisher \<Rightarrow> publish_end \<times> publisher" where
  "publishConnection [] p = (Publishing, p)"
| "publishConnection (t # ts) p =
    (if pt_ctxErr t \<noteq> None then (Ended None, p)
     else
       let (err, p1) = (case pt_deadlineErr t of
             Some e \<Rightarrow> (Some e, p)
           | None \<Rightarrow> (WriteFrame (pt_write t) (turn_response t),
                      p\<lparr>pb_sent := pb_sent p @ accepted_bytes (pt_write t) (turn_response t)\<rparr>))
       in case err of
            Some e \<Rightarrow> (Ended (Some e), pb_update (Some e) (p1\<lparr>pb_service := disconnected e (pt_now t) (pb_service p1)\<rparr>))
          | None \<Rightarrow>
              let p2 = pb_update None p1;
                  p3 = p2\<lparr>pb_service := publishedNow (pt_now t) (pb_service p2)\<rparr>
              in if waitFor (pt_interrupted t) then publishConnection ts p3 else (Ended None, p3))"

subsection \<open>Connecting again\<close>

text \<open>\<^verbatim>\<open>dialVSOCK\<close>: the outcomes of creating the socket and of connecting it.\<close>

definition dialVSOCK :: "go_error option \<Rightarrow> go_error option \<Rightarrow> go_error option" where
  "dialVSOCK socketErr connectErr = (case socketErr of Some e \<Rightarrow> Some e | None \<Rightarrow> connectErr)"

record 'r dial_turn =
  dl_ctxErr :: "go_error option"
  dl_socketErr :: "go_error option"
  dl_connectErr :: "go_error option"
  dl_now :: time
  dl_turns :: "'r publish_turn list"
  dl_ctxErrAfter :: "go_error option"
  dl_interrupted :: bool

fun publishSnapshots :: "'r dial_turn list \<Rightarrow> publisher \<Rightarrow> publish_end \<times> publisher" where
  "publishSnapshots [] p = (Publishing, p)"
| "publishSnapshots (d # ds) p =
    (if dl_ctxErr d \<noteq> None then (Ended None, p)
     else case dialVSOCK (dl_socketErr d) (dl_connectErr d) of
       Some err \<Rightarrow>
         let p1 = pb_update (Some err) (p\<lparr>pb_service := disconnected err (dl_now d) (pb_service p)\<rparr>)
         in if waitFor (dl_interrupted d) then publishSnapshots ds p1 else (Ended None, p1)
     | None \<Rightarrow>
         (case publishConnection (dl_turns d) (p\<lparr>pb_service := connectedNow (dl_now d) (pb_service p), pb_sent := []\<rparr>) of
            (Publishing, p2) \<Rightarrow> (Publishing, p2)
          | (Ended err, p2) \<Rightarrow>
              let p3 = p2\<lparr>pb_closed := pb_closed p2 @ [pb_sent p2], pb_sent := []\<rparr>
              in if err \<noteq> None \<and> dl_ctxErrAfter d = None \<and> \<not> waitFor (dl_interrupted d) then (Ended None, p3)
                 else publishSnapshots ds p3))"

definition publisher_start :: "serviceState \<Rightarrow> publisher" where
  "publisher_start s = \<lparr>pb_service = s, pb_log = \<lparr>sticky_context = ''VSOCK publishing'', sticky_last = []\<rparr>, pb_lines = [],
     pb_sent = [], pb_closed = []\<rparr>"

subsection \<open>What a connection carries\<close>

lemma WriteFrame_ok: "WriteFrame w r = None \<Longrightarrow> frame_data r = Inr (accepted_bytes w r)"
  by (auto simp: WriteFrame_def accepted_bytes_def split: sum.splits prod.splits option.splits if_splits)

lemma WriteFrame_cut:
  "accepted_bytes w r = [] \<or> (\<exists>missing. frame_data r = Inr (accepted_bytes w r @ missing))"
  by (cases "frame_data r") (auto simp: accepted_bytes_def, metis append_take_drop_id)

lemma pb_update_same [simp]:
  "pb_sent (pb_update e p) = pb_sent p" "pb_closed (pb_update e p) = pb_closed p" "pb_service (pb_update e p) = pb_service p"
  by (simp_all add: pb_update_def split: prod.split)

text \<open>Bytes that are the frames of the first snapshots of some turns, the last one perhaps cut.\<close>

definition streamed :: "'r publish_turn list \<Rightarrow> string \<Rightarrow> bool" where
  "streamed ts bytes =
    (\<exists>n frames missing. list_all2 (\<lambda>t f. frame_data (turn_response t) = Inr f) (take n ts) frames \<and>
       concat frames = bytes @ missing)"

lemma streamed_Nil [simp]: "streamed ts []"
  unfolding streamed_def by (intro exI [of _ 0] exI [of _ "[]"]) simp

lemma streamed_Cons:
  assumes "frame_data (turn_response t) = Inr f" "streamed ts bytes"
  shows "streamed (t # ts) (f @ bytes)"
proof -
  obtain n frames missing where "list_all2 (\<lambda>t f. frame_data (turn_response t) = Inr f) (take n ts) frames" "concat frames = bytes @ missing"
    using assms(2) by (auto simp: streamed_def)
  then show ?thesis unfolding streamed_def using assms(1) by (intro exI [of _ "Suc n"] exI [of _ "f # frames"]) auto
qed

lemma streamed_cut:
  assumes "frame_data (turn_response t) = Inr (bytes @ missing)"
  shows "streamed (t # ts) bytes"
  unfolding streamed_def using assms by (intro exI [of _ 1] exI [of _ "[bytes @ missing]"] exI [of _ missing]) simp

lemma publishConnection_streams:
  "\<exists>bytes. pb_sent (snd (publishConnection ts p)) = pb_sent p @ bytes \<and> streamed ts bytes \<and>
    pb_closed (snd (publishConnection ts p)) = pb_closed p"
proof (induction ts arbitrary: p)
  case (Cons t ts)
  show ?case
  proof (cases "pt_ctxErr t = None \<and> pt_deadlineErr t = None")
    case False
    then show ?thesis by (auto intro!: exI [of _ "[]"])
  next
    case True
    let ?p = "p\<lparr>pb_sent := pb_sent p @ accepted_bytes (pt_write t) (turn_response t)\<rparr>"
    let ?q = "(pb_update None ?p)\<lparr>pb_service := publishedNow (pt_now t) (pb_service (pb_update None ?p))\<rparr>"
    show ?thesis
    proof (cases "WriteFrame (pt_write t) (turn_response t)")
      case (Some e)
      then show ?thesis
        using True WriteFrame_cut [of "pt_write t" "turn_response t"] streamed_cut
        by (intro exI [of _ "accepted_bytes (pt_write t) (turn_response t)"]) auto
    next
      case None
      note f = WriteFrame_ok [OF None]
      show ?thesis
      proof (cases "waitFor (pt_interrupted t)")
        case False
        then show ?thesis
          using True None streamed_Cons [OF f streamed_Nil, of ts]
          by (intro exI [of _ "accepted_bytes (pt_write t) (turn_response t)"]) (simp add: Let_def)
      next
        case wait: True
        obtain bytes where b: "pb_sent (snd (publishConnection ts ?q)) = pb_sent ?q @ bytes" "streamed ts bytes"
          "pb_closed (snd (publishConnection ts ?q)) = pb_closed ?q" using Cons.IH by blast
        have step: "publishConnection (t # ts) p = publishConnection ts ?q" using True None wait by (simp add: Let_def)
        show ?thesis
          unfolding step using b streamed_Cons [OF f b(2)]
          by (intro exI [of _ "accepted_bytes (pt_write t) (turn_response t) @ bytes"]) simp
      qed
    qed
  qed
qed (auto intro: exI [of _ "[]"])

definition guest_streams :: "publisher \<Rightarrow> string list" where
  "guest_streams p = pb_closed p @ [pb_sent p]"

lemma publishSnapshots_streams:
  "\<forall>b \<in> set (guest_streams p). b = [] \<or> (\<exists>d \<in> D. streamed (dl_turns d) b) \<Longrightarrow> set ds \<subseteq> D \<Longrightarrow> pb_sent p = [] \<Longrightarrow>
    \<forall>b \<in> set (guest_streams (snd (publishSnapshots ds p))). b = [] \<or> (\<exists>d \<in> D. streamed (dl_turns d) b)"
proof (induction ds arbitrary: p)
  case (Cons d ds)
  have skip: "\<forall>b \<in> set (guest_streams (snd (publishSnapshots ds p1))). b = [] \<or> (\<exists>d \<in> D. streamed (dl_turns d) b)"
    if "pb_closed p1 = pb_closed p" "pb_sent p1 = []" for p1
    using Cons.IH [of p1] Cons.prems that by (simp add: guest_streams_def)
  show ?case
  proof (cases "dl_ctxErr d")
    case (Some e)
    then show ?thesis using Cons.prems by simp
  next
    case ctx: None
    show ?thesis
    proof (cases "dialVSOCK (dl_socketErr d) (dl_connectErr d)")
      case (Some err)
      let ?p1 = "pb_update (Some err) (p\<lparr>pb_service := disconnected err (dl_now d) (pb_service p)\<rparr>)"
      have "guest_streams ?p1 = guest_streams p" by (simp add: guest_streams_def)
      then show ?thesis using Some ctx skip [of ?p1] Cons.prems by (simp add: Let_def)
    next
      case None
      let ?p = "p\<lparr>pb_service := connectedNow (dl_now d) (pb_service p), pb_sent := []\<rparr>"
      obtain r p2 where r: "publishConnection (dl_turns d) ?p = (r, p2)" by (cases "publishConnection (dl_turns d) ?p")
      have p2: "streamed (dl_turns d) (pb_sent p2)" "pb_closed p2 = pb_closed p"
        using publishConnection_streams [of "dl_turns d" ?p] r by auto
      let ?q = "p2\<lparr>pb_closed := pb_closed p2 @ [pb_sent p2], pb_sent := []\<rparr>"
      have q: "\<forall>b \<in> set (guest_streams ?q). b = [] \<or> (\<exists>d \<in> D. streamed (dl_turns d) b)"
        using p2 Cons.prems by (auto simp: guest_streams_def)
      show ?thesis
      proof (cases r)
        case Publishing
        then show ?thesis using ctx None r p2 Cons.prems by (auto simp: guest_streams_def)
      next
        case (Ended err)
        then show ?thesis using ctx None r q Cons.IH [OF q] Cons.prems by (auto simp: Let_def)
      qed
    qed
  qed
qed simp

text \<open>Whatever part of a connection's bytes arrives, the host reads the first snapshots of its turns.\<close>

lemma turn_protocol [simp]: "resp_Protocol (turn_response t) = ProtocolVersion"
  by (simp add: turn_response_def collectorSnapshot_def Let_def)

lemma streamed_prefix: "streamed ts (a @ b) \<Longrightarrow> streamed ts a"
  unfolding streamed_def by (metis append_assoc)

lemma streamed_read:
  assumes "streamed ts bytes" "list_all (\<lambda>t. response_plain (turn_response t)) ts"
  shows "\<exists>k. fst (read_stream (NewFrameReader bytes e)) = map (clean_response \<circ> turn_response) (take k ts)"
proof -
  obtain n frames missing where s: "list_all2 (\<lambda>t f. frame_data (turn_response t) = Inr f) (take n ts) frames"
    "concat frames = bytes @ missing" using assms(1) by (auto simp: streamed_def)
  have "list_all2 framed (map turn_response (take n ts)) frames"
    unfolding list_all2_conv_all_nth
  proof (intro conjI allI impI)
    fix i assume i: "i < length (map turn_response (take n ts))"
    then have "take n ts ! i \<in> set ts" by (metis in_set_takeD length_map nth_mem)
    then show "framed (map turn_response (take n ts) ! i) (frames ! i)"
      using i s(1) assms(2) by (auto simp: framed_def list_all_iff list_all2_conv_all_nth)
  qed (use list_all2_lengthD [OF s(1)] in simp)
  from read_prefix [OF this s(2), of e] obtain k where
    "fst (read_stream (NewFrameReader bytes e)) = map clean_response (take k (map turn_response (take n ts)))"
    by (auto simp: NewFrameReader_def)
  then show ?thesis by (intro exI [of _ "min k n"]) (simp add: take_map)
qed

subsection \<open>The reported state\<close>

text \<open>The reported state names an error exactly while the publisher is without a connection it lost or was refused.\<close>

definition service_inv :: "serviceState \<Rightarrow> bool" where
  "service_inv s =
    (let p = sv_publisher s in
     pr_status p \<in> {publisherStatusConnected, publisherStatusReconnecting} \<and>
     (pr_status p = publisherStatusConnected \<longrightarrow> pr_lastError p = [] \<and> pr_lastErrorAt p = time_zero))"

lemma service_inv_ops [simp]:
  "service_inv (newServiceState port now pid)" "service_inv (connectedNow now s)"
  "service_inv s \<Longrightarrow> service_inv (publishedNow now s)" "service_inv (disconnected e now s)"
  by (simp_all add: service_inv_def newServiceState_def connectedNow_def publishedNow_def disconnected_def
      publisherStatusConnected_def publisherStatusReconnecting_def Let_def)

lemma publishConnection_service: "service_inv (pb_service p) \<Longrightarrow> service_inv (pb_service (snd (publishConnection ts p)))"
  by (induction ts p rule: publishConnection.induct) (auto simp: Let_def split: option.split)

lemma publishSnapshots_service: "service_inv (pb_service p) \<Longrightarrow> service_inv (pb_service (snd (publishSnapshots ds p)))"
proof (induction ds arbitrary: p)
  case (Cons d ds)
  let ?p = "p\<lparr>pb_service := connectedNow (dl_now d) (pb_service p), pb_sent := []\<rparr>"
  have c: "service_inv (pb_service (snd (publishConnection (dl_turns d) ?p)))" by (rule publishConnection_service) simp
  show ?case
  proof (cases "publishConnection (dl_turns d) ?p")
    case (Pair r p2)
    then have p2: "service_inv (pb_service p2)" using c by simp
    show ?thesis using Cons Pair p2 by (auto simp: Let_def split: option.split publish_end.split)
  qed
qed simp

end
