(* ===== verification/Hwmon_Topology.thy ===== *)
theory Hwmon_Topology
  imports Sensors_Model Json
begin

text \<open>
  The translation of a snapshot into hwmon samples on the host (\<^verbatim>\<open>hwmon_topology.go\<close>): one
  sample per disk, one per group of at least two disks of a kind, and one or two per host bus
  adapter; the labels these samples carry; and the comparison that decides whether the kernel
  has to be reconciled. The lemmas show that every label built here is accepted by the later
  validation and is well-formed text, and that a group shows the maximum of its members.
\<close>

subsection \<open>Data\<close>

record hwmonSensor =
  hs_id :: string
  hs_label :: string

record hwmonSample =
  smp_sensor :: hwmonSensor
  smp_temperature :: float64
  smp_skipRefresh :: bool

record hwmonInventory =
  inv_sensors :: "hwmonSensor list option"
  inv_needsReconcile :: bool

record hwmonDiskGroup =
  grp_kind :: DiskKind
  grp_label :: string

definition hwmonFailsafeTemp :: float64 where "hwmonFailsafeTemp = Fin 100"

definition minHWMonGroupSize :: nat where "minHWMonGroupSize = 2"

definition maxHWMonLabelSize :: nat where "maxHWMonLabelSize = 95"

definition hwmonDiskGroups :: "hwmonDiskGroup list" where
  "hwmonDiskGroups =
    [\<lparr>grp_kind = DiskKindHDD, grp_label = ''HDD maximum''\<rparr>,
     \<lparr>grp_kind = DiskKindSATASSD, grp_label = ''SATA SSD maximum''\<rparr>,
     \<lparr>grp_kind = DiskKindNVMe, grp_label = ''NVMe SSD maximum''\<rparr>]"

subsection \<open>Labels\<close>

definition normalizeHWMonLabel :: "string \<Rightarrow> string" where
  "normalizeHWMonLabel label = TrimSpace (strings_Map (\<lambda>r. if IsControl r then 32 else r) label)"

text \<open>The loop that moves the limit back to the start of a character.\<close>

fun label_limit :: "string \<Rightarrow> nat \<Rightarrow> nat" where
  "label_limit label 0 = 0"
| "label_limit label (Suc n) = (if RuneStart (label ! Suc n) then Suc n else label_limit label n)"

definition sanitizeHWMonLabel :: "string \<Rightarrow> string \<Rightarrow> string" where
  "sanitizeHWMonLabel label0 fallback =
    (let label1 = normalizeHWMonLabel label0;
         label = (if label1 = [] then normalizeHWMonLabel fallback else label1)
     in if length label \<le> maxHWMonLabelSize then label
        else take (label_limit label maxHWMonLabelSize) label)"

subsection \<open>Samples\<close>

text \<open>The loop over the members of a group: how many, their maximum, and whether one is unavailable.\<close>

fun group_scan :: "DiskKind \<Rightarrow> nat \<Rightarrow> float64 \<Rightarrow> bool \<Rightarrow> Disk list \<Rightarrow> nat \<times> float64 \<times> bool" where
  "group_scan k cnt maximum unavailable [] = (cnt, maximum, unavailable)"
| "group_scan k cnt maximum unavailable (d # ds) =
    (if Kind d \<noteq> k then group_scan k cnt maximum unavailable ds
     else group_scan k (cnt + 1)
       (if cnt = 0 \<or> f64_less maximum (disk_Temp d) then disk_Temp d else maximum)
       (unavailable \<or> disk_Unavailable d) ds)"

definition group_samples :: "Disk list \<Rightarrow> hwmonDiskGroup \<Rightarrow> hwmonSample list" where
  "group_samples disks g =
    (case group_scan (grp_kind g) 0 (Fin 0) False disks of (cnt, maximum, unavailable) \<Rightarrow>
      if cnt < minHWMonGroupSize then []
      else [\<lparr>smp_sensor = \<lparr>hs_id = ''disk:group:'' @ kind_text (grp_kind g), hs_label = grp_label g\<rparr>,
             smp_temperature = (if unavailable then hwmonFailsafeTemp else maximum),
             smp_skipRefresh = unavailable\<rparr>])"

definition disk_sample :: "Disk \<Rightarrow> hwmonSample" where
  "disk_sample d =
    (let sid = ''disk:'' @ disk_ID d in
     \<lparr>smp_sensor = \<lparr>hs_id = sid, hs_label = sanitizeHWMonLabel (disk_Name d) sid\<rparr>,
      smp_temperature = (if disk_Unavailable d then hwmonFailsafeTemp else disk_Temp d),
      smp_skipRefresh = disk_Unavailable d\<rparr>)"

definition makeHBASample :: "HBA \<Rightarrow> string \<Rightarrow> string \<Rightarrow> float64 \<Rightarrow> hwmonSample" where
  "makeHBASample h sid probe temperature =
    (let label1 = (if hba_Model h \<noteq> [] then hba_Model h else hba_ID h);
         label2 = (if probe \<noteq> [] then label1 @ '' '' @ probe else label1);
         label = (if hba_PCIAddress h \<noteq> [] then label2 @ '' ('' @ hba_PCIAddress h @ '')'' else label2)
     in \<lparr>smp_sensor = \<lparr>hs_id = sid, hs_label = sanitizeHWMonLabel label sid\<rparr>,
         smp_temperature = temperature, smp_skipRefresh = False\<rparr>)"

definition hba_samples :: "HBA \<Rightarrow> hwmonSample list" where
  "hba_samples h =
    (if hba_IOCTemp h = None \<and> hba_BoardTemp h = None
     then [makeHBASample h (''hba:'' @ hba_ID h) [] (hba_Temp h)]
     else (case hba_IOCTemp h of None \<Rightarrow> [] | Some t \<Rightarrow> [makeHBASample h (''hba:'' @ hba_ID h) ''IOC'' t]) @
          (case hba_BoardTemp h of None \<Rightarrow> []
           | Some t \<Rightarrow> [makeHBASample h (''hba:board:'' @ hba_ID h) ''Board'' t]))"

definition makeHWMonSamples :: "Response \<Rightarrow> hwmonSample list \<times> hwmonSample list" where
  "makeHWMonSamples state =
    (let disks = elements (resp_Disks state) in
     (concat (map (group_samples disks) hwmonDiskGroups) @ map disk_sample disks,
      concat (map hba_samples (elements (resp_HBAs state)))))"

subsection \<open>Configuration\<close>

text \<open>The map from identifiers to labels: the last sample of an identifier wins.\<close>

fun current_labels :: "hwmonSample list \<Rightarrow> (string \<rightharpoonup> string) \<Rightarrow> (string \<rightharpoonup> string)" where
  "current_labels [] m = m"
| "current_labels (s # ss) m = current_labels ss (m(hs_id (smp_sensor s) \<mapsto> hs_label (smp_sensor s)))"

definition sameHWMonConfiguration :: "hwmonSensor list \<Rightarrow> hwmonSample list \<Rightarrow> bool" where
  "sameHWMonConfiguration expected current =
    (length expected = length current \<and>
     list_all (\<lambda>s. current_labels current Map.empty (hs_id s) = Some (hs_label s)) expected)"

definition sensorsFromSamples :: "hwmonSample list \<Rightarrow> hwmonSensor list" where
  "sensorsFromSamples samples = map smp_sensor samples"

subsection \<open>Labels are valid\<close>

text \<open>What the kernel interface and the validation ask of a label.\<close>

definition label_ok :: "string \<Rightarrow> bool" where
  "label_ok l = (l \<noteq> [] \<and> length l \<le> maxHWMonLabelSize \<and> well_text l \<and>
    list_all (\<lambda>c. 0x20 \<le> byte c \<and> byte c \<noteq> 0x7F) l \<and> byte (hd l) \<noteq> 0x20)"

lemma control_space: "scalar r \<Longrightarrow> scalar (if IsControl r then 32 else r)"
  by (simp add: scalar_def)

definition shown_runes :: "string \<Rightarrow> nat list" where
  "shown_runes s = trim_both IsSpace (map (\<lambda>r. if IsControl r then 32 else r) (runes s))"

lemma normalize_runes: "normalizeHWMonLabel s = encode_runes (shown_runes s)"
proof -
  have "\<forall>r \<in> set (map (\<lambda>r. if IsControl r then 32 else r) (runes s)). scalar r"
    using runes_scalar by (auto simp: scalar_def)
  then show ?thesis
    by (simp add: normalizeHWMonLabel_def strings_Map_def TrimSpace_encode_runes shown_runes_def)
qed

lemma shown_runes_ok: "r \<in> set (shown_runes s) \<Longrightarrow> scalar r \<and> \<not> IsControl r"
proof -
  assume "r \<in> set (shown_runes s)"
  then have "r \<in> set (map (\<lambda>r. if IsControl r then 32 else r) (runes s))"
    unfolding shown_runes_def by (rule subsetD [OF trim_both_sub])
  then obtain q where q: "q \<in> set (runes s)" and r: "r = (if IsControl q then 32 else q)" by auto
  have "scalar q" using q by (rule runes_scalar)
  then show ?thesis using r by (auto simp: IsControl_def scalar_def)
qed

lemma hd_dropWhile_not: "dropWhile p xs \<noteq> [] \<Longrightarrow> \<not> p (hd (dropWhile p xs))"
  by (induction xs) auto

lemma hd_trim_both: "trim_both p xs \<noteq> [] \<Longrightarrow> \<not> p (hd (trim_both p xs))"
proof -
  assume ne: "trim_both p xs \<noteq> []"
  define ys where "ys = dropWhile p xs"
  have "ys = rev (takeWhile p (rev ys) @ dropWhile p (rev ys))" by simp
  then have "ys = rev (dropWhile p (rev ys)) @ rev (takeWhile p (rev ys))" by (simp only: rev_append)
  moreover have t: "trim_both p xs = rev (dropWhile p (rev ys))" by (simp add: trim_both_def ys_def)
  ultimately have "hd (trim_both p xs) = hd ys" using ne by (metis hd_append2)
  moreover have "ys \<noteq> []" using ne t by auto
  ultimately show ?thesis using hd_dropWhile_not [of p xs] by (simp add: ys_def)
qed

lemma hd_shown: "shown_runes s \<noteq> [] \<Longrightarrow> \<not> IsSpace (hd (shown_runes s))"
  unfolding shown_runes_def by (rule hd_trim_both)

text \<open>Only the first byte of a character starts a character.\<close>

lemma encode_rune_tail: "0 < i \<Longrightarrow> i < length (encode_rune r) \<Longrightarrow> \<not> RuneStart (encode_rune r ! i)"
proof -
  assume "0 < i" "i < length (encode_rune r)"
  moreover have "\<And>x. RuneStart (chr (0x80 + x mod 64)) = False" 
  proof -
    fix x :: nat
    have "x mod 64 < 64" by simp
    then have "(0x80 + x mod 64) mod 256 = 0x80 + x mod 64" "(0x80 + x mod 64) div 64 = 2" by simp_all
    then show "RuneStart (chr (0x80 + x mod 64)) = False" by (simp add: RuneStart_def)
  qed
  ultimately show ?thesis
    by (auto simp: encode_rune_def Let_def less_Suc_eq nth_Cons' split: if_splits) (simp_all add: RuneStart_def)
qed

lemma RuneStart_chr: "n < 256 \<Longrightarrow> n < 0x80 \<or> 0xC0 \<le> n \<Longrightarrow> RuneStart (chr n)"
proof -
  assume n: "n < 256" "n < 0x80 \<or> 0xC0 \<le> n"
  then have "n div 64 < 2 \<or> 3 \<le> n div 64" by (auto simp: div_less_iff_less_mult)
  then show ?thesis using n(1) by (auto simp: RuneStart_def)
qed

lemma encode_rune_head: "RuneStart (hd (encode_rune r))"
proof -
  define q where "q = (if scalar r then r else RuneError)"
  have "q < 0x110000" by (auto simp: q_def scalar_def)
  then have "q div 262144 < 5" by (simp add: div_less_iff_less_mult)
  moreover have "q < 0x800 \<Longrightarrow> q div 64 < 0x20" "q < 0x10000 \<Longrightarrow> q div 4096 < 0x10"
    by (auto simp: div_less_iff_less_mult)
  ultimately show ?thesis
    unfolding encode_rune_def Let_def q_def [symmetric] by (simp add: RuneStart_chr)
qed

lemma encode_rune_length: "length (encode_rune r) \<le> 4"
  by (simp add: encode_rune_def Let_def)

lemma take_at_start:
  "n < length (encode_runes rs) \<Longrightarrow> RuneStart (encode_runes rs ! n) \<Longrightarrow>
    \<exists>k. take n (encode_runes rs) = encode_runes (take k rs)"
proof (induction rs arbitrary: n)
  case (Cons r rs)
  show ?case
  proof (cases "n < length (encode_rune r)")
    case True
    then have "RuneStart (encode_rune r ! n)" using Cons.prems(2) by (simp add: nth_append)
    then have "n = 0" using encode_rune_tail True by blast
    then show ?thesis by (intro exI [of _ 0]) simp
  next
    case False
    then have "n - length (encode_rune r) < length (encode_runes rs)"
      using Cons.prems(1) by simp
    then obtain k where "take (n - length (encode_rune r)) (encode_runes rs) = encode_runes (take k rs)"
      using Cons.IH [of "n - length (encode_rune r)"] Cons.prems False by (auto simp: nth_append)
    then show ?thesis using False by (intro exI [of _ "Suc k"]) simp
  qed
qed simp

lemma start_within:
  "n < length (encode_runes rs) \<Longrightarrow> \<exists>m \<le> n. n \<le> m + 3 \<and> RuneStart (encode_runes rs ! m)"
proof (induction rs arbitrary: n)
  case (Cons r rs)
  show ?case
  proof (cases "n < length (encode_rune r)")
    case True
    have "RuneStart (encode_rune r ! 0)"
      using encode_rune_head [of r] by (simp add: hd_conv_nth)
    then show ?thesis using True encode_rune_length [of r]
      by (intro exI [of _ 0]) (simp add: nth_append)
  next
    case False
    then have "n - length (encode_rune r) < length (encode_runes rs)"
      using Cons.prems(1) by simp
    then obtain m where "m \<le> n - length (encode_rune r)" "n - length (encode_rune r) \<le> m + 3"
        "RuneStart (encode_runes rs ! m)"
      using Cons.IH [of "n - length (encode_rune r)"] Cons.prems by auto
    then have "length (encode_rune r) + m \<le> n \<and> n \<le> length (encode_rune r) + m + 3" using False by arith
    then show ?thesis using \<open>RuneStart (encode_runes rs ! m)\<close>
      by (intro exI [of _ "length (encode_rune r) + m"]) (simp add: nth_append)
  qed
qed simp

lemma label_limit_start: "label_limit s n \<le> n \<and> (0 < label_limit s n \<longrightarrow> RuneStart (s ! label_limit s n))"
  by (induction n) auto

lemma label_limit_ge: "0 < m \<Longrightarrow> m \<le> n \<Longrightarrow> RuneStart (s ! m) \<Longrightarrow> m \<le> label_limit s n"
  by (induction n) (auto simp: le_Suc_eq)

lemma encode_runes_visible:
  assumes "\<forall>r \<in> set rs. scalar r \<and> \<not> IsControl r" and "rs \<noteq> []" and "\<not> IsSpace (hd rs)"
    and "length (encode_runes rs) \<le> maxHWMonLabelSize"
  shows "label_ok (encode_runes rs)"
proof -
  have "\<And>r c. r \<in> set rs \<Longrightarrow> c \<in> set (encode_rune r) \<Longrightarrow> 0x20 \<le> byte c \<and> byte c \<noteq> 0x7F"
  proof -
    fix r c assume r: "r \<in> set rs" and c: "c \<in> set (encode_rune r)"
    show "0x20 \<le> byte c \<and> byte c \<noteq> 0x7F"
    proof (cases "r < 0x80")
      case True
      then show ?thesis using assms(1) r c by (auto simp: encode_rune_ascii IsControl_def)
    next
      case False
      then show ?thesis using encode_rune_high [of r c] c by simp
    qed
  qed
  then have "list_all (\<lambda>c. 0x20 \<le> byte c \<and> byte c \<noteq> 0x7F) (encode_runes rs)"
    by (auto simp: list_all_iff encode_runes_def)
  moreover obtain r qs where rs: "rs = r # qs" using assms(2) by (cases rs) auto
  have "byte (hd (encode_runes rs)) \<noteq> 0x20"
  proof (cases "r < 0x80")
    case True
    then show ?thesis using assms(3) rs by (auto simp: encode_rune_ascii IsSpace_def)
  next
    case False
    then show ?thesis using encode_rune_high [of r "hd (encode_rune r)"] rs by simp
  qed
  moreover have "well_text (encode_runes rs)" using assms(1) by (auto simp: well_text_iff)
  ultimately show ?thesis using assms rs by (simp add: label_ok_def)
qed

lemma sanitize_ok:
  assumes "shown_runes fallback \<noteq> []"
  shows "label_ok (sanitizeHWMonLabel label fallback)"
proof -
  define rs where "rs = (if shown_runes label = [] then shown_runes fallback else shown_runes label)"
  have rs: "\<forall>r \<in> set rs. scalar r \<and> \<not> IsControl r" "rs \<noteq> []" "\<not> IsSpace (hd rs)"
    using assms shown_runes_ok hd_shown by (auto simp: rs_def)
  let ?l = "encode_runes rs"
  have e: "encode_runes (shown_runes label) = [] \<longleftrightarrow> shown_runes label = []"
    by (cases "shown_runes label") simp_all
  have san: "sanitizeHWMonLabel label fallback =
      (if length ?l \<le> maxHWMonLabelSize then ?l else take (label_limit ?l maxHWMonLabelSize) ?l)"
    by (simp add: sanitizeHWMonLabel_def normalize_runes Let_def rs_def e)
  show ?thesis
  proof (cases "length ?l \<le> maxHWMonLabelSize")
    case True
    with rs show ?thesis by (simp add: san encode_runes_visible)
  next
    case False
    define n where "n = label_limit ?l maxHWMonLabelSize"
    obtain m where m: "m \<le> maxHWMonLabelSize" "maxHWMonLabelSize \<le> m + 3" "RuneStart (?l ! m)"
      using start_within [of maxHWMonLabelSize rs] False by auto
    have n: "0 < n" "n \<le> maxHWMonLabelSize" "RuneStart (?l ! n)"
      using label_limit_ge [OF _ m(1,3)] m(2) label_limit_start [of ?l maxHWMonLabelSize]
      by (auto simp: n_def maxHWMonLabelSize_def)
    obtain k where k: "take n ?l = encode_runes (take k rs)"
      using take_at_start [of n rs] n False by auto
    have "take n ?l \<noteq> []" using n(1) False by auto
    then have ne: "take k rs \<noteq> []" using k by (metis encode_runes_simps(1))
    moreover have "hd (take k rs) = hd rs" using ne by (cases k; cases rs) auto
    ultimately have "label_ok (encode_runes (take k rs))"
      using rs n(2) k by (intro encode_runes_visible) (auto dest: in_set_takeD simp flip: k)
    then show ?thesis using False k by (simp add: san n_def)
  qed
qed

lemma shown_prefixed: "byte c < 0x80 \<Longrightarrow> \<not> IsControl (byte c) \<Longrightarrow> \<not> IsSpace (byte c) \<Longrightarrow> shown_runes (c # s) \<noteq> []"
  unfolding shown_runes_def runes_def by (rule trim_both_hd) (simp_all add: Let_def)

lemma shown_ids: "shown_runes (CHR ''d'' # s) \<noteq> []" "shown_runes (CHR ''h'' # s) \<noteq> []"
  by (rule shown_prefixed; simp add: IsControl_def IsSpace_def)+

lemma group_labels_ok: "g \<in> set hwmonDiskGroups \<Longrightarrow> label_ok (grp_label g)"
  by (auto simp: hwmonDiskGroups_def label_ok_def maxHWMonLabelSize_def intro!: well_text_ascii)

lemma disk_sample_label: "label_ok (hs_label (smp_sensor (disk_sample d)))"
  by (simp add: disk_sample_def Let_def sanitize_ok shown_ids)

lemma makeHBASample_label: "label_ok (hs_label (smp_sensor (makeHBASample h (CHR ''h'' # s) probe t)))"
  by (simp add: makeHBASample_def Let_def sanitize_ok shown_ids)

lemma group_samples_label: "g \<in> set hwmonDiskGroups \<Longrightarrow> s \<in> set (group_samples ds g) \<Longrightarrow> label_ok (hs_label (smp_sensor s))"
  by (auto simp: group_samples_def group_labels_ok split: prod.splits if_splits)

lemma hba_samples_label: "s \<in> set (hba_samples h) \<Longrightarrow> label_ok (hs_label (smp_sensor s))"
  by (auto simp: hba_samples_def makeHBASample_label split: if_splits option.splits)

text \<open>
  C31: Every sample built from a snapshot, whatever names, models and addresses the guest sent,
  carries a label of 1 to 95 bytes that is well-formed UTF-8, has no ASCII control character and
  does not begin with a blank.
\<close>

theorem hwmon_labels_ok:
  "list_all (\<lambda>s. label_ok (hs_label (smp_sensor s))) (fst (makeHWMonSamples state) @ snd (makeHWMonSamples state))"
  by (auto simp: makeHWMonSamples_def Let_def list_all_iff disk_sample_label intro: group_samples_label hba_samples_label)

subsection \<open>Groups\<close>

definition group_members :: "Disk list \<Rightarrow> DiskKind \<Rightarrow> Disk list" where
  "group_members disks k = filter (\<lambda>d. Kind d = k) disks"

lemma group_scan_members:
  "group_scan k n m u ds = group_scan k n m u (filter (\<lambda>d. Kind d = k) ds)"
  by (induction k n m u ds rule: group_scan.induct) auto

lemma f64_less_trans: "f64_less x y \<Longrightarrow> f64_less y z \<Longrightarrow> f64_less x z"
  by (cases x; cases y; cases z) auto

text \<open>What the scan holds after some members: their number, a maximum of theirs, whether one is unavailable.\<close>

definition scan_inv :: "Disk list \<Rightarrow> nat \<times> float64 \<times> bool \<Rightarrow> bool" where
  "scan_inv ms r = (case r of (n, m, u) \<Rightarrow> n = length ms \<and> (u \<longleftrightarrow> (\<exists>d \<in> set ms. disk_Unavailable d)) \<and>
    (ms \<noteq> [] \<longrightarrow> m \<in> disk_Temp ` set ms \<and> (\<forall>d \<in> set ms. \<not> f64_less m (disk_Temp d))))"

lemma f64_less_irrefl [simp]: "\<not> f64_less x x"
  by (cases x) auto

lemma group_scan_inv:
  "\<forall>d \<in> set ds. Kind d = k \<and> disk_Temp d \<noteq> NaN \<Longrightarrow> \<forall>d \<in> set ms. disk_Temp d \<noteq> NaN \<Longrightarrow> scan_inv ms (n, m, u) \<Longrightarrow>
    scan_inv (ms @ ds) (group_scan k n m u ds)"
proof (induction ds arbitrary: ms n m u)
  case (Cons d ds)
  let ?m = "if n = 0 \<or> f64_less m (disk_Temp d) then disk_Temp d else m"
  have "scan_inv (ms @ [d]) (n + 1, ?m, u \<or> disk_Unavailable d)"
  proof (cases "ms = []")
    case True
    then show ?thesis using Cons.prems(3) by (auto simp: scan_inv_def)
  next
    case False
    then have m: "m \<in> disk_Temp ` set ms" "\<forall>d \<in> set ms. \<not> f64_less m (disk_Temp d)" and n: "n \<noteq> 0"
      using Cons.prems(3) by (auto simp: scan_inv_def)
    have mN: "m \<noteq> NaN" using m(1) Cons.prems(2) by auto
    have "\<forall>e \<in> set ms. f64_less m (disk_Temp d) \<longrightarrow> \<not> f64_less (disk_Temp d) (disk_Temp e)"
      using m(2) f64_less_trans by blast
    then show ?thesis using m n Cons.prems(3) by (auto simp: scan_inv_def)
  qed
  then have "scan_inv ((ms @ [d]) @ ds) (group_scan k (n + 1) ?m (u \<or> disk_Unavailable d) ds)"
    using Cons.prems by (intro Cons.IH) auto
  then show ?case using Cons.prems(1) by simp
qed simp

text \<open>
  C32: A group is shown when it has at least two members. It then carries the highest of their
  temperatures, unless a member is unavailable: then it carries the failsafe temperature and is
  not refreshed.
\<close>

theorem group_sample_maximum:
  assumes "\<forall>d \<in> set disks. disk_Temp d \<noteq> NaN"
  shows "if length (group_members disks (grp_kind g)) < 2 then group_samples disks g = []
    else \<exists>t. group_samples disks g =
        [\<lparr>smp_sensor = \<lparr>hs_id = ''disk:group:'' @ kind_text (grp_kind g), hs_label = grp_label g\<rparr>,
          smp_temperature = t, smp_skipRefresh = list_ex disk_Unavailable (group_members disks (grp_kind g))\<rparr>] \<and>
      (if list_ex disk_Unavailable (group_members disks (grp_kind g)) then t = Fin 100
       else t \<in> disk_Temp ` set (group_members disks (grp_kind g)) \<and> (\<forall>d \<in> set (group_members disks (grp_kind g)). \<not> f64_less t (disk_Temp d)))"
proof -
  obtain n m u where r: "group_scan (grp_kind g) 0 (Fin 0) False disks = (n, m, u)"
    by (cases "group_scan (grp_kind g) 0 (Fin 0) False disks") auto
  have "scan_inv ([] @ (group_members disks (grp_kind g))) (group_scan (grp_kind g) 0 (Fin 0) False (group_members disks (grp_kind g)))"
    by (rule group_scan_inv) (use assms in \<open>auto simp: scan_inv_def group_members_def\<close>)
  then have "scan_inv (group_members disks (grp_kind g)) (n, m, u)"
    using r group_scan_members [of "grp_kind g" 0 "Fin 0" False disks] by (simp add: group_members_def)
  then show ?thesis
    by (auto simp: group_samples_def r minHWMonGroupSize_def hwmonFailsafeTemp_def scan_inv_def list_ex_iff)
qed

definition example_ssd :: "string \<Rightarrow> rat \<Rightarrow> Disk" where
  "example_ssd name t =
    \<lparr>disk_ID = name, disk_Name = name, disk_Device = name, disk_Transport = ''nvme'',
     disk_Rotational = False, disk_Temp = Fin t, disk_Unavailable = False\<rparr>"

lemma example_ssd_kind: "Kind (example_ssd name t) = DiskKindNVMe"
  by (simp add: Kind_def example_ssd_def EqualFold_def)

theorem group_sample_maximum_witness:
  "smp_temperature (hd (group_samples [example_ssd ''cache1'' 41, example_ssd ''cache2'' 47]
     \<lparr>grp_kind = DiskKindNVMe, grp_label = ''NVMe SSD maximum''\<rparr>)) = Fin 47"
proof -
  let ?ds = "[example_ssd ''cache1'' 41, example_ssd ''cache2'' 47]"
  have "\<forall>d \<in> set ?ds. disk_Temp d \<noteq> NaN" by (simp add: example_ssd_def)
  note group_sample_maximum [OF this, of "\<lparr>grp_kind = DiskKindNVMe, grp_label = ''NVMe SSD maximum''\<rparr>"]
  moreover have "group_members ?ds DiskKindNVMe = ?ds" by (simp add: group_members_def example_ssd_kind)
  ultimately show ?thesis by (auto simp: example_ssd_def)
qed

subsection \<open>Configurations\<close>

lemma current_labels_iff:
  "distinct (map (\<lambda>s. hs_id (smp_sensor s)) ss) \<Longrightarrow>
    current_labels ss m i = Some l \<longleftrightarrow>
      (\<exists>s \<in> set ss. hs_id (smp_sensor s) = i \<and> hs_label (smp_sensor s) = l) \<or>
      (\<forall>s \<in> set ss. hs_id (smp_sensor s) \<noteq> i) \<and> m i = Some l"
proof (induction ss arbitrary: m)
  case (Cons s ss)
  have "\<forall>t \<in> set ss. hs_id (smp_sensor t) \<noteq> hs_id (smp_sensor s)"
    using Cons.prems by (auto simp: image_iff)
  then show ?case using Cons by auto
qed simp

lemma sensor_eq_iff: "s = t \<longleftrightarrow> hs_id s = hs_id t \<and> hs_label (s :: hwmonSensor) = hs_label t"
  by (cases s; cases t) auto

lemma current_labels_mem:
  "distinct (map (\<lambda>s. hs_id (smp_sensor s)) ss) \<Longrightarrow>
    current_labels ss Map.empty (hs_id v) = Some (hs_label v) \<longleftrightarrow> v \<in> set (sensorsFromSamples ss)"
  by (auto simp: current_labels_iff sensorsFromSamples_def image_iff sensor_eq_iff [of v]) metis

lemma same_config_mset:
  assumes "distinct (map (\<lambda>s. hs_id (smp_sensor s)) current)" and "distinct (map hs_id expected)"
  shows "sameHWMonConfiguration expected current \<longleftrightarrow> mset expected = mset (sensorsFromSamples current)"
proof -
  have c: "distinct (sensorsFromSamples current)" and e: "distinct expected"
    using assms by (auto simp: sensorsFromSamples_def distinct_map comp_def inj_on_def)
  have "list_all (\<lambda>s. current_labels current Map.empty (hs_id s) = Some (hs_label s)) expected
      \<longleftrightarrow> set expected \<subseteq> set (sensorsFromSamples current)"
    by (auto simp: list_all_iff current_labels_mem [OF assms(1)])
  moreover have "set expected \<subseteq> set (sensorsFromSamples current) \<Longrightarrow> length expected = length current \<Longrightarrow>
      set expected = set (sensorsFromSamples current)"
    using distinct_card [OF c] distinct_card [OF e]
    by (intro card_subset_eq) (simp_all add: sensorsFromSamples_def)
  moreover have "mset expected = mset (sensorsFromSamples current) \<Longrightarrow> length expected = length current"
    using mset_eq_length by (fastforce simp: sensorsFromSamples_def)
  moreover have "mset expected = mset (sensorsFromSamples current) \<longleftrightarrow> set expected = set (sensorsFromSamples current)"
    using c e by (simp add: set_eq_iff_mset_eq_distinct)
  ultimately show ?thesis unfolding sameHWMonConfiguration_def by blast
qed

text \<open>
  C33: For samples and a recorded topology without repeated identifiers, the comparison of the
  two tells exactly whether they hold the same sensors with the same labels, in any order.
\<close>

theorem same_configuration_iff:
  assumes "distinct (map (\<lambda>s. hs_id (smp_sensor s)) current)" and "distinct (map hs_id expected)"
  shows "sameHWMonConfiguration expected current \<longleftrightarrow> mset expected = mset (sensorsFromSamples current)"
  using assms by (rule same_config_mset)

theorem same_configuration_iff_witness:
  "sameHWMonConfiguration [\<lparr>hs_id = ''disk:b'', hs_label = ''b''\<rparr>, \<lparr>hs_id = ''disk:a'', hs_label = ''a''\<rparr>]
     (map disk_sample [example_ssd ''a'' 30, example_ssd ''b'' 31])"
proof -
  let ?e = "[\<lparr>hs_id = ''disk:b'', hs_label = ''b''\<rparr>, \<lparr>hs_id = ''disk:a'', hs_label = ''a''\<rparr>]"
  let ?c = "map disk_sample [example_ssd ''a'' 30, example_ssd ''b'' 31]"
  have "sensorsFromSamples ?c = [\<lparr>hs_id = ''disk:a'', hs_label = ''a''\<rparr>, \<lparr>hs_id = ''disk:b'', hs_label = ''b''\<rparr>]"
    by code_simp
  moreover have "distinct (map (\<lambda>s. hs_id (smp_sensor s)) ?c)" by (simp add: disk_sample_def example_ssd_def Let_def)
  moreover have "distinct (map hs_id ?e)" by simp
  ultimately show ?thesis using same_configuration_iff [of ?c ?e] by simp
qed

end
