(* ===== verification/Virt_Temp.thy ===== *)
theory Virt_Temp
  imports Go_Text
begin

text \<open>
  The kernel interface the host program writes to: the configfs tree and the device nodes of
  the module \<^verbatim>\<open>virt-temp/module/virt-temp.c\<close>. A directory below \<^verbatim>\<open>disk\<close> or \<^verbatim>\<open>hba\<close> is a sensor
  whose hexadecimal name spells its identifier; writing its device node sets the temperature and
  the time of the last update; the first write of its label registers the hwmon device; a value
  that has not been updated for \<open>stale_timeout\<close> seconds reads as 100 degrees. The jiffies counter
  is a natural number: at 64 bits it does not wrap within the life of a machine. The name of the
  hwmon device, which is derived from the label for display only, is left out.
\<close>

definition FAILSAFE_MILLIC :: int where "FAILSAFE_MILLIC = 100000"

definition ID_SIZE :: nat where "ID_SIZE = 85"

definition LABEL_SIZE :: nat where "LABEL_SIZE = 96"

definition MAX_TEMP_WRITE_SIZE :: nat where "MAX_TEMP_WRITE_SIZE = 32"

record virt_sensor =
  vs_family :: string
  vs_name :: string
  vs_id :: string
  vs_label :: string
  vs_temperature :: int
  vs_last_update :: nat
  vs_hwmon :: bool

record virt_temp =
  vt_sensors :: "virt_sensor list"
  vt_jiffies :: nat
  vt_HZ :: nat
  vt_stale_timeout :: nat

subsection \<open>Errors\<close>

definition EINVAL_error :: go_error where "EINVAL_error = GoErr ''invalid argument'' []"
definition ENAMETOOLONG_error :: go_error where "ENAMETOOLONG_error = GoErr ''file name too long'' []"
definition EMSGSIZE_error :: go_error where "EMSGSIZE_error = GoErr ''message too long'' []"
definition EEXIST_error :: go_error where "EEXIST_error = GoErr ''file exists'' [ErrExist]"
definition ENOENT_error :: go_error where "ENOENT_error = GoErr ''no such file or directory'' [ErrNotExist]"

subsection \<open>Identifiers\<close>

fun hex2bin :: "string \<Rightarrow> string option" where
  "hex2bin [] = Some []"
| "hex2bin [c] = None"
| "hex2bin (c # d # s) =
    (case (digit_val c, digit_val d, hex2bin s) of
       (Some h, Some l, Some r) \<Rightarrow> Some (chr (16 * h + l) # r)
     | _ \<Rightarrow> None)"

definition decode_sensor_id :: "string \<Rightarrow> string \<Rightarrow> string result" where
  "decode_sensor_id namespace name =
    (if name = [] \<or> odd (length name) then Inl EINVAL_error
     else if ID_SIZE \<le> length namespace + 1 + length name div 2 then Inl ENAMETOOLONG_error
     else case hex2bin name of
       None \<Rightarrow> Inl EINVAL_error
     | Some suffix \<Rightarrow>
         if chr 0 \<in> set suffix then Inl EINVAL_error
         else Inr (namespace @ '':'' @ suffix))"

subsection \<open>Sensors\<close>

definition is_stale :: "virt_temp \<Rightarrow> virt_sensor \<Rightarrow> bool" where
  "is_stale vt s = (vs_last_update s + vt_stale_timeout vt * vt_HZ vt < vt_jiffies vt)"

definition read_value :: "virt_temp \<Rightarrow> virt_sensor \<Rightarrow> int" where
  "read_value vt s = (if is_stale vt s then FAILSAFE_MILLIC else vs_temperature s)"

text \<open>
  \<^verbatim>\<open>mkdir\<close>: there are two families; configfs refuses an existing name, \<^verbatim>\<open>make_sensor\<close> a name that does not decode, and
  \<^verbatim>\<open>misc_register\<close> a second device for the same identifier.
\<close>

definition make_sensor :: "string \<Rightarrow> string \<Rightarrow> virt_temp \<Rightarrow> go_error option \<times> virt_temp" where
  "make_sensor family name vt =
    (if family \<noteq> ''disk'' \<and> family \<noteq> ''hba'' then (Some ENOENT_error, vt)
     else if list_ex (\<lambda>s. vs_family s = family \<and> vs_name s = name) (vt_sensors vt) then (Some EEXIST_error, vt)
     else case decode_sensor_id family name of
       Inl e \<Rightarrow> (Some e, vt)
     | Inr sid \<Rightarrow>
         if list_ex (\<lambda>s. vs_id s = sid) (vt_sensors vt) then (Some EEXIST_error, vt)
         else (None, vt\<lparr>vt_sensors := vt_sensors vt @
           [\<lparr>vs_family = family, vs_name = name, vs_id = sid, vs_label = [],
             vs_temperature = FAILSAFE_MILLIC, vs_last_update = vt_jiffies vt, vs_hwmon = False\<rparr>]\<rparr>))"

definition drop_sensor :: "string \<Rightarrow> string \<Rightarrow> virt_temp \<Rightarrow> go_error option \<times> virt_temp" where
  "drop_sensor family name vt =
    (if list_ex (\<lambda>s. vs_family s = family \<and> vs_name s = name) (vt_sensors vt)
     then (None, vt\<lparr>vt_sensors := filter (\<lambda>s. \<not> (vs_family s = family \<and> vs_name s = name)) (vt_sensors vt)\<rparr>)
     else (Some ENOENT_error, vt))"

definition update_sensors :: "(virt_sensor \<Rightarrow> bool) \<Rightarrow> (virt_sensor \<Rightarrow> virt_sensor) \<Rightarrow> virt_temp \<Rightarrow> virt_temp" where
  "update_sensors p f vt = vt\<lparr>vt_sensors := map (\<lambda>s. if p s then f s else s) (vt_sensors vt)\<rparr>"

text \<open>\<^verbatim>\<open>kstrtol\<close> in base 10 allows one newline at the end.\<close>

definition kstrtol :: "string \<Rightarrow> int result" where
  "kstrtol text =
    ParseInt10 (if text \<noteq> [] \<and> last text = chr 10 then butlast text else text)"

definition temperature_write :: "string \<Rightarrow> string \<Rightarrow> virt_temp \<Rightarrow> go_error option \<times> virt_temp" where
  "temperature_write sid text vt =
    (if text = [] \<or> MAX_TEMP_WRITE_SIZE < length text then (Some EMSGSIZE_error, vt)
     else case kstrtol text of
       Inl e \<Rightarrow> (Some EINVAL_error, vt)
     | Inr v \<Rightarrow>
         (None, update_sensors (\<lambda>s. vs_id s = sid)
           (\<lambda>s. s\<lparr>vs_temperature := v, vs_last_update := vt_jiffies vt\<rparr>) vt))"

text \<open>The kernel's \<^verbatim>\<open>isspace\<close> counts the byte \<open>0xA0\<close> as a space.\<close>

definition kernel_space :: "char \<Rightarrow> bool" where
  "kernel_space c = ((9 \<le> byte c \<and> byte c \<le> 13) \<or> byte c = 32 \<or> byte c = 160)"

definition strim :: "string \<Rightarrow> string" where
  "strim s = trim_both kernel_space s"

text \<open>
  The label of a sensor; \<open>reg\<close> is the failure of the hwmon registration with whether restoring
  the previous registration works.
\<close>

definition sensor_label_store ::
    "(go_error \<times> bool) option \<Rightarrow> string \<Rightarrow> virt_sensor \<Rightarrow> go_error option \<times> virt_sensor" where
  "sensor_label_store reg page s =
    (let trimmed = strim page in
     if page = [] \<or> LABEL_SIZE + 1 \<le> length page then (Some EINVAL_error, s)
     else if chr 0 \<in> set page then (Some EINVAL_error, s)
     else if trimmed = [] \<or> LABEL_SIZE \<le> length trimmed \<or> list_ex (\<lambda>c. byte c \<in> {9, 13, 10}) trimmed
       then (Some EINVAL_error, s)
     else if vs_label s = trimmed then
       (if vs_hwmon s then (None, s)
        else case reg of None \<Rightarrow> (None, s\<lparr>vs_hwmon := True\<rparr>) | Some (e, _) \<Rightarrow> (Some e, s))
     else case reg of
       None \<Rightarrow> (None, s\<lparr>vs_label := trimmed, vs_hwmon := True\<rparr>)
     | Some (e, restored) \<Rightarrow> (Some e, s\<lparr>vs_hwmon := (vs_label s \<noteq> [] \<and> restored)\<rparr>))"

definition label_store ::
    "(go_error \<times> bool) option \<Rightarrow> string \<Rightarrow> string \<Rightarrow> string \<Rightarrow> virt_temp \<Rightarrow> go_error option \<times> virt_temp" where
  "label_store reg family name page vt =
    (case find (\<lambda>s. vs_family s = family \<and> vs_name s = name) (vt_sensors vt) of
       None \<Rightarrow> (Some ENOENT_error, vt)
     | Some s \<Rightarrow>
         (fst (sensor_label_store reg page s),
          update_sensors (\<lambda>t. vs_family t = family \<and> vs_name t = name)
            (\<lambda>t. snd (sensor_label_store reg page t)) vt))"

subsection \<open>The invariant of the module\<close>

text \<open>Directory names spell the identifiers, and no two sensors share one.\<close>

definition vt_ok :: "virt_temp \<Rightarrow> bool" where
  "vt_ok vt = (distinct (map vs_id (vt_sensors vt)) \<and>
    list_all (\<lambda>s. decode_sensor_id (vs_family s) (vs_name s) = Inr (vs_id s) \<and>
      (vs_family s = ''disk'' \<or> vs_family s = ''hba'')) (vt_sensors vt))"

text \<open>The sensor with an identifier.\<close>

definition sensor_of :: "virt_temp \<Rightarrow> string \<Rightarrow> virt_sensor option" where
  "sensor_of vt sid = find (\<lambda>s. vs_id s = sid) (vt_sensors vt)"

lemma hex2bin_hex: "hex2bin (hex_EncodeToString s) = Some s"
proof (induction s)
  case (Cons c s)
  have "byte c < 256" by (rule nat_of_char_less_256)
  then have "digit_val (hex_digit (byte c div 16)) = Some (byte c div 16)"
    "digit_val (hex_digit (byte c mod 16)) = Some (byte c mod 16)"
    by (auto intro!: digit_val_hex_digit simp: div_less_iff_less_mult)
  then show ?case using Cons by (simp add: hex_EncodeToString_Cons)
qed (simp add: hex_EncodeToString_def)

lemma decode_hex:
  "suffix \<noteq> [] \<Longrightarrow> length namespace + 1 + length suffix < ID_SIZE \<Longrightarrow> chr 0 \<notin> set suffix \<Longrightarrow>
    decode_sensor_id namespace (hex_EncodeToString suffix) = Inr (namespace @ '':'' @ suffix)"
  by (auto simp: decode_sensor_id_def hex2bin_hex length_hex_EncodeToString
      simp flip: length_greater_0_conv)

lemma find_distinct:
  "distinct (map f xs) \<Longrightarrow> x \<in> set xs \<Longrightarrow> find (\<lambda>y. f y = f x) xs = Some x"
  by (induction xs) auto

lemma sensor_of_iff: "vt_ok vt \<Longrightarrow> sensor_of vt sid = Some s \<longleftrightarrow> s \<in> set (vt_sensors vt) \<and> vs_id s = sid"
  by (auto simp: sensor_of_def vt_ok_def dest: find_SomeD find_distinct)

lemma sensor_of_None: "sensor_of vt sid = None \<longleftrightarrow> (\<forall>s \<in> set (vt_sensors vt). vs_id s \<noteq> sid)"
  by (auto simp: sensor_of_def find_None_iff)

lemma vt_ok_id:
  "vt_ok vt \<Longrightarrow> s \<in> set (vt_sensors vt) \<Longrightarrow>
    decode_sensor_id (vs_family s) (vs_name s) = Inr (vs_id s) \<and> (vs_family s = ''disk'' \<or> vs_family s = ''hba'')"
  by (simp add: vt_ok_def list_all_iff)

lemma decode_prefix: "decode_sensor_id f n = Inr sid \<Longrightarrow> \<exists>suffix. sid = f @ '':'' @ suffix"
  by (auto simp: decode_sensor_id_def split: if_splits option.splits)

text \<open>The family of a sensor is the prefix of its identifier.\<close>

lemma vt_ok_family:
  assumes "vt_ok vt" "s \<in> set (vt_sensors vt)" "ns = ''disk'' \<or> ns = ''hba''"
  shows "vs_family s = ns \<longleftrightarrow> HasPrefix (vs_id s) (ns @ '':'')"
  using vt_ok_id [OF assms(1,2)] assms(3) decode_prefix by (fastforce simp: HasPrefix_iff)

subsection \<open>What the operations change\<close>

text \<open>Everything but the sensor with one identifier stays as it is.\<close>

definition changes_only :: "string \<Rightarrow> virt_temp \<Rightarrow> virt_temp \<Rightarrow> bool" where
  "changes_only sid vt vt' = (vt_ok vt' \<and> (\<forall>y. y \<noteq> sid \<longrightarrow> sensor_of vt' y = sensor_of vt y) \<and>
    vt_jiffies vt' = vt_jiffies vt \<and> vt_HZ vt' = vt_HZ vt \<and> vt_stale_timeout vt' = vt_stale_timeout vt)"

lemma changes_only_refl: "vt_ok vt \<Longrightarrow> changes_only sid vt vt"
  by (simp add: changes_only_def)

lemma changes_only_trans: "changes_only sid u v \<Longrightarrow> changes_only sid v w \<Longrightarrow> changes_only sid u w"
  by (simp add: changes_only_def)

lemma find_append: "find p (xs @ ys) = (case find p xs of None \<Rightarrow> find p ys | Some x \<Rightarrow> Some x)"
  by (induction xs) auto

lemma find_map_id:
  assumes "\<And>x. g (f x) = g x"
  shows "find (\<lambda>x. g x = a) (map f xs) = map_option f (find (\<lambda>x. g x = a) xs)"
  using assms by (induction xs) auto

lemma update_sensors_of:
  assumes "\<And>s. vs_id (f s) = vs_id s"
  shows "sensor_of (update_sensors p f vt) y = map_option (\<lambda>s. if p s then f s else s) (sensor_of vt y)"
  unfolding sensor_of_def update_sensors_def using assms by (simp add: find_map_id)

lemma update_sensors_ok:
  assumes "\<And>s. vs_id (f s) = vs_id s \<and> vs_family (f s) = vs_family s \<and> vs_name (f s) = vs_name s" "vt_ok vt"
  shows "vt_ok (update_sensors p f vt)"
proof -
  have "vs_id \<circ> (\<lambda>s. if p s then f s else s) = vs_id"
    using assms(1) by auto
  then show ?thesis using assms by (auto simp: vt_ok_def update_sensors_def list_all_iff)
qed

lemma update_sensors_only:
  assumes "\<And>s. vs_id (f s) = vs_id s \<and> vs_family (f s) = vs_family s \<and> vs_name (f s) = vs_name s" "vt_ok vt"
    and "\<And>s. s \<in> set (vt_sensors vt) \<Longrightarrow> p s \<Longrightarrow> vs_id s = sid"
  shows "changes_only sid vt (update_sensors p f vt)"
proof -
  have "sensor_of (update_sensors p f vt) y = sensor_of vt y" if "y \<noteq> sid" for y
  proof (cases "sensor_of vt y")
    case (Some s)
    then have "\<not> p s" using that assms(2,3) by (auto simp: sensor_of_iff)
    then show ?thesis using assms(1) Some by (simp add: update_sensors_of)
  qed (use assms(1) in \<open>simp add: update_sensors_of\<close>)
  then show ?thesis using assms(1,2) by (simp add: changes_only_def update_sensors_ok) (simp add: update_sensors_def)
qed

lemma make_sensor_only:
  assumes "make_sensor family name vt = (err, vt')" "vt_ok vt" "decode_sensor_id family name = Inr sid"
  shows "changes_only sid vt vt'" and "err = None \<longrightarrow> (\<exists>s. sensor_of vt' sid = Some s \<and> vs_family s = family \<and> vs_name s = name)"
proof -
  consider "vt' = vt" "err \<noteq> None" |
    s where "vt' = vt\<lparr>vt_sensors := vt_sensors vt @ [s]\<rparr>" "vs_id s = sid" "vs_family s = family" "vs_name s = name"
      "family = ''disk'' \<or> family = ''hba''" "\<forall>t \<in> set (vt_sensors vt). vs_id t \<noteq> sid"
    using assms by (auto simp: make_sensor_def list_ex_iff split: if_splits)
  then show "changes_only sid vt vt'" "err = None \<longrightarrow> (\<exists>s. sensor_of vt' sid = Some s \<and> vs_family s = family \<and> vs_name s = name)"
  proof (atomize (full), cases, goal_cases)
    case 1
    then show ?case using assms(2) by (auto simp: changes_only_refl)
  next
    case (2 s)
    have "find (\<lambda>t. vs_id t = sid) (vt_sensors vt) = None" using 2(6) by (simp add: find_None_iff)
    then have "vt_ok vt'" "sensor_of vt' sid = Some s" "\<forall>y. y \<noteq> sid \<longrightarrow> sensor_of vt' y = sensor_of vt y"
      using 2 assms(2,3) by (auto simp: vt_ok_def sensor_of_def find_append split: option.split)
    then show ?case using 2 by (simp add: changes_only_def)
  qed
qed

lemma temperature_write_only:
  assumes "temperature_write sid text vt = (err, vt')" "vt_ok vt"
  shows "changes_only sid vt vt'"
  using assms by (auto simp: temperature_write_def changes_only_refl split: if_splits sum.splits intro!: update_sensors_only)

lemma label_store_only:
  assumes "label_store reg family name page vt = (err, vt')" "vt_ok vt" "decode_sensor_id family name = Inr sid"
  shows "changes_only sid vt vt'"
proof -
  have pres: "vs_id (snd (sensor_label_store reg page s)) = vs_id s \<and>
      vs_family (snd (sensor_label_store reg page s)) = vs_family s \<and>
      vs_name (snd (sensor_label_store reg page s)) = vs_name s" for s
    by (simp add: sensor_label_store_def Let_def split: option.split)
  have sid: "s \<in> set (vt_sensors vt) \<Longrightarrow> vs_family s = family \<and> vs_name s = name \<Longrightarrow> vs_id s = sid" for s
    using vt_ok_id [OF assms(2)] assms(3) by force
  show ?thesis
    using assms(1,2) by (auto simp: label_store_def changes_only_refl split: option.splits intro!: update_sensors_only pres sid)
qed

end
