(* ===== verification/Hwmon_Device.thy ===== *)
theory Hwmon_Device
  imports Hwmon_Topology Virt_Temp Hba_Identity Disk_Bus
begin

text \<open>
  The publication of samples to the kernel (\<^verbatim>\<open>hwmon_device.go\<close>): validation, the refresh of the
  temperatures, the reconciliation of the sensor directories, and the record of what the kernel
  holds. Every call into the kernel may fail with any error.
\<close>

subsection \<open>Calls into the kernel\<close>

text \<open>
  The outcome of a call: it works, it fails without an effect, or, for the write of a label, the
  registration of the hwmon device fails and restoring the previous one works or not.
\<close>

datatype kernel_outcome = Works | Fails go_error | RegistrationFails go_error bool

record hwmon_kernel =
  hk_vt :: virt_temp
  hk_outcomes :: "kernel_outcome list"

fun registration :: "kernel_outcome \<Rightarrow> (go_error \<times> bool) option" where
  "registration (RegistrationFails e restored) = Some (e, restored)"
| "registration _ = None"

definition take_outcome :: "hwmon_kernel \<Rightarrow> kernel_outcome \<times> hwmon_kernel" where
  "take_outcome k = (case hk_outcomes k of [] \<Rightarrow> (Works, k) | x # xs \<Rightarrow> (x, k\<lparr>hk_outcomes := xs\<rparr>))"

definition kernel_call ::
    "((go_error \<times> bool) option \<Rightarrow> virt_temp \<Rightarrow> go_error option \<times> virt_temp) \<Rightarrow> hwmon_kernel \<Rightarrow> go_error option \<times> hwmon_kernel" where
  "kernel_call f k =
    (case take_outcome k of (x, k1) \<Rightarrow>
      (case x of
         Fails e \<Rightarrow> (Some e, k1)
       | _ \<Rightarrow> (case f (registration x) (hk_vt k1) of (err, vt) \<Rightarrow> (err, k1\<lparr>hk_vt := vt\<rparr>))))"

text \<open>A path below the configfs root or below \<^verbatim>\<open>/dev\<close>, by its components.\<close>

datatype kernel_path = LabelFile string string | DeviceNode string

fun path_exists :: "kernel_path \<Rightarrow> virt_temp \<Rightarrow> bool" where
  "path_exists (LabelFile family name) vt = list_ex (\<lambda>s. vs_family s = family \<and> vs_name s = name) (vt_sensors vt)"
| "path_exists (DeviceNode node) vt = list_ex (\<lambda>s. hex_EncodeToString (vs_id s) = node) (vt_sensors vt)"

fun path_write :: "kernel_path \<Rightarrow> string \<Rightarrow> (go_error \<times> bool) option \<Rightarrow> virt_temp \<Rightarrow> go_error option \<times> virt_temp" where
  "path_write (LabelFile family name) text reg vt = label_store reg family name text vt"
| "path_write (DeviceNode node) text reg vt =
    (case find (\<lambda>s. hex_EncodeToString (vs_id s) = node) (vt_sensors vt) of
       None \<Rightarrow> (Some (GoErr ''no such device'' [ENODEV]), vt)
     | Some s \<Rightarrow> temperature_write (vs_id s) text vt)"

definition path_open :: "kernel_path \<Rightarrow> (go_error \<times> bool) option \<Rightarrow> virt_temp \<Rightarrow> go_error option \<times> virt_temp" where
  "path_open p reg vt = (if path_exists p vt then None else Some ENOENT_error, vt)"

definition hwmonSensorKey :: "string \<Rightarrow> string \<Rightarrow> string" where
  "hwmonSensorKey namespace sid = hex_EncodeToString (drop (length namespace + 1) sid)"

definition hwmonTemperatureDevicePath :: "string \<Rightarrow> kernel_path" where
  "hwmonTemperatureDevicePath sid = DeviceNode (hex_EncodeToString sid)"

definition writeKernelAttribute :: "kernel_path \<Rightarrow> string \<Rightarrow> hwmon_kernel \<Rightarrow> go_error option \<times> hwmon_kernel" where
  "writeKernelAttribute p text k =
    (case kernel_call (path_open p) k of
       (Some e, k1) \<Rightarrow> (Some e, k1)
     | (None, k1) \<Rightarrow>
         (case kernel_call (path_write p (text @ [chr 10])) k1 of (werr, k2) \<Rightarrow>
           (case kernel_call (\<lambda>_ vt. (None, vt)) k2 of (cerr, k3) \<Rightarrow> (errors_Join [werr, cerr], k3))))"

subsection \<open>Validation\<close>

definition maxDiskHWMonIDSize :: nat where "maxDiskHWMonIDSize = length ''disk:'' + maxUnraidDiskIDSize"
definition maxHBAHWMonIDSize :: nat where "maxHBAHWMonIDSize = length ''hba:board:'' + maxHBAStableIDSize"
definition maxHWMonIDSize :: nat where "maxHWMonIDSize = max maxDiskHWMonIDSize maxHBAHWMonIDSize"
definition maxHWMonSensors :: nat where "maxHWMonSensors = 1024"

definition milli_celsius :: "float64 \<Rightarrow> int option" where
  "milli_celsius t =
    (let rounded = math_Round (f64_mul t (Fin 1000)) in
     if f64_less rounded (Fin (- (2 ^ 63))) \<or> f64_ge rounded (Fin (2 ^ 63)) then None
     else (case rounded of Fin q \<Rightarrow> Some (floor q) | _ \<Rightarrow> None))"

fun validate_loop :: "string \<Rightarrow> string list \<Rightarrow> hwmonSample list \<Rightarrow> int list result" where
  "validate_loop prefix ids [] = Inr []"
| "validate_loop prefix ids (x # xs) =
    (let sid = hs_id (smp_sensor x); label = hs_label (smp_sensor x) in
     if \<not> HasPrefix sid prefix \<or> length sid = length prefix \<or> maxHWMonIDSize < length sid \<or> chr 0 \<in> set sid
       then Inl (errors_New (''invalid hwmon sensor ID '' @ quote sid))
     else if sid \<in> set ids then Inl (errors_New (''duplicate hwmon sensor ID '' @ quote sid))
     else if label = [] \<or> maxHWMonLabelSize < length label \<or> list_ex (\<lambda>c. byte c \<in> {0, 9, 13, 10}) label
       then Inl (errors_New (''invalid hwmon sensor label '' @ quote label))
     else if IsNaN (smp_temperature x) \<or> IsInf (smp_temperature x)
       then Inl (errors_New (''invalid temperature for '' @ quote sid))
     else case milli_celsius (smp_temperature x) of
       None \<Rightarrow> Inl (errors_New (''temperature cannot be represented in milli-Celsius for '' @ quote sid))
     | Some m \<Rightarrow>
         (case validate_loop prefix (sid # ids) xs of Inl e \<Rightarrow> Inl e | Inr ms \<Rightarrow> Inr (m # ms)))"

definition validateHWMonSamples :: "string \<Rightarrow> hwmonSample list \<Rightarrow> int list result" where
  "validateHWMonSamples namespace readings =
    (if namespace \<noteq> ''disk'' \<and> namespace \<noteq> ''hba''
       then Inl (errors_New (''invalid hwmon namespace '' @ quote namespace))
     else if maxHWMonSensors < length readings
       then Inl (errors_New (''too many hwmon sensors: '' @ digits 10 (length readings) @ '' exceeds maximum '' @
                             digits 10 maxHWMonSensors))
     else validate_loop (namespace @ '':'') [] readings)"

subsection \<open>Reconciliation and refresh\<close>

text \<open>The loop that creates and initialises the sensors; \<open>desired\<close> collects their directories.\<close>

fun create_sensors ::
    "string \<Rightarrow> string list \<Rightarrow> (hwmonSample \<times> int) list \<Rightarrow> hwmon_kernel \<Rightarrow> string list result \<times> hwmon_kernel" where
  "create_sensors namespace desired [] k = (Inr desired, k)"
| "create_sensors namespace desired ((x, m) # xs) k =
    (let sid = hs_id (smp_sensor x); key = hwmonSensorKey namespace sid in
     case kernel_call (\<lambda>_. make_sensor namespace key) k of (err1, k1) \<Rightarrow>
       if err1 \<noteq> None \<and> \<not> errors_Is (the err1) ErrExist
       then (Inl (Errorf_w (''create hwmon sensor '' @ quote sid @ '': '') (the err1) []), k1)
       else case writeKernelAttribute (hwmonTemperatureDevicePath sid) (FormatInt m) k1 of
         (Some e, k2) \<Rightarrow> (Inl (Errorf_w (''initialize hwmon sensor '' @ quote sid @ '': '') e []), k2)
       | (None, k2) \<Rightarrow>
           (case writeKernelAttribute (LabelFile namespace key) (hs_label (smp_sensor x)) k2 of
              (Some e, k3) \<Rightarrow> (Inl (Errorf_w (''label hwmon sensor '' @ quote sid @ '': '') e []), k3)
            | (None, k3) \<Rightarrow> create_sensors namespace (desired @ [key]) xs k3))"

text \<open>\<^verbatim>\<open>os.ReadDir\<close> of a family: its sensor directories in the order of their names.\<close>

definition family_names :: "string \<Rightarrow> virt_temp \<Rightarrow> string list" where
  "family_names family vt = sort (map vs_name (filter (\<lambda>s. vs_family s = family) (vt_sensors vt)))"

fun remove_stale :: "string \<Rightarrow> string list \<Rightarrow> string list \<Rightarrow> hwmon_kernel \<Rightarrow> go_error option \<times> hwmon_kernel" where
  "remove_stale namespace desired [] k = (None, k)"
| "remove_stale namespace desired (name # names) k =
    (if name \<in> set desired then remove_stale namespace desired names k
     else case kernel_call (\<lambda>_. drop_sensor namespace name) k of
       (Some e, k1) \<Rightarrow> (Some (Errorf_w (''remove stale hwmon sensor '' @ quote name @ '': '') e []), k1)
     | (None, k1) \<Rightarrow> remove_stale namespace desired names k1)"

definition reconcileHWMonFamily ::
    "string \<Rightarrow> hwmonSample list \<Rightarrow> int list \<Rightarrow> hwmon_kernel \<Rightarrow> go_error option \<times> hwmon_kernel" where
  "reconcileHWMonFamily namespace readings milliCelsius k =
    (case create_sensors namespace [] (zip readings milliCelsius) k of
       (Inl e, k1) \<Rightarrow> (Some e, k1)
     | (Inr desired, k1) \<Rightarrow>
         (case kernel_call (\<lambda>_ vt. (None, vt)) k1 of
            (Some e, k2) \<Rightarrow> (Some e, k2)
          | (None, k2) \<Rightarrow> remove_stale namespace desired (family_names namespace (hk_vt k2)) k2))"

fun updateHWMonFamily :: "(hwmonSample \<times> int) list \<Rightarrow> hwmon_kernel \<Rightarrow> go_error option \<times> hwmon_kernel" where
  "updateHWMonFamily [] k = (None, k)"
| "updateHWMonFamily ((x, m) # xs) k =
    (let sid = hs_id (smp_sensor x); p = hwmonTemperatureDevicePath sid in
     if smp_skipRefresh x
     then (case kernel_call (path_open p) k of
         (Some e, k1) \<Rightarrow> (Some (Errorf_w (''check hwmon sensor '' @ quote sid @ '': '') e []), k1)
       | (None, k1) \<Rightarrow> updateHWMonFamily xs k1)
     else (case writeKernelAttribute p (FormatInt m) k of
         (Some e, k1) \<Rightarrow> (Some (Errorf_w (''update hwmon sensor '' @ quote sid @ '': '') e []), k1)
       | (None, k1) \<Rightarrow> updateHWMonFamily xs k1))"

text \<open>\<^verbatim>\<open>publishHWMonFamily\<close>: whether the topology changed or an error, the record, the kernel.\<close>

definition publishHWMonFamily ::
    "string \<Rightarrow> hwmonSample list \<Rightarrow> hwmonInventory \<Rightarrow> hwmon_kernel \<Rightarrow> bool result \<times> hwmonInventory \<times> hwmon_kernel" where
  "publishHWMonFamily namespace current inventory k =
    (case validateHWMonSamples namespace current of
       Inl e \<Rightarrow> (Inl e, inventory, k)
     | Inr milliCelsius \<Rightarrow>
         (let immediately = (inv_needsReconcile inventory \<or> inv_sensors inventory = None \<or>
                             \<not> sameHWMonConfiguration (the (inv_sensors inventory)) current);
              update = (if immediately then (None, k) else updateHWMonFamily (zip current milliCelsius) k);
              k1 = snd update
          in if \<not> immediately \<and> fst update = None then (Inr False, inventory, k1)
             else if \<not> immediately \<and> \<not> errors_Is (the (fst update)) ErrNotExist \<and> \<not> errors_Is (the (fst update)) ENODEV
               then (Inl (the (fst update)), inventory, k1)
             else case reconcileHWMonFamily namespace current milliCelsius k1 of
               (Some e, k2) \<Rightarrow>
                 (Inl (if immediately then e else Errorf_w (''reconcile stale '' @ namespace @ '' inventory: '') e []),
                  inventory\<lparr>inv_needsReconcile := True\<rparr>, k2)
             | (None, k2) \<Rightarrow>
                 (Inr True, \<lparr>inv_sensors = Some (sensorsFromSamples current), inv_needsReconcile = False\<rparr>, k2)))"

subsection \<open>Effects of the calls\<close>

lemma kernel_call_cases:
  assumes "kernel_call f k = (err, k')"
  obtains "hk_vt k' = hk_vt k" "err \<noteq> None" | reg where "f reg (hk_vt k) = (err, hk_vt k')"
proof -
  obtain x k1 where t: "take_outcome k = (x, k1)" by (cases "take_outcome k")
  then have "hk_vt k1 = hk_vt k" by (auto simp: take_outcome_def split: list.splits)
  then show ?thesis using assms t that by (cases x) (auto simp: kernel_call_def split: prod.splits)
qed

definition with_temperature :: "int \<Rightarrow> nat \<Rightarrow> virt_sensor \<Rightarrow> virt_sensor" where
  "with_temperature m j s = s\<lparr>vs_temperature := m, vs_last_update := j\<rparr>"

definition with_label :: "string \<Rightarrow> virt_sensor \<Rightarrow> virt_sensor" where
  "with_label l s = s\<lparr>vs_label := l, vs_hwmon := True\<rparr>"

text \<open>The label the kernel keeps of what is written.\<close>

definition kernel_label :: "string \<Rightarrow> string" where
  "kernel_label l = strim (l @ [chr 10])"

lemma find_device: "find (\<lambda>s. hex_EncodeToString (vs_id s) = hex_EncodeToString sid) (vt_sensors vt) = sensor_of vt sid"
  by (simp add: sensor_of_def hex_EncodeToString_inj)

lemma kstrtol_FormatInt: "int64_range m \<Longrightarrow> kstrtol (FormatInt m @ [chr 10]) = Inr m"
  by (simp add: kstrtol_def ParseInt10_FormatInt)

lemma path_write_temperature:
  assumes "path_write (hwmonTemperatureDevicePath sid) (FormatInt m @ [chr 10]) reg vt = (err, vt')"
    and "vt_ok vt" "int64_range m"
  shows "changes_only sid vt vt'" and "err \<noteq> None \<Longrightarrow> vt' = vt"
    and "err = None \<Longrightarrow> \<exists>s. sensor_of vt sid = Some s \<and> sensor_of vt' sid = Some (with_temperature m (vt_jiffies vt) s)"
proof -
  have w: "(case sensor_of vt sid of None \<Rightarrow> (Some (GoErr ''no such device'' [ENODEV]), vt)
      | Some s \<Rightarrow> temperature_write (vs_id s) (FormatInt m @ [chr 10]) vt) = (err, vt')"
    using assms(1) by (simp add: hwmonTemperatureDevicePath_def find_device)
  have id: "sensor_of vt sid = Some s \<Longrightarrow> vs_id s = sid" for s using assms(2) by (simp add: sensor_of_iff)
  show "changes_only sid vt vt'"
    using w assms(2) by (auto split: option.splits dest: id intro: temperature_write_only changes_only_refl)
  show "err \<noteq> None \<Longrightarrow> vt' = vt"
    using w by (auto simp: temperature_write_def split: option.splits if_splits sum.splits)
  assume "err = None"
  with w id show "\<exists>s. sensor_of vt sid = Some s \<and> sensor_of vt' sid = Some (with_temperature m (vt_jiffies vt) s)"
    by (auto simp: temperature_write_def kstrtol_FormatInt [OF assms(3)] update_sensors_of with_temperature_def
        split: option.splits if_splits)
qed

lemma path_write_label:
  assumes "path_write (LabelFile ns key) (l @ [chr 10]) reg vt = (err, vt')"
    and "vt_ok vt" "decode_sensor_id ns key = Inr sid"
  shows "changes_only sid vt vt'"
    and "err = None \<Longrightarrow> \<exists>s. sensor_of vt sid = Some s \<and> vs_name s = key \<and> sensor_of vt' sid = Some (with_label (kernel_label l) s)"
proof -
  show "changes_only sid vt vt'" using assms by (simp add: label_store_only)
  assume err: "err = None"
  then obtain s where s: "find (\<lambda>s. vs_family s = ns \<and> vs_name s = key) (vt_sensors vt) = Some s"
    and st: "fst (sensor_label_store reg (l @ [chr 10]) s) = None"
    and vt': "vt' = update_sensors (\<lambda>t. vs_family t = ns \<and> vs_name t = key) (\<lambda>t. snd (sensor_label_store reg (l @ [chr 10]) t)) vt"
    using assms(1) by (auto simp: label_store_def split: option.splits)
  have m: "s \<in> set (vt_sensors vt)" "vs_family s = ns" "vs_name s = key" using find_SomeD [OF s] by auto
  then have "vs_id s = sid" using vt_ok_id [OF assms(2) m(1)] assms(3) by simp
  then have so: "sensor_of vt sid = Some s" using m(1) assms(2) by (simp add: sensor_of_iff)
  have "snd (sensor_label_store reg (l @ [chr 10]) s) = with_label (kernel_label l) s"
    using st by (auto simp: sensor_label_store_def with_label_def kernel_label_def Let_def split: if_splits option.splits)
  moreover have "vs_id (snd (sensor_label_store reg (l @ [chr 10]) t)) = vs_id t" for t
    by (simp add: sensor_label_store_def Let_def split: option.split)
  ultimately have "sensor_of vt' sid = Some (with_label (kernel_label l) s)"
    using so m by (simp add: vt' update_sensors_of)
  then show "\<exists>s. sensor_of vt sid = Some s \<and> vs_name s = key \<and> sensor_of vt' sid = Some (with_label (kernel_label l) s)"
    using so m by blast
qed

text \<open>Opening and closing change nothing, so a write of an attribute has the effect of its write.\<close>

lemma writeKernelAttribute_cases:
  assumes "writeKernelAttribute p text k = (err, k')"
  obtains "hk_vt k' = hk_vt k" "err \<noteq> None"
  | reg werr where "path_write p (text @ [chr 10]) reg (hk_vt k) = (werr, hk_vt k')" "err = None \<Longrightarrow> werr = None"
proof -
  obtain oerr k1 where o: "kernel_call (path_open p) k = (oerr, k1)" by (cases "kernel_call (path_open p) k")
  have k1: "hk_vt k1 = hk_vt k" by (rule kernel_call_cases [OF o]) (auto simp: path_open_def)
  obtain werr k2 where w: "kernel_call (path_write p (text @ [chr 10])) k1 = (werr, k2)"
    by (cases "kernel_call (path_write p (text @ [chr 10])) k1")
  obtain cerr k3 where c: "kernel_call (\<lambda>_ vt. (None, vt)) k2 = (cerr, k3)"
    by (cases "kernel_call (\<lambda>_ vt. (None :: go_error option, vt)) k2")
  have k3: "hk_vt k3 = hk_vt k2" by (rule kernel_call_cases [OF c]) auto
  show ?thesis
  proof (cases oerr)
    case (Some e)
    then show ?thesis using assms o k1 that(1) by (auto simp: writeKernelAttribute_def)
  next
    case None
    then have k': "k' = k3" "err = errors_Join [werr, cerr]"
      using assms o w c by (auto simp: writeKernelAttribute_def)
    show ?thesis
      by (rule kernel_call_cases [OF w]) (use k' k1 k3 that in \<open>auto\<close>)
  qed
qed

lemma write_temperature:
  assumes "writeKernelAttribute (hwmonTemperatureDevicePath sid) (FormatInt m) k = (err, k')"
    and "vt_ok (hk_vt k)" "int64_range m"
  shows "changes_only sid (hk_vt k) (hk_vt k')"
    and "err = None \<Longrightarrow> \<exists>s. sensor_of (hk_vt k) sid = Some s \<and>
      sensor_of (hk_vt k') sid = Some (with_temperature m (vt_jiffies (hk_vt k)) s)"
    and "sensor_of (hk_vt k') sid = sensor_of (hk_vt k) sid \<or>
      sensor_of (hk_vt k') sid = map_option (with_temperature m (vt_jiffies (hk_vt k))) (sensor_of (hk_vt k) sid)"
  by (rule writeKernelAttribute_cases [OF assms(1)];
      use assms(2,3) path_write_temperature [where m = m] in \<open>fastforce intro: changes_only_refl\<close>)+

lemma write_label:
  assumes "writeKernelAttribute (LabelFile ns key) l k = (err, k')"
    and "vt_ok (hk_vt k)" "decode_sensor_id ns key = Inr sid"
  shows "changes_only sid (hk_vt k) (hk_vt k')"
    and "err = None \<Longrightarrow> \<exists>s. sensor_of (hk_vt k) sid = Some s \<and> vs_name s = key \<and>
      sensor_of (hk_vt k') sid = Some (with_label (kernel_label l) s)"
  by (rule writeKernelAttribute_cases [OF assms(1)];
      use assms(2,3) path_write_label [where l = l] in \<open>fastforce intro: changes_only_refl\<close>)+

subsection \<open>Validated samples\<close>

abbreviation sample_id :: "hwmonSample \<Rightarrow> string" where "sample_id x \<equiv> hs_id (smp_sensor x)"

text \<open>An identifier the kernel decodes from the directory named after it.\<close>

definition id_ok :: "string \<Rightarrow> string \<Rightarrow> bool" where
  "id_ok ns sid = (\<exists>suffix. sid = ns @ '':'' @ suffix \<and> suffix \<noteq> [] \<and> length sid < ID_SIZE \<and> chr 0 \<notin> set suffix)"

definition published_label_ok :: "string \<Rightarrow> bool" where
  "published_label_ok l = (l \<noteq> [] \<and> length l \<le> maxHWMonLabelSize \<and> \<not> list_ex (\<lambda>c. byte c \<in> {0, 9, 13, 10}) l)"

lemma maxHWMonIDSize_kernel: "maxHWMonIDSize < ID_SIZE"
  by (simp add: maxHWMonIDSize_def maxDiskHWMonIDSize_def maxUnraidDiskIDSize_def maxHBAHWMonIDSize_def
      maxHBAStableIDSize_def maxSASHBAStableIDSize_def maxSASAddressSize_def maxPCIHBAStableIDSize_def
      maxPCIAddressSize_def maxLegacySerialHBAStableIDSize_def ID_SIZE_def)

lemma milli_celsius_range: "milli_celsius t = Some m \<Longrightarrow> int64_range m"
  by (cases "math_Round (f64_mul t (Fin 1000))")
    (auto simp: milli_celsius_def int64_range_def f64_ge_def IsNaN_def floor_less_iff le_floor_iff Let_def split: if_splits)

definition sample_valid :: "string \<Rightarrow> hwmonSample \<Rightarrow> int \<Rightarrow> bool" where
  "sample_valid ns x m = (id_ok ns (sample_id x) \<and> published_label_ok (hs_label (smp_sensor x)) \<and>
    milli_celsius (smp_temperature x) = Some m)"

lemma validate_loop_ok:
  "validate_loop (ns @ '':'') ids xs = Inr ms \<Longrightarrow>
    list_all2 (sample_valid ns) xs ms \<and> distinct (map sample_id xs) \<and> set (map sample_id xs) \<inter> set ids = {}"
proof (induction xs arbitrary: ids ms)
  case (Cons x xs)
  from Cons.prems obtain m ms' where ms: "ms = m # ms'" "milli_celsius (smp_temperature x) = Some m"
    and rest: "validate_loop (ns @ '':'') (sample_id x # ids) xs = Inr ms'"
    and c: "HasPrefix (sample_id x) (ns @ '':'')" "length (sample_id x) \<noteq> length (ns @ '':'')"
      "length (sample_id x) \<le> maxHWMonIDSize" "chr 0 \<notin> set (sample_id x)" "sample_id x \<notin> set ids"
      "published_label_ok (hs_label (smp_sensor x))"
    by (auto simp: Let_def published_label_ok_def not_le split: if_splits option.splits sum.splits)
  have "id_ok ns (sample_id x)"
    using c maxHWMonIDSize_kernel by (auto simp: id_ok_def HasPrefix_iff)
  then show ?case using Cons.IH [OF rest] ms c by (auto simp: sample_valid_def)
qed simp

lemma validate_ok:
  assumes "validateHWMonSamples ns xs = Inr ms"
  shows "list_all2 (sample_valid ns) xs ms" "distinct (map sample_id xs)" "ns = ''disk'' \<or> ns = ''hba''"
    "length xs \<le> maxHWMonSensors"
  using assms validate_loop_ok [of ns "[]" xs ms] by (auto simp: validateHWMonSamples_def split: if_splits)

lemma key_decodes: "id_ok ns sid \<Longrightarrow> decode_sensor_id ns (hwmonSensorKey ns sid) = Inr sid"
  by (auto simp: id_ok_def hwmonSensorKey_def decode_hex)

subsection \<open>Effects of the loops\<close>

definition changes_within :: "string set \<Rightarrow> virt_temp \<Rightarrow> virt_temp \<Rightarrow> bool" where
  "changes_within A vt vt' = (vt_ok vt' \<and> (\<forall>y. y \<notin> A \<longrightarrow> sensor_of vt' y = sensor_of vt y) \<and>
    vt_jiffies vt' = vt_jiffies vt \<and> vt_HZ vt' = vt_HZ vt \<and> vt_stale_timeout vt' = vt_stale_timeout vt)"

lemma changes_within_refl [intro]: "vt_ok vt \<Longrightarrow> changes_within A vt vt"
  by (simp add: changes_within_def)

lemma changes_within_only: "changes_only sid vt vt' \<Longrightarrow> sid \<in> A \<Longrightarrow> changes_within A vt vt'"
  by (auto simp: changes_within_def changes_only_def)

lemma changes_within_trans: "changes_within A u v \<Longrightarrow> changes_within B v w \<Longrightarrow> A \<subseteq> C \<Longrightarrow> B \<subseteq> C \<Longrightarrow> changes_within C u w"
  unfolding changes_within_def by (metis subsetD)

lemma changes_within_mono: "changes_within A u v \<Longrightarrow> A \<subseteq> B \<Longrightarrow> changes_within B u v"
  unfolding changes_within_def by blast

lemma changes_within_ok: "changes_within A u v \<Longrightarrow> vt_ok v"
  by (simp add: changes_within_def)

lemma changes_within_jiffies: "changes_within A u v \<Longrightarrow> vt_jiffies v = vt_jiffies u"
  by (simp add: changes_within_def)

definition sensor_shows :: "string \<Rightarrow> hwmonSample \<Rightarrow> int \<Rightarrow> nat \<Rightarrow> virt_sensor \<Rightarrow> bool" where
  "sensor_shows ns x m j s = (vs_name s = hwmonSensorKey ns (sample_id x) \<and>
    vs_label s = kernel_label (hs_label (smp_sensor x)) \<and> vs_hwmon s \<and> vs_temperature s = m \<and> vs_last_update s = j)"

text \<open>One round of the loop that creates the sensors.\<close>

definition create_one :: "string \<Rightarrow> hwmonSample \<Rightarrow> int \<Rightarrow> hwmon_kernel \<Rightarrow> go_error option \<times> hwmon_kernel" where
  "create_one ns x m k =
    (case create_sensors ns [] [(x, m)] k of (r, k') \<Rightarrow> (result_err r, k'))"

lemma create_sensors_Cons:
  "create_sensors ns desired ((x, m) # xs) k =
    (case create_one ns x m k of
       (Some e, k1) \<Rightarrow> (Inl e, k1)
     | (None, k1) \<Rightarrow> create_sensors ns (desired @ [hwmonSensorKey ns (sample_id x)]) xs k1)"
  by (auto simp: create_one_def Let_def split: prod.split option.split)

lemma create_one_effect:
  assumes "create_one ns x m k = (err, k')" "vt_ok (hk_vt k)" "id_ok ns (sample_id x)" "int64_range m"
  shows "changes_within {sample_id x} (hk_vt k) (hk_vt k')"
    and "err = None \<Longrightarrow> \<exists>s. sensor_of (hk_vt k') (sample_id x) = Some s \<and> sensor_shows ns x m (vt_jiffies (hk_vt k)) s"
proof -
  let ?sid = "sample_id x" and ?key = "hwmonSensorKey ns (sample_id x)"
  note dec = key_decodes [OF assms(3)]
  obtain err1 k1 where c1: "kernel_call (\<lambda>_. make_sensor ns ?key) k = (err1, k1)"
    by (cases "kernel_call (\<lambda>_. make_sensor ns ?key) k")
  obtain err2 k2 where c2: "writeKernelAttribute (hwmonTemperatureDevicePath ?sid) (FormatInt m) k1 = (err2, k2)"
    by (cases "writeKernelAttribute (hwmonTemperatureDevicePath ?sid) (FormatInt m) k1")
  obtain err3 k3 where c3: "writeKernelAttribute (LabelFile ns ?key) (hs_label (smp_sensor x)) k2 = (err3, k3)"
    by (cases "writeKernelAttribute (LabelFile ns ?key) (hs_label (smp_sensor x)) k2")
  have s1: "changes_only ?sid (hk_vt k) (hk_vt k1)"
    by (rule kernel_call_cases [OF c1]) (use assms(2) dec in \<open>auto intro: changes_only_refl make_sensor_only(1)\<close>)
  then have o1: "vt_ok (hk_vt k1)" by (simp add: changes_only_def)
  note t = write_temperature [OF c2 o1 assms(4)]
  have o2: "vt_ok (hk_vt k2)" using t(1) by (simp add: changes_only_def)
  note l = write_label [OF c3 o2 dec]
  have s2: "changes_only ?sid (hk_vt k) (hk_vt k2)" using s1 t(1) by (rule changes_only_trans)
  have s3: "changes_only ?sid (hk_vt k) (hk_vt k3)" using s2 l(1) by (rule changes_only_trans)
  have r: "(err, k') \<in> {(Some (Errorf_w (''create hwmon sensor '' @ quote ?sid @ '': '') (the err1) []), k1),
      (Some (Errorf_w (''initialize hwmon sensor '' @ quote ?sid @ '': '') (the err2) []), k2),
      (Some (Errorf_w (''label hwmon sensor '' @ quote ?sid @ '': '') (the err3) []), k3)} \<or>
      err = None \<and> k' = k3 \<and> err2 = None \<and> err3 = None"
    using assms(1) c1 c2 c3 by (auto simp: create_one_def Let_def split: if_splits option.splits)
  then show "changes_within {?sid} (hk_vt k) (hk_vt k')"
    using s1 s2 s3 by (auto intro: changes_within_only)
  assume "err = None"
  then have e: "k' = k3" "err2 = None" "err3 = None" using r by auto
  have j: "vt_jiffies (hk_vt k1) = vt_jiffies (hk_vt k)" using s1 by (simp add: changes_only_def)
  obtain s where "sensor_of (hk_vt k2) ?sid = Some (with_temperature m (vt_jiffies (hk_vt k)) s)"
    using t(2) [OF e(2)] j by auto
  with l(2) [OF e(3)] e(1)
  show "\<exists>s. sensor_of (hk_vt k') ?sid = Some s \<and> sensor_shows ns x m (vt_jiffies (hk_vt k)) s"
    by (auto simp: sensor_shows_def with_label_def with_temperature_def)
qed

lemma create_sensors_effect:
  assumes "create_sensors ns desired xs k = (res, k')" "vt_ok (hk_vt k)"
    "\<forall>(x, m) \<in> set xs. id_ok ns (sample_id x) \<and> int64_range m" "distinct (map (\<lambda>p. sample_id (fst p)) xs)"
  shows "changes_within (set (map (\<lambda>p. sample_id (fst p)) xs)) (hk_vt k) (hk_vt k') \<and>
    (\<forall>d. res = Inr d \<longrightarrow> d = desired @ map (\<lambda>p. hwmonSensorKey ns (sample_id (fst p))) xs \<and>
      (\<forall>(x, m) \<in> set xs. \<exists>s. sensor_of (hk_vt k') (sample_id x) = Some s \<and> sensor_shows ns x m (vt_jiffies (hk_vt k)) s))"
  using assms
proof (induction xs arbitrary: desired k)
  case Nil
  then show ?case by auto
next
  case (Cons p xs)
  obtain x m where p: "p = (x, m)" by (cases p)
  obtain err k1 where c: "create_one ns x m k = (err, k1)" by (cases "create_one ns x m k")
  have x: "id_ok ns (sample_id x)" "int64_range m" using Cons.prems(3) p by auto
  note one = create_one_effect [OF c Cons.prems(2) x]
  show ?case
  proof (cases err)
    case (Some e)
    then have "res = Inl e" "k' = k1" using Cons.prems(1) p c by (auto simp: create_sensors_Cons simp del: create_sensors.simps)
    then show ?thesis using one(1) p by (auto simp: changes_within_def)
  next
    case None
    let ?d = "desired @ [hwmonSensorKey ns (sample_id x)]" and ?A = "set (map (\<lambda>p. sample_id (fst p)) xs)"
    have rec: "create_sensors ns ?d xs k1 = (res, k')"
      using Cons.prems(1) p c None by (simp add: create_sensors_Cons del: create_sensors.simps)
    have d: "distinct (map (\<lambda>p. sample_id (fst p)) xs)" "sample_id x \<notin> ?A" using Cons.prems(4) p by auto
    have "\<forall>(x, m) \<in> set xs. id_ok ns (sample_id x) \<and> int64_range m" using Cons.prems(3) by simp
    note IH = Cons.IH [OF rec changes_within_ok [OF one(1)] this d(1)]
    obtain s where s: "sensor_of (hk_vt k1) (sample_id x) = Some s" "sensor_shows ns x m (vt_jiffies (hk_vt k)) s"
      using one(2) [OF None] by blast
    have "sensor_of (hk_vt k') (sample_id x) = Some s" using IH d(2) s(1) by (simp add: changes_within_def)
    then show ?thesis
      using IH one(1) s(2) p changes_within_jiffies [OF one(1)]
      by (auto intro: changes_within_trans [of "{sample_id x}" _ _ ?A])
  qed
qed

lemma drop_sensor_of:
  assumes "drop_sensor family name vt = (None, vt')" "vt_ok vt"
  shows "vt_ok vt'" "sensor_of vt' y = (case sensor_of vt y of None \<Rightarrow> None
      | Some s \<Rightarrow> if vs_family s = family \<and> vs_name s = name then None else Some s)"
    "vt_jiffies vt' = vt_jiffies vt" "vt_HZ vt' = vt_HZ vt" "vt_stale_timeout vt' = vt_stale_timeout vt"
proof -
  have v: "vt' = vt\<lparr>vt_sensors := filter (\<lambda>s. \<not> (vs_family s = family \<and> vs_name s = name)) (vt_sensors vt)\<rparr>"
    using assms(1) by (auto simp: drop_sensor_def split: if_splits)
  then show ok: "vt_ok vt'" using assms(2) by (auto simp: vt_ok_def list_all_iff distinct_map_filter)
  show "vt_jiffies vt' = vt_jiffies vt" "vt_HZ vt' = vt_HZ vt" "vt_stale_timeout vt' = vt_stale_timeout vt"
    using v by simp_all
  have m: "s \<in> set (vt_sensors vt') \<longleftrightarrow> s \<in> set (vt_sensors vt) \<and> \<not> (vs_family s = family \<and> vs_name s = name)" for s
    using v by auto
  show "sensor_of vt' y = (case sensor_of vt y of None \<Rightarrow> None
      | Some s \<Rightarrow> if vs_family s = family \<and> vs_name s = name then None else Some s)"
  proof (cases "sensor_of vt y")
    case None
    then have "sensor_of vt' y = None" using m unfolding sensor_of_None by blast
    then show ?thesis using None by simp
  next
    case (Some s)
    then have s: "s \<in> set (vt_sensors vt)" "vs_id s = y"
      using sensor_of_iff [OF assms(2), of y] by auto
    have u: "\<And>t. t \<in> set (vt_sensors vt) \<Longrightarrow> vs_id t = y \<Longrightarrow> t = s"
      using sensor_of_iff [OF assms(2), of y] Some by (metis option.inject)
    have "sensor_of vt' y = (if vs_family s = family \<and> vs_name s = name then None else Some s)"
    proof (cases "vs_family s = family \<and> vs_name s = name")
      case True
      then have "sensor_of vt' y = None" unfolding sensor_of_None using m u by blast
      then show ?thesis using True by simp
    next
      case False
      then have "sensor_of vt' y = Some s" unfolding sensor_of_iff [OF ok] using m s by blast
      then show ?thesis using False by simp
    qed
    then show ?thesis using Some by simp
  qed
qed

text \<open>Removal takes away sensors of the family that are not desired, and nothing else.\<close>

definition shrinks :: "string \<Rightarrow> string list \<Rightarrow> virt_temp \<Rightarrow> virt_temp \<Rightarrow> bool" where
  "shrinks ns desired vt vt' = (vt_ok vt' \<and> vt_jiffies vt' = vt_jiffies vt \<and> vt_HZ vt' = vt_HZ vt \<and>
    vt_stale_timeout vt' = vt_stale_timeout vt \<and>
    (\<forall>y. sensor_of vt' y = sensor_of vt y \<or>
      sensor_of vt' y = None \<and> (\<exists>s. sensor_of vt y = Some s \<and> vs_family s = ns \<and> vs_name s \<notin> set desired)))"

lemma remove_stale_effect:
  assumes "remove_stale ns desired names k = (err, k')" "vt_ok (hk_vt k)"
  shows "shrinks ns desired (hk_vt k) (hk_vt k') \<and>
    (err = None \<longrightarrow> (\<forall>y s. sensor_of (hk_vt k') y = Some s \<and> vs_family s = ns \<and> vs_name s \<in> set names \<longrightarrow> vs_name s \<in> set desired))"
  using assms
proof (induction names arbitrary: k)
  case (Cons name names)
  show ?case
  proof (cases "name \<in> set desired")
    case True
    then show ?thesis using Cons.IH [of k] Cons.prems by auto
  next
    case False
    obtain derr k1 where c: "kernel_call (\<lambda>_. drop_sensor ns name) k = (derr, k1)"
      by (cases "kernel_call (\<lambda>_. drop_sensor ns name) k")
    show ?thesis
    proof (cases derr)
      case (Some e)
      have "hk_vt k1 = hk_vt k"
        by (rule kernel_call_cases [OF c]) (use Some in \<open>auto simp: drop_sensor_def split: if_splits\<close>)
      moreover have "k' = k1" "err \<noteq> None" using Cons.prems(1) False c Some by auto
      ultimately show ?thesis using Cons.prems(2) by (auto simp: shrinks_def)
    next
      case None
      have d: "drop_sensor ns name (hk_vt k) = (None, hk_vt k1)"
        by (rule kernel_call_cases [OF c]) (use None in auto)
      note drop = drop_sensor_of [OF d Cons.prems(2)]
      have "remove_stale ns desired names k1 = (err, k')" using Cons.prems(1) False c None by simp
      note IH = Cons.IH [OF this drop(1)]
      have "sensor_of (hk_vt k1) y = Some s \<Longrightarrow> \<not> (vs_family s = ns \<and> vs_name s = name)" for y s
        using drop(2) [of y] by (auto split: option.splits if_splits)
      moreover have "sensor_of (hk_vt k1) y = sensor_of (hk_vt k) y \<or>
          sensor_of (hk_vt k1) y = None \<and> (\<exists>s. sensor_of (hk_vt k) y = Some s \<and> vs_family s = ns \<and> vs_name s \<notin> set desired)" for y
        using drop(2) [of y] False by (auto split: option.splits if_splits)
      ultimately show ?thesis
        using IH drop(3-5) unfolding shrinks_def by (metis set_ConsD option.distinct(1))
    qed
  qed
qed (simp add: shrinks_def)

abbreviation family_ids :: "string \<Rightarrow> string set" where
  "family_ids ns \<equiv> {y. HasPrefix y (ns @ '':'')}"

lemma shrinks_within:
  assumes "shrinks ns desired vt vt'" "vt_ok vt" "ns = ''disk'' \<or> ns = ''hba''"
  shows "changes_within (family_ids ns) vt vt'"
proof -
  have "sensor_of vt' y = sensor_of vt y" if y: "\<not> HasPrefix y (ns @ '':'')" for y
  proof (rule ccontr)
    assume "sensor_of vt' y \<noteq> sensor_of vt y"
    then obtain s where "sensor_of vt y = Some s" "vs_family s = ns" using assms(1) by (auto simp: shrinks_def)
    then have "s \<in> set (vt_sensors vt)" "vs_id s = y" "vs_family s = ns" using sensor_of_iff [OF assms(2)] by simp_all
    then show False using vt_ok_family [OF assms(2) _ assms(3)] y by blast
  qed
  then show ?thesis using assms(1) by (simp add: changes_within_def shrinks_def)
qed

lemma valid_pairs:
  assumes "validateHWMonSamples ns xs = Inr ms"
  shows "\<forall>(x, m) \<in> set (zip xs ms). id_ok ns (sample_id x) \<and> int64_range m" "length ms = length xs"
    "map (\<lambda>p. sample_id (fst p)) (zip xs ms) = map sample_id xs" "set (map sample_id xs) \<subseteq> family_ids ns"
    "\<forall>x \<in> set xs. id_ok ns (sample_id x)"
proof -
  note v = validate_ok [OF assms]
  show "\<forall>(x, m) \<in> set (zip xs ms). id_ok ns (sample_id x) \<and> int64_range m"
    using v(1) by (auto simp: list_all2_iff sample_valid_def dest: milli_celsius_range)
  show l: "length ms = length xs" using v(1) by (simp add: list_all2_iff)
  have "map (\<lambda>p. sample_id (fst p)) (zip xs ms) = map sample_id (map fst (zip xs ms))" by simp
  also have "\<dots> = map sample_id xs" using l by simp
  finally show "map (\<lambda>p. sample_id (fst p)) (zip xs ms) = map sample_id xs" .
  show "\<forall>x \<in> set xs. id_ok ns (sample_id x)"
    using v(1) by (simp add: list_all2_conv_all_nth sample_valid_def all_set_conv_all_nth)
  then show "set (map sample_id xs) \<subseteq> family_ids ns" by (fastforce simp: id_ok_def HasPrefix_iff)
qed

text \<open>A successful reconciliation leaves exactly the samples in the family.\<close>

lemma reconcile_effect:
  assumes "reconcileHWMonFamily ns xs ms k = (err, k')" "vt_ok (hk_vt k)" "validateHWMonSamples ns xs = Inr ms"
  shows "changes_within (family_ids ns) (hk_vt k) (hk_vt k')"
    and "err = None \<Longrightarrow> (x, m) \<in> set (zip xs ms) \<Longrightarrow>
      \<exists>s. sensor_of (hk_vt k') (sample_id x) = Some s \<and> sensor_shows ns x m (vt_jiffies (hk_vt k)) s"
    and "err = None \<Longrightarrow> sensor_of (hk_vt k') y = Some s \<Longrightarrow> vs_family s = ns \<Longrightarrow> y \<in> set (map sample_id xs)"
proof -
  note v = validate_ok [OF assms(3)] and p = valid_pairs [OF assms(3)]
  obtain res k1 where c: "create_sensors ns [] (zip xs ms) k = (res, k1)" by (cases "create_sensors ns [] (zip xs ms) k")
  have "distinct (map (\<lambda>p. sample_id (fst p)) (zip xs ms))" using v(2) p(3) by simp
  note cr = create_sensors_effect [OF c assms(2) p(1) this]
  have w1: "changes_within (family_ids ns) (hk_vt k) (hk_vt k1)"
    using cr p(4) unfolding p(3) by (blast intro: changes_within_mono)
  obtain rerr k2 where r: "kernel_call (\<lambda>_ vt. (None, vt)) k1 = (rerr, k2)"
    by (cases "kernel_call (\<lambda>_ vt. (None :: go_error option, vt)) k1")
  have k2: "hk_vt k2 = hk_vt k1" by (rule kernel_call_cases [OF r]) auto
  define names where "names = family_names ns (hk_vt k2)"
  show w: "changes_within (family_ids ns) (hk_vt k) (hk_vt k')"
  proof -
    have "(\<exists>d. res = Inr d \<and> remove_stale ns d names k2 = (err, k')) \<or> k' = k1 \<or> k' = k2"
      using assms(1) c r by (auto simp: reconcileHWMonFamily_def names_def split: sum.splits option.splits)
    moreover have "changes_within (family_ids ns) (hk_vt k1) (hk_vt k')" if "remove_stale ns d names k2 = (err, k')" for d
      using remove_stale_effect [OF that] k2 shrinks_within [OF _ _ v(3)] changes_within_ok [OF w1] by simp blast
    ultimately show ?thesis
      using w1 k2 changes_within_trans [OF w1 _ subset_refl subset_refl] by auto
  qed
  assume err: "err = None"
  then obtain d where d: "res = Inr d" and rs: "remove_stale ns d names k2 = (None, k')"
    using assms(1) c r by (auto simp: reconcileHWMonFamily_def names_def split: sum.splits option.splits)
  have dk: "d = map (\<lambda>x. hwmonSensorKey ns (sample_id x)) xs"
  proof -
    have "map (\<lambda>p. hwmonSensorKey ns (sample_id (fst p))) (zip xs ms) = map (\<lambda>x. hwmonSensorKey ns (sample_id x)) (map fst (zip xs ms))"
      by simp
    then show ?thesis using cr d p(2) by simp
  qed
  have o2: "vt_ok (hk_vt k2)" using changes_within_ok [OF w1] k2 by simp
  note rem = remove_stale_effect [OF rs o2]
  show "(x, m) \<in> set (zip xs ms) \<Longrightarrow>
      \<exists>s. sensor_of (hk_vt k') (sample_id x) = Some s \<and> sensor_shows ns x m (vt_jiffies (hk_vt k)) s"
  proof -
    assume x: "(x, m) \<in> set (zip xs ms)"
    then obtain s where s: "sensor_of (hk_vt k1) (sample_id x) = Some s" "sensor_shows ns x m (vt_jiffies (hk_vt k)) s"
      using cr d by blast
    have "vs_name s \<in> set d" using s(2) x by (auto simp: dk sensor_shows_def dest: set_zip_leftD)
    then have "sensor_of (hk_vt k') (sample_id x) = Some s"
      using rem s(1) k2 unfolding shrinks_def by (metis option.inject)
    then show ?thesis using s(2) by blast
  qed
  assume s: "sensor_of (hk_vt k') y = Some s" "vs_family s = ns"
  then have s1: "sensor_of (hk_vt k1) y = Some s" using rem k2 by (metis shrinks_def option.distinct(1))
  have o1: "vt_ok (hk_vt k1)" using o2 k2 by simp
  have "vs_name s \<in> set names"
    using s1 s(2) k2 o1 by (auto simp: names_def family_names_def sensor_of_iff)
  then have "vs_name s \<in> set d" using rem s by blast
  then obtain x where x: "x \<in> set xs" "vs_name s = hwmonSensorKey ns (sample_id x)" by (auto simp: dk)
  have "id_ok ns (sample_id x)" using p(5) x(1) by blast
  then have "vs_id s = sample_id x"
    using key_decodes x(2) s(2) s1 vt_ok_id [OF o1] o1 by (fastforce simp: sensor_of_iff)
  moreover have "vs_id s = y" using s1 o1 by (simp add: sensor_of_iff)
  ultimately show "y \<in> set (map sample_id xs)" using x(1) by simp
qed


subsection \<open>Refreshing temperatures\<close>

text \<open>What a refresh of temperatures leaves alone.\<close>

definition sensor_config :: "virt_sensor \<Rightarrow> string \<times> string \<times> string \<times> bool" where
  "sensor_config s = (vs_family s, vs_name s, vs_label s, vs_hwmon s)"

lemma sensor_config_temperature [simp]: "sensor_config (with_temperature m j s) = sensor_config s"
  by (simp add: sensor_config_def with_temperature_def)

definition refreshed :: "hwmonSample \<Rightarrow> int \<Rightarrow> nat \<Rightarrow> virt_sensor \<Rightarrow> virt_sensor" where
  "refreshed x m j s = (if smp_skipRefresh x then s else with_temperature m j s)"

lemma refresh_one:
  assumes "(if smp_skipRefresh x then kernel_call (path_open (hwmonTemperatureDevicePath (sample_id x))) k
      else writeKernelAttribute (hwmonTemperatureDevicePath (sample_id x)) (FormatInt m) k) = (err, k')"
    and "vt_ok (hk_vt k)" "int64_range m"
  shows "changes_within {sample_id x} (hk_vt k) (hk_vt k')"
    and "map_option sensor_config (sensor_of (hk_vt k') y) = map_option sensor_config (sensor_of (hk_vt k) y)"
    and "err = None \<Longrightarrow> \<exists>s. sensor_of (hk_vt k) (sample_id x) = Some s \<and>
      sensor_of (hk_vt k') (sample_id x) = Some (refreshed x m (vt_jiffies (hk_vt k)) s)"
proof -
  let ?sid = "sample_id x"
  have "changes_only ?sid (hk_vt k) (hk_vt k') \<and>
    map_option sensor_config (sensor_of (hk_vt k') ?sid) = map_option sensor_config (sensor_of (hk_vt k) ?sid) \<and>
    (err = None \<longrightarrow> (\<exists>s. sensor_of (hk_vt k) ?sid = Some s \<and>
      sensor_of (hk_vt k') ?sid = Some (refreshed x m (vt_jiffies (hk_vt k)) s)))"
  proof (cases "smp_skipRefresh x")
    case True
    then have c: "kernel_call (path_open (hwmonTemperatureDevicePath ?sid)) k = (err, k')" using assms(1) by simp
    have v: "hk_vt k' = hk_vt k" by (rule kernel_call_cases [OF c]) (auto simp: path_open_def)
    have "err = None \<Longrightarrow> path_exists (hwmonTemperatureDevicePath ?sid) (hk_vt k)"
      by (rule kernel_call_cases [OF c]) (auto simp: path_open_def split: if_splits)
    then have "err = None \<Longrightarrow> sensor_of (hk_vt k) ?sid \<noteq> None"
      by (auto simp: hwmonTemperatureDevicePath_def list_ex_iff hex_EncodeToString_inj sensor_of_None)
    then show ?thesis using v True assms(2) by (auto simp: refreshed_def intro: changes_only_refl)
  next
    case False
    then have w: "writeKernelAttribute (hwmonTemperatureDevicePath ?sid) (FormatInt m) k = (err, k')" using assms(1) by simp
    note t = write_temperature [OF w assms(2,3)]
    have "map_option sensor_config (sensor_of (hk_vt k') ?sid) = map_option sensor_config (sensor_of (hk_vt k) ?sid)"
      using t(3) by (auto simp: option.map_comp comp_def)
    then show ?thesis using t(1,2) False by (auto simp: refreshed_def)
  qed
  note eff = this
  then show "changes_within {?sid} (hk_vt k) (hk_vt k')" by (auto intro: changes_within_only)
  show "map_option sensor_config (sensor_of (hk_vt k') y) = map_option sensor_config (sensor_of (hk_vt k) y)"
    using eff by (cases "y = ?sid") (simp_all add: changes_only_def)
  show "err = None \<Longrightarrow> \<exists>s. sensor_of (hk_vt k) (sample_id x) = Some s \<and>
      sensor_of (hk_vt k') (sample_id x) = Some (refreshed x m (vt_jiffies (hk_vt k)) s)"
    using eff by blast
qed

lemma update_Cons:
  "updateHWMonFamily ((x, m) # xs) k =
    (case (if smp_skipRefresh x then kernel_call (path_open (hwmonTemperatureDevicePath (sample_id x))) k
        else writeKernelAttribute (hwmonTemperatureDevicePath (sample_id x)) (FormatInt m) k) of
       (Some e, k1) \<Rightarrow> (Some (Errorf_w ((if smp_skipRefresh x then ''check'' else ''update'') @ '' hwmon sensor '' @
          quote (sample_id x) @ '': '') e []), k1)
     | (None, k1) \<Rightarrow> updateHWMonFamily xs k1)"
  by (auto simp: Let_def split: option.splits prod.splits)

lemma update_effect:
  assumes "updateHWMonFamily xs k = (err, k')" "vt_ok (hk_vt k)" "\<forall>(x, m) \<in> set xs. int64_range m"
    "distinct (map (\<lambda>p. sample_id (fst p)) xs)"
  shows "changes_within (set (map (\<lambda>p. sample_id (fst p)) xs)) (hk_vt k) (hk_vt k') \<and>
    (\<forall>y. map_option sensor_config (sensor_of (hk_vt k') y) = map_option sensor_config (sensor_of (hk_vt k) y)) \<and>
    (err = None \<longrightarrow> (\<forall>(x, m) \<in> set xs. \<exists>s. sensor_of (hk_vt k) (sample_id x) = Some s \<and>
      sensor_of (hk_vt k') (sample_id x) = Some (refreshed x m (vt_jiffies (hk_vt k)) s)))"
  using assms
proof (induction xs arbitrary: k)
  case Nil
  then show ?case by auto
next
  case (Cons p xs)
  obtain x m where p: "p = (x, m)" by (cases p)
  define r where "r = (if smp_skipRefresh x then kernel_call (path_open (hwmonTemperatureDevicePath (sample_id x))) k
      else writeKernelAttribute (hwmonTemperatureDevicePath (sample_id x)) (FormatInt m) k)"
  obtain e1 k1 where c: "r = (e1, k1)" by (cases r)
  have m: "int64_range m" using Cons.prems(3) p by auto
  note one = refresh_one [OF c [unfolded r_def] Cons.prems(2) m]
  let ?A = "set (map (\<lambda>p. sample_id (fst p)) xs)"
  show ?case
  proof (cases e1)
    case (Some e)
    then have "err \<noteq> None" "k' = k1"
      using Cons.prems(1) c by (auto simp: p update_Cons r_def [symmetric] simp del: updateHWMonFamily.simps)
    then show ?thesis using one(1,2) p by (auto intro: changes_within_mono)
  next
    case None
    have rec: "updateHWMonFamily xs k1 = (err, k')"
      using Cons.prems(1) c None by (simp add: p update_Cons r_def [symmetric] del: updateHWMonFamily.simps)
    have d: "distinct (map (\<lambda>p. sample_id (fst p)) xs)" "sample_id x \<notin> ?A" using Cons.prems(4) p by auto
    have "\<forall>(x, m) \<in> set xs. int64_range m" using Cons.prems(3) by simp
    note IH = Cons.IH [OF rec changes_within_ok [OF one(1)] this d(1)]
    have same: "sensor_of (hk_vt k') (sample_id x) = sensor_of (hk_vt k1) (sample_id x)"
      using IH d(2) by (simp add: changes_within_def)
    have old: "sensor_of (hk_vt k1) y = sensor_of (hk_vt k) y" if "y \<in> ?A" for y
      using one(1) d(2) that unfolding changes_within_def by (metis singletonD)
    have "changes_within (set (map (\<lambda>p. sample_id (fst p)) (p # xs))) (hk_vt k) (hk_vt k')"
      using IH p by (intro changes_within_trans [OF one(1), of ?A]) auto
    moreover have "\<exists>s. sensor_of (hk_vt k) (sample_id z) = Some s \<and>
        sensor_of (hk_vt k') (sample_id z) = Some (refreshed z n (vt_jiffies (hk_vt k)) s)"
      if "err = None" "(z, n) \<in> set (p # xs)" for z n
    proof (cases "(z, n) \<in> set xs")
      case True
      then have "sample_id z \<in> ?A" by force
      then show ?thesis using IH that(1) True old changes_within_jiffies [OF one(1)] by fastforce
    next
      case False
      then show ?thesis using one(3) [OF None] same that(2) p by simp
    qed
    ultimately show ?thesis using IH one(2) by auto
  qed
qed

end
