(* ===== verification/Hwmon_Publish.thy ===== *)
theory Hwmon_Publish
  imports Hwmon_Device
begin

text \<open>
  What publication guarantees (\<^verbatim>\<open>publishHWMonFamily\<close>): after a success the kernel shows exactly
  the samples, whatever had happened before; the record of what the kernel holds stays true
  whatever calls fail; and as soon as the kernel works, publication succeeds again.
\<close>

subsection \<open>Publication\<close>

text \<open>
  What the record promises: unless a reconciliation is pending, every sensor of the family is one
  of the recorded topology, registered with its label. Sensors may be missing, because the module
  was reloaded or a directory was removed behind the program's back.
\<close>

definition record_ok :: "string \<Rightarrow> hwmonInventory \<Rightarrow> virt_temp \<Rightarrow> bool" where
  "record_ok ns inventory vt = (case inv_sensors inventory of None \<Rightarrow> True | Some ss \<Rightarrow> distinct (map hs_id ss) \<and>
    (inv_needsReconcile inventory \<or> (\<forall>y s. sensor_of vt y = Some s \<and> vs_family s = ns \<longrightarrow>
      (\<exists>x \<in> set ss. hs_id x = y \<and> vs_label s = kernel_label (hs_label x) \<and> vs_hwmon s))))"

definition family_shows :: "string \<Rightarrow> hwmonSample list \<Rightarrow> virt_temp \<Rightarrow> bool" where
  "family_shows ns xs vt = ((\<forall>y s. sensor_of vt y = Some s \<and> vs_family s = ns \<longrightarrow> y \<in> set (map sample_id xs)) \<and>
    (\<forall>x \<in> set xs. \<exists>s. sensor_of vt (sample_id x) = Some s \<and> vs_family s = ns \<and>
      vs_label s = kernel_label (hs_label (smp_sensor x)) \<and> vs_hwmon s))"

lemma publish_cases:
  assumes "publishHWMonFamily ns xs inventory k = (r, inventory', k')"
  obtains
    (invalid) e where "validateHWMonSamples ns xs = Inl e" "r = Inl e" "inventory' = inventory" "k' = k"
  | (updated) ms where "validateHWMonSamples ns xs = Inr ms" "r = Inr False" "inventory' = inventory"
      "updateHWMonFamily (zip xs ms) k = (None, k')"
      "\<not> inv_needsReconcile inventory" "inv_sensors inventory \<noteq> None" "sameHWMonConfiguration (the (inv_sensors inventory)) xs"
  | (failed) ms e where "validateHWMonSamples ns xs = Inr ms" "r = Inl e" "inventory' = inventory"
      "updateHWMonFamily (zip xs ms) k = (Some e, k')"
  | (reconciled) ms k1 err e1 where "validateHWMonSamples ns xs = Inr ms"
      "k1 = k \<or> updateHWMonFamily (zip xs ms) k = (Some e1, k1)"
      "reconcileHWMonFamily ns xs ms k1 = (err, k')"
      "if err = None then r = Inr True \<and> inventory' = \<lparr>inv_sensors = Some (sensorsFromSamples xs), inv_needsReconcile = False\<rparr>
       else (\<exists>e. r = Inl e) \<and> inventory' = inventory\<lparr>inv_needsReconcile := True\<rparr>"
proof (cases "validateHWMonSamples ns xs")
  case (Inl e)
  then show ?thesis using assms invalid by (simp add: publishHWMonFamily_def)
next
  case (Inr ms)
  let ?now = "inv_needsReconcile inventory \<or> inv_sensors inventory = None \<or>
    \<not> sameHWMonConfiguration (the (inv_sensors inventory)) xs"
  obtain uerr ku where u: "updateHWMonFamily (zip xs ms) k = (uerr, ku)" by (cases "updateHWMonFamily (zip xs ms) k")
  define k1 where "k1 = (if ?now then k else ku)"
  obtain rerr k2 where rec: "reconcileHWMonFamily ns xs ms k1 = (rerr, k2)" by (cases "reconcileHWMonFamily ns xs ms k1")
  show ?thesis
  proof (cases ?now)
    case True
    then show ?thesis
      using assms Inr u rec reconciled [OF Inr, of k1 undefined rerr]
      by (auto simp: publishHWMonFamily_def Let_def k1_def split: option.splits if_splits)
  next
    case False
    show ?thesis
    proof (cases uerr)
      case None
      then show ?thesis using assms Inr u False updated [OF Inr] by (auto simp: publishHWMonFamily_def Let_def)
    next
      case (Some e)
      then show ?thesis
        using assms Inr u rec False failed [OF Inr] reconciled [OF Inr, of k1 e rerr]
        by (auto simp: publishHWMonFamily_def Let_def k1_def split: option.splits if_splits)
    qed
  qed
qed

lemma valid_update:
  assumes "validateHWMonSamples ns xs = Inr ms" "updateHWMonFamily (zip xs ms) k = (err, k')" "vt_ok (hk_vt k)"
  shows "changes_within (family_ids ns) (hk_vt k) (hk_vt k')"
    and "map_option sensor_config (sensor_of (hk_vt k') y) = map_option sensor_config (sensor_of (hk_vt k) y)"
    and "err = None \<Longrightarrow> (x, m) \<in> set (zip xs ms) \<Longrightarrow> \<exists>s. sensor_of (hk_vt k) (sample_id x) = Some s \<and>
      sensor_of (hk_vt k') (sample_id x) = Some (refreshed x m (vt_jiffies (hk_vt k)) s)"
proof -
  note v = validate_ok [OF assms(1)] and p = valid_pairs [OF assms(1)]
  have "\<forall>(x, m) \<in> set (zip xs ms). int64_range m" "distinct (map (\<lambda>p. sample_id (fst p)) (zip xs ms))"
    using p v(2) by auto
  note u = update_effect [OF assms(2,3) this]
  show "changes_within (family_ids ns) (hk_vt k) (hk_vt k')"
    using u p(4) unfolding p(3) by (blast intro: changes_within_mono)
  show "map_option sensor_config (sensor_of (hk_vt k') y) = map_option sensor_config (sensor_of (hk_vt k) y)"
    using u by blast
  show "err = None \<Longrightarrow> (x, m) \<in> set (zip xs ms) \<Longrightarrow> \<exists>s. sensor_of (hk_vt k) (sample_id x) = Some s \<and>
      sensor_of (hk_vt k') (sample_id x) = Some (refreshed x m (vt_jiffies (hk_vt k)) s)"
    using u by blast
qed

lemma publish_frame:
  assumes "publishHWMonFamily ns xs inventory k = (r, inventory', k')" "vt_ok (hk_vt k)"
  shows "changes_within (family_ids ns) (hk_vt k) (hk_vt k')"
proof (rule publish_cases [OF assms(1)])
  fix ms k1 err e1
  assume a: "validateHWMonSamples ns xs = Inr ms" "k1 = k \<or> updateHWMonFamily (zip xs ms) k = (Some e1, k1)"
    "reconcileHWMonFamily ns xs ms k1 = (err, k')"
  then have w: "changes_within (family_ids ns) (hk_vt k) (hk_vt k1)" using assms(2) valid_update(1) [OF a(1)] by blast
  then show ?thesis
    using reconcile_effect(1) [OF a(3) changes_within_ok [OF w] a(1)] by (blast intro: changes_within_trans)
qed (use assms(2) valid_update(1) in \<open>auto\<close>)

text \<open>Two views of the same configuration have the same sensors.\<close>

lemma config_same:
  assumes "map_option sensor_config (sensor_of v y) = map_option sensor_config (sensor_of u y)" "sensor_of v y = Some s"
  shows "\<exists>t. sensor_of u y = Some t \<and> vs_family t = vs_family s \<and> vs_name t = vs_name s \<and> vs_label t = vs_label s \<and> vs_hwmon t = vs_hwmon s"
  using assms by (cases "sensor_of u y") (auto simp: sensor_config_def)

lemma record_ok_config:
  assumes "record_ok ns inventory u" "\<And>y. map_option sensor_config (sensor_of v y) = map_option sensor_config (sensor_of u y)"
  shows "record_ok ns inventory v"
  unfolding record_ok_def
proof (clarsimp split: option.split, intro conjI impI allI, goal_cases)
  case (1 ss)
  then show ?case using assms(1) by (simp add: record_ok_def)
next
  case (2 ss)
  then show ?case using assms(1) config_same [OF assms(2)] by (fastforce simp: record_ok_def)
qed

lemma sensor_family:
  assumes "vt_ok vt" "sensor_of vt y = Some s" "y \<in> family_ids ns" "ns = ''disk'' \<or> ns = ''hba''"
  shows "vs_family s = ns"
  using assms vt_ok_family [OF assms(1) _ assms(4)] by (auto simp: sensor_of_iff)

lemma reconciled_shows:
  assumes "reconcileHWMonFamily ns xs ms k = (None, k')" "vt_ok (hk_vt k)" "validateHWMonSamples ns xs = Inr ms"
  shows "family_shows ns xs (hk_vt k')"
proof -
  note rec = reconcile_effect [OF assms] and v = validate_ok [OF assms(3)] and p = valid_pairs [OF assms(3)]
  have "\<exists>s. sensor_of (hk_vt k') (sample_id x) = Some s \<and> vs_family s = ns \<and>
      vs_label s = kernel_label (hs_label (smp_sensor x)) \<and> vs_hwmon s" if x: "x \<in> set xs" for x
  proof -
    obtain m where "(x, m) \<in> set (zip xs ms)" using x p(2) by (metis in_set_impl_in_set_zip1)
    then obtain s where s: "sensor_of (hk_vt k') (sample_id x) = Some s" "sensor_shows ns x m (vt_jiffies (hk_vt k)) s"
      using rec(2) by blast
    then show ?thesis
      using sensor_family [OF changes_within_ok [OF rec(1)] s(1) _ v(3)] p(4) x by (auto simp: sensor_shows_def)
  qed
  then show ?thesis using rec(3) by (auto simp: family_shows_def)
qed

lemma updated_shows:
  assumes "validateHWMonSamples ns xs = Inr ms" "updateHWMonFamily (zip xs ms) k = (None, k')" "vt_ok (hk_vt k)"
    and "record_ok ns inventory (hk_vt k)" "\<not> inv_needsReconcile inventory" "inv_sensors inventory = Some ss"
    and "sameHWMonConfiguration ss xs"
  shows "family_shows ns xs (hk_vt k')"
proof -
  note u = valid_update [OF assms(1-3)] and v = validate_ok [OF assms(1)] and p = valid_pairs [OF assms(1)]
  have d: "distinct (map hs_id ss)" using assms(4,6) by (simp add: record_ok_def)
  then have "mset ss = mset (sensorsFromSamples xs)"
    using assms(7) same_config_mset [OF v(2)] by blast
  then have ss: "set ss = smp_sensor ` set xs" by (metis list.set_map sensorsFromSamples_def set_mset_mset)
  have known: "\<exists>x \<in> set ss. hs_id x = y \<and> vs_label s = kernel_label (hs_label x) \<and> vs_hwmon s"
    if "sensor_of (hk_vt k') y = Some s" "vs_family s = ns" for y s
    using config_same [OF u(2) that(1)] that(2) assms(4-6) by (fastforce simp: record_ok_def)
  have "\<exists>s. sensor_of (hk_vt k') (sample_id x) = Some s \<and> vs_family s = ns \<and>
      vs_label s = kernel_label (hs_label (smp_sensor x)) \<and> vs_hwmon s" if x: "x \<in> set xs" for x
  proof -
    obtain m where "(x, m) \<in> set (zip xs ms)" using x p(2) by (metis in_set_impl_in_set_zip1)
    then obtain s where s: "sensor_of (hk_vt k') (sample_id x) = Some s" using u(3) by blast
    have f: "vs_family s = ns" using sensor_family [OF changes_within_ok [OF u(1)] s _ v(3)] p(4) x by auto
    obtain z where z: "z \<in> set ss" "hs_id z = sample_id x" "vs_label s = kernel_label (hs_label z)" "vs_hwmon s"
      using known [OF s f] by blast
    have "smp_sensor x \<in> set ss" using ss x by blast
    then have "z = smp_sensor x" using z d by (metis (no_types) distinct_map inj_onD)
    then show ?thesis using s f z by blast
  qed
  moreover have "y \<in> set (map sample_id xs)" if "sensor_of (hk_vt k') y = Some s" "vs_family s = ns" for y s
    using known [OF that] ss by force
  ultimately show ?thesis unfolding family_shows_def by blast
qed

text \<open>
  C3: Whenever publishing a family succeeds, the sensors of the family in the kernel are exactly
  the samples, each registered with its label; the sensors of the other family are untouched. When
  it was reconciled every temperature is the one published now; when it was only refreshed, so is
  that of every sample that is not to be skipped, and a skipped one is left to expire.
\<close>

theorem publish_exact:
  assumes "publishHWMonFamily ns xs inventory k = (Inr changed, inventory', k')"
    and "vt_ok (hk_vt k)" "record_ok ns inventory (hk_vt k)"
  shows "family_shows ns xs (hk_vt k') \<and>
    (\<forall>x \<in> set xs. \<exists>s. sensor_of (hk_vt k') (sample_id x) = Some s \<and>
      (if changed \<or> \<not> smp_skipRefresh x
       then Some (vs_temperature s) = milli_celsius (smp_temperature x) \<and> vs_last_update s = vt_jiffies (hk_vt k)
       else sensor_of (hk_vt k) (sample_id x) = Some s)) \<and>
    (\<forall>y. \<not> HasPrefix y (ns @ '':'') \<longrightarrow> sensor_of (hk_vt k') y = sensor_of (hk_vt k) y)"
proof -
  have frame: "\<forall>y. \<not> HasPrefix y (ns @ '':'') \<longrightarrow> sensor_of (hk_vt k') y = sensor_of (hk_vt k) y"
    using publish_frame [OF assms(1,2)] by (simp add: changes_within_def)
  have pair: "\<exists>m. (x, m) \<in> set (zip xs ms) \<and> milli_celsius (smp_temperature x) = Some m"
    if v: "validateHWMonSamples ns xs = Inr ms" and x: "x \<in> set xs" for x ms
  proof -
    obtain m where "(x, m) \<in> set (zip xs ms)" using x valid_pairs(2) [OF v] by (metis in_set_impl_in_set_zip1)
    then show ?thesis using validate_ok(1) [OF v] by (auto simp: list_all2_iff sample_valid_def)
  qed
  show ?thesis
  proof (rule publish_cases [OF assms(1)])
    fix ms
    assume a: "validateHWMonSamples ns xs = Inr ms" "Inr changed = Inr False" "updateHWMonFamily (zip xs ms) k = (None, k')"
      "\<not> inv_needsReconcile inventory" "inv_sensors inventory \<noteq> None" "sameHWMonConfiguration (the (inv_sensors inventory)) xs"
    then have "family_shows ns xs (hk_vt k')" using assms(2,3) by (auto intro: updated_shows)
    moreover have "\<exists>s. sensor_of (hk_vt k') (sample_id x) = Some s \<and>
        (if changed \<or> \<not> smp_skipRefresh x
         then Some (vs_temperature s) = milli_celsius (smp_temperature x) \<and> vs_last_update s = vt_jiffies (hk_vt k)
         else sensor_of (hk_vt k) (sample_id x) = Some s)" if "x \<in> set xs" for x
      using pair [OF a(1) that] valid_update(3) [OF a(1,3) assms(2) refl, of x] a(2)
      by (fastforce simp: refreshed_def with_temperature_def)
    ultimately show ?thesis using frame by blast
  next
    fix ms k1 err e1
    assume a: "validateHWMonSamples ns xs = Inr ms" "k1 = k \<or> updateHWMonFamily (zip xs ms) k = (Some e1, k1)"
      "reconcileHWMonFamily ns xs ms k1 = (err, k')"
      and r: "if err = None then Inr changed = Inr True \<and> inventory' = \<lparr>inv_sensors = Some (sensorsFromSamples xs), inv_needsReconcile = False\<rparr>
       else (\<exists>e. Inr changed = Inl e) \<and> inventory' = inventory\<lparr>inv_needsReconcile := True\<rparr>"
    have e: "err = None" and c: changed using r by (auto split: if_splits)
    have w: "changes_within (family_ids ns) (hk_vt k) (hk_vt k1)" using a(2) assms(2) valid_update(1) [OF a(1)] by blast
    note rec = reconcile_effect(2) [OF a(3) changes_within_ok [OF w] a(1) e]
    have "family_shows ns xs (hk_vt k')" using reconciled_shows a(3) e changes_within_ok [OF w] a(1) by blast
    moreover have "\<exists>s. sensor_of (hk_vt k') (sample_id x) = Some s \<and>
        Some (vs_temperature s) = milli_celsius (smp_temperature x) \<and> vs_last_update s = vt_jiffies (hk_vt k)" if "x \<in> set xs" for x
      using pair [OF a(1) that] rec [of x] changes_within_jiffies [OF w] by (fastforce simp: sensor_shows_def)
    ultimately show ?thesis using frame c by simp
  qed simp_all
qed

text \<open>The record stays true, whatever calls fail.\<close>

lemma publish_record:
  assumes "publishHWMonFamily ns xs inventory k = (r, inventory', k')" "vt_ok (hk_vt k)" "record_ok ns inventory (hk_vt k)"
  shows "record_ok ns inventory' (hk_vt k')"
proof (rule publish_cases [OF assms(1)])
  fix ms k1 err e1
  assume a: "validateHWMonSamples ns xs = Inr ms" "k1 = k \<or> updateHWMonFamily (zip xs ms) k = (Some e1, k1)"
    "reconcileHWMonFamily ns xs ms k1 = (err, k')"
    and r: "if err = None then r = Inr True \<and> inventory' = \<lparr>inv_sensors = Some (sensorsFromSamples xs), inv_needsReconcile = False\<rparr>
     else (\<exists>e. r = Inl e) \<and> inventory' = inventory\<lparr>inv_needsReconcile := True\<rparr>"
  have w: "changes_within (family_ids ns) (hk_vt k) (hk_vt k1)" using a(2) assms(2) valid_update(1) [OF a(1)] by blast
  show ?thesis
  proof (cases err)
    case None
    have f: "family_shows ns xs (hk_vt k')" using reconciled_shows a(3) None changes_within_ok [OF w] a(1) by blast
    have "\<exists>x \<in> set xs. sample_id x = y \<and> vs_label s = kernel_label (hs_label (smp_sensor x)) \<and> vs_hwmon s"
      if "sensor_of (hk_vt k') y = Some s" "vs_family s = ns" for y s
      using f that by (fastforce simp: family_shows_def)
    then show ?thesis
      using r None validate_ok(2) [OF a(1)] by (auto simp: record_ok_def sensorsFromSamples_def comp_def)
  next
    case (Some e)
    then show ?thesis using r assms(3) by (auto simp: record_ok_def split: option.splits)
  qed
next
  fix ms e
  assume "validateHWMonSamples ns xs = Inr ms" "updateHWMonFamily (zip xs ms) k = (Some e, k')" "inventory' = inventory"
  then show ?thesis using record_ok_config [OF assms(3)] valid_update(2) assms(2) by blast
next
  fix ms
  assume "validateHWMonSamples ns xs = Inr ms" "updateHWMonFamily (zip xs ms) k = (None, k')" "inventory' = inventory"
  then show ?thesis using record_ok_config [OF assms(3)] valid_update(2) assms(2) by blast
qed (use assms(3) in simp)

subsection \<open>A kernel that does not fail\<close>

text \<open>When no call fails by itself, every call has the effect of its operation.\<close>

abbreviation honest :: "hwmon_kernel \<Rightarrow> bool" where "honest k \<equiv> hk_outcomes k = []"

lemma honest_call:
  "honest k \<Longrightarrow> kernel_call f k = (fst (f None (hk_vt k)), k\<lparr>hk_vt := snd (f None (hk_vt k))\<rparr>)"
  by (simp add: kernel_call_def take_outcome_def split: prod.split)

text \<open>The directories of a family as the program names them.\<close>

definition own_names :: "string \<Rightarrow> virt_temp \<Rightarrow> bool" where
  "own_names ns vt = (\<forall>y s. sensor_of vt y = Some s \<and> vs_family s = ns \<longrightarrow> vs_name s = hwmonSensorKey ns y)"

definition kernel_accepts :: "string \<Rightarrow> bool" where
  "kernel_accepts l = (kernel_label l \<noteq> [] \<and> length l \<le> maxHWMonLabelSize \<and> chr 0 \<notin> set l \<and>
    \<not> list_ex (\<lambda>c. byte c \<in> {9, 13, 10}) l)"

lemma kernel_label_strim: "kernel_label l = strim l"
  by (simp add: kernel_label_def strim_def trim_both_last kernel_space_def)

text \<open>The labels built from snapshots are kept by the kernel: their first byte is not trimmed.\<close>

lemma label_ok_accepted: "label_ok l \<Longrightarrow> kernel_accepts l"
proof -
  assume l: "label_ok l"
  then obtain c cs where lc: "l = c # cs" by (cases l) (auto simp: label_ok_def)
  have "byte c \<noteq> 160"
  proof
    assume b: "byte c = 160"
    obtain rs where rs: "l = encode_runes rs" "\<forall>r \<in> set rs. scalar r" using l by (auto simp: label_ok_def well_text_iff)
    then obtain r qs where "rs = r # qs" using lc by (cases rs) auto
    then have "c = hd (encode_rune r)" using rs(1) lc by (metis encode_rune_ne encode_runes_simps(2) hd_append2 list.sel(1))
    then show False using encode_rune_head [of r] b by (simp add: RuneStart_def)
  qed
  moreover have "0x20 \<le> byte c" "byte c \<noteq> 0x20" using l lc by (auto simp: label_ok_def)
  ultimately have "\<not> kernel_space c" by (auto simp: kernel_space_def)
  then have "strim l \<noteq> []" using lc unfolding strim_def by (intro trim_both_hd) simp_all
  moreover have "\<forall>d \<in> set l. 0x20 \<le> byte d" using l by (auto simp: label_ok_def list_all_iff)
  then have "chr 0 \<notin> set l" "\<not> list_ex (\<lambda>c. byte c \<in> {9, 13, 10}) l" by (force simp: list_ex_iff)+
  ultimately show ?thesis using l by (auto simp: kernel_accepts_def kernel_label_strim label_ok_def)
qed

lemma FormatInt_length: "int64_range m \<Longrightarrow> length (FormatInt m) \<le> 21"
proof -
  assume m: "int64_range m"
  then have "nat \<bar>m\<bar> < 10 ^ Suc 19" by (auto simp: int64_range_def)
  then have "length (digits 10 (nat \<bar>m\<bar>)) \<le> 20" using length_digits [of 10 "nat \<bar>m\<bar>" 19] by simp
  then show ?thesis by (cases "m < 0") (simp_all add: FormatInt_def)
qed

lemma honest_temperature:
  assumes "honest k" "int64_range m"
  shows "\<exists>k'. writeKernelAttribute (hwmonTemperatureDevicePath sid) (FormatInt m) k =
      (if sensor_of (hk_vt k) sid = None then Some ENOENT_error else None, k') \<and> honest k'"
proof (cases "sensor_of (hk_vt k) sid")
  case None
  then have "\<not> path_exists (hwmonTemperatureDevicePath sid) (hk_vt k)"
    by (auto simp: hwmonTemperatureDevicePath_def list_ex_iff hex_EncodeToString_inj sensor_of_None)
  then show ?thesis using assms(1) None by (simp add: writeKernelAttribute_def honest_call path_open_def)
next
  case (Some s)
  then have "path_exists (hwmonTemperatureDevicePath sid) (hk_vt k)"
    by (auto simp: hwmonTemperatureDevicePath_def list_ex_iff hex_EncodeToString_inj sensor_of_def dest: find_SomeD)
  moreover have "fst (path_write (hwmonTemperatureDevicePath sid) (FormatInt m @ [chr 10]) None (hk_vt k)) = None"
    using Some FormatInt_length [OF assms(2)]
    by (simp add: hwmonTemperatureDevicePath_def find_device temperature_write_def kstrtol_FormatInt [OF assms(2)] MAX_TEMP_WRITE_SIZE_def)
  ultimately show ?thesis
    using assms(1) Some by (simp add: writeKernelAttribute_def honest_call path_open_def)
qed

lemma honest_label:
  assumes "honest k" "sensor_of (hk_vt k) sid = Some s" "vt_ok (hk_vt k)" "vs_family s = ns" "vs_name s = key" "kernel_accepts l"
  shows "\<exists>k'. writeKernelAttribute (LabelFile ns key) l k = (None, k') \<and> honest k'"
proof -
  have s: "s \<in> set (vt_sensors (hk_vt k))" using assms(2,3) by (simp add: sensor_of_iff)
  then have ex: "path_exists (LabelFile ns key) (hk_vt k)" using assms(4,5) by (auto simp: list_ex_iff)
  obtain t where t: "find (\<lambda>s. vs_family s = ns \<and> vs_name s = key) (vt_sensors (hk_vt k)) = Some t"
    using s assms(4,5) by (cases "find (\<lambda>s. vs_family s = ns \<and> vs_name s = key) (vt_sensors (hk_vt k))") (auto simp: find_None_iff)
  have tr: "strim (l @ [chr 10]) = kernel_label l" by (simp add: kernel_label_def)
  have "set (kernel_label l) \<subseteq> set l" "length (kernel_label l) \<le> length l"
    unfolding kernel_label_strim strim_def by (rule trim_both_sub, rule trim_both_length)
  then have "fst (sensor_label_store None (l @ [chr 10]) t) = None"
    using assms(6) by (auto simp: sensor_label_store_def tr kernel_accepts_def LABEL_SIZE_def maxHWMonLabelSize_def list_ex_iff Let_def)
  then show ?thesis
    using assms(1) ex t by (simp add: writeKernelAttribute_def honest_call path_open_def label_store_def del: path_exists.simps)
qed

lemma honest_create_one:
  assumes "honest k" "vt_ok (hk_vt k)" "own_names ns (hk_vt k)" "id_ok ns (sample_id x)" "int64_range m"
    "kernel_accepts (hs_label (smp_sensor x))" "ns = ''disk'' \<or> ns = ''hba''"
  shows "\<exists>k'. create_one ns x m k = (None, k') \<and> honest k' \<and> own_names ns (hk_vt k')"
proof -
  let ?sid = "sample_id x" and ?key = "hwmonSensorKey ns (sample_id x)" and ?vt = "hk_vt k"
  note dec = key_decodes [OF assms(4)]
  define k1 where "k1 = k\<lparr>hk_vt := snd (make_sensor ns ?key ?vt)\<rparr>"
  have c1: "kernel_call (\<lambda>_. make_sensor ns ?key) k = (fst (make_sensor ns ?key ?vt), k1)" and h1: "honest k1"
    using assms(1) by (simp_all add: honest_call k1_def)
  have fam: "sensor_of v y = Some s \<Longrightarrow> vt_ok v \<Longrightarrow> y = ?sid \<Longrightarrow> vs_family s = ns" for v y s
    using sensor_family assms(4,7) by (auto simp: id_ok_def HasPrefix_iff)
  obtain err1 v1 where ms: "make_sensor ns ?key ?vt = (err1, v1)" by (cases "make_sensor ns ?key ?vt")
  note mk = make_sensor_only [OF ms assms(2) dec]
  have o1: "vt_ok (hk_vt k1)" using mk(1) by (simp add: k1_def ms changes_only_def)
  have e1: "err1 = None \<or> err1 = Some EEXIST_error \<and> v1 = ?vt \<and> (\<exists>s. s \<in> set (vt_sensors ?vt) \<and> vs_id s = ?sid)"
  proof -
    have "vs_id s = ?sid" if "s \<in> set (vt_sensors ?vt)" "vs_family s = ns" "vs_name s = ?key" for s
      using vt_ok_id [OF assms(2) that(1)] dec that by simp
    then show ?thesis using ms dec assms(7) by (auto simp: make_sensor_def list_ex_iff split: if_splits)
  qed
  obtain s1 where s1: "sensor_of (hk_vt k1) ?sid = Some s1" "vs_name s1 = ?key" "vs_family s1 = ns"
  proof (cases err1)
    case None
    then show ?thesis using mk(2) that by (auto simp: k1_def ms)
  next
    case (Some e)
    then obtain s where s: "sensor_of ?vt ?sid = Some s" using e1 assms(2) by (auto simp: sensor_of_iff)
    then have "vs_family s = ns" using fam assms(2) by blast
    then show ?thesis using s that [of s] Some e1 assms(3) by (auto simp: k1_def ms own_names_def)
  qed
  obtain k2 where w: "writeKernelAttribute (hwmonTemperatureDevicePath ?sid) (FormatInt m) k1 = (None, k2)" "honest k2"
    using honest_temperature [OF h1 assms(5), of ?sid] s1 by auto
  note t = write_temperature [OF w(1) o1 assms(5)]
  have o2: "vt_ok (hk_vt k2)" using t(1) by (simp add: changes_only_def)
  obtain k3 where l: "writeKernelAttribute (LabelFile ns ?key) (hs_label (smp_sensor x)) k2 = (None, k3)" "honest k3"
    using honest_label [OF w(2) _ o2 _ _ assms(6)] t(2) s1 by (fastforce simp: with_temperature_def)
  have "create_one ns x m k = (None, k3)"
    using c1 ms e1 w l by (auto simp: create_one_def Let_def EEXIST_error_def errors_Is_def)
  moreover have "own_names ns (hk_vt k3)"
  proof -
    note eff = create_one_effect [OF calculation assms(2,4,5)]
    have "sensor_of (hk_vt k3) y = sensor_of ?vt y" if "y \<noteq> ?sid" for y using eff(1) that by (simp add: changes_within_def)
    then show ?thesis using eff(2) assms(3) unfolding own_names_def sensor_shows_def by (metis option.inject)
  qed
  ultimately show ?thesis using l(2) by blast
qed

lemma honest_create_sensors:
  assumes "honest k" "vt_ok (hk_vt k)" "own_names ns (hk_vt k)" "ns = ''disk'' \<or> ns = ''hba''"
    "\<forall>(x, m) \<in> set xs. id_ok ns (sample_id x) \<and> int64_range m \<and> kernel_accepts (hs_label (smp_sensor x))"
  shows "\<exists>d k'. create_sensors ns desired xs k = (Inr d, k') \<and> honest k'"
  using assms
proof (induction xs arbitrary: desired k)
  case (Cons p xs)
  obtain x m where p: "p = (x, m)" by (cases p)
  have x: "id_ok ns (sample_id x)" "int64_range m" "kernel_accepts (hs_label (smp_sensor x))" using Cons.prems(5) p by auto
  obtain k1 where k1: "create_one ns x m k = (None, k1)" "honest k1" "own_names ns (hk_vt k1)"
    using honest_create_one [OF Cons.prems(1-3) x Cons.prems(4)] by blast
  have "vt_ok (hk_vt k1)" using create_one_effect(1) [OF k1(1) Cons.prems(2) x(1,2)] by (rule changes_within_ok)
  then show ?case
    using Cons.IH [OF k1(2) _ k1(3) Cons.prems(4)] Cons.prems(5) k1(1) by (simp add: p create_sensors_Cons del: create_sensors.simps)
qed simp

lemma honest_remove_stale:
  assumes "honest k" "distinct names" "\<forall>n \<in> set names. \<exists>s \<in> set (vt_sensors (hk_vt k)). vs_family s = ns \<and> vs_name s = n"
  shows "\<exists>k'. remove_stale ns desired names k = (None, k') \<and> honest k'"
  using assms
proof (induction names arbitrary: k)
  case (Cons n names)
  show ?case
  proof (cases "n \<in> set desired")
    case True
    then show ?thesis using Cons by simp
  next
    case False
    define k1 where "k1 = k\<lparr>hk_vt := (hk_vt k)\<lparr>vt_sensors :=
      filter (\<lambda>s. \<not> (vs_family s = ns \<and> vs_name s = n)) (vt_sensors (hk_vt k))\<rparr>\<rparr>"
    have "kernel_call (\<lambda>_. drop_sensor ns n) k = (None, k1)"
      using Cons.prems(1,3) by (auto simp: honest_call drop_sensor_def list_ex_iff k1_def)
    moreover have "\<exists>k'. remove_stale ns desired names k1 = (None, k') \<and> honest k'"
    proof (rule Cons.IH)
      show "\<forall>m \<in> set names. \<exists>s \<in> set (vt_sensors (hk_vt k1)). vs_family s = ns \<and> vs_name s = m"
      proof
        fix m assume m: "m \<in> set names"
        then have "m \<noteq> n" using Cons.prems(2) by auto
        moreover obtain s where "s \<in> set (vt_sensors (hk_vt k))" "vs_family s = ns" "vs_name s = m"
          using Cons.prems(3) m by (meson list.set_intros(2))
        ultimately show "\<exists>s \<in> set (vt_sensors (hk_vt k1)). vs_family s = ns \<and> vs_name s = m"
          by (intro bexI [of _ s]) (simp_all add: k1_def)
      qed
    qed (use Cons.prems in \<open>simp_all add: k1_def\<close>)
    ultimately show ?thesis using False by simp
  qed
qed simp

lemma family_names_distinct: "vt_ok vt \<Longrightarrow> distinct (family_names ns vt)"
proof -
  assume ok: "vt_ok vt"
  have "inj_on vs_name (set (filter (\<lambda>s. vs_family s = ns) (vt_sensors vt)))"
  proof (rule inj_onI)
    fix s t assume a: "s \<in> set (filter (\<lambda>s. vs_family s = ns) (vt_sensors vt))"
      "t \<in> set (filter (\<lambda>s. vs_family s = ns) (vt_sensors vt))" "vs_name s = vs_name t"
    then have "vs_id s = vs_id t" using vt_ok_id [OF ok, of s] vt_ok_id [OF ok, of t] by simp
    then show "s = t" using a ok by (auto simp: vt_ok_def distinct_map dest: inj_onD)
  qed
  moreover have "distinct (vt_sensors vt)" using ok by (auto simp: vt_ok_def distinct_map)
  ultimately show ?thesis by (simp add: family_names_def distinct_map)
qed

lemma honest_reconcile:
  assumes "honest k" "vt_ok (hk_vt k)" "own_names ns (hk_vt k)" "validateHWMonSamples ns xs = Inr ms"
    "\<forall>x \<in> set xs. kernel_accepts (hs_label (smp_sensor x))"
  shows "\<exists>k'. reconcileHWMonFamily ns xs ms k = (None, k') \<and> honest k'"
proof -
  note v = validate_ok [OF assms(4)] and p = valid_pairs [OF assms(4)]
  have a: "\<forall>(x, m) \<in> set (zip xs ms). id_ok ns (sample_id x) \<and> int64_range m \<and> kernel_accepts (hs_label (smp_sensor x))"
    using p(1) assms(5) by (auto dest: set_zip_leftD)
  obtain d k1 where c: "create_sensors ns [] (zip xs ms) k = (Inr d, k1)" "honest k1"
    using honest_create_sensors [OF assms(1-3) v(3) a] by blast
  have "distinct (map (\<lambda>p. sample_id (fst p)) (zip xs ms))" using v(2) p(3) by simp
  then have ok: "vt_ok (hk_vt k1)"
    using create_sensors_effect [OF c(1) assms(2) p(1)] by (auto dest: changes_within_ok)
  have "\<exists>k'. remove_stale ns d (family_names ns (hk_vt k1)) k1 = (None, k') \<and> honest k'"
    using c(2) family_names_distinct [OF ok] by (intro honest_remove_stale) (auto simp: family_names_def)
  then show ?thesis using c by (simp add: reconcileHWMonFamily_def honest_call)
qed

lemma honest_update:
  assumes "honest k" "\<forall>(x, m) \<in> set xs. int64_range m"
  shows "\<exists>err k'. updateHWMonFamily xs k = (err, k') \<and> honest k' \<and> (err \<noteq> None \<longrightarrow> errors_Is (the err) ErrNotExist)"
  using assms
proof (induction xs arbitrary: k)
  case (Cons p xs)
  obtain x m where p: "p = (x, m)" by (cases p)
  let ?r = "if smp_skipRefresh x then kernel_call (path_open (hwmonTemperatureDevicePath (sample_id x))) k
      else writeKernelAttribute (hwmonTemperatureDevicePath (sample_id x)) (FormatInt m) k"
  obtain k1 where r: "?r = (None, k1) \<or> ?r = (Some ENOENT_error, k1)" "honest k1"
    using honest_temperature [OF Cons.prems(1), of m "sample_id x"] Cons.prems p
    by (cases "smp_skipRefresh x"; cases "sensor_of (hk_vt k) (sample_id x)") (auto simp: honest_call path_open_def)
  then show ?case
    using Cons.IH [OF r(2)] Cons.prems(2)
    by (auto simp: p update_Cons ENOENT_error_def errors_Is_def Errorf_w_def simp del: updateHWMonFamily.simps)
qed simp

text \<open>
  C12: The publication repairs itself: whatever sensors the kernel has lost and whatever an earlier
  failure left behind, as soon as the calls into the kernel work, publishing samples succeeds if
  they pass the validation, their labels have the form every label built from a snapshot has, and the
  sensor directories that the family still has in the kernel bear the names the program gives them.
\<close>

theorem publish_recovers:
  assumes "honest k" "vt_ok (hk_vt k)" "own_names ns (hk_vt k)" "validateHWMonSamples ns xs = Inr ms"
    "\<forall>x \<in> set xs. label_ok (hs_label (smp_sensor x))"
  shows "\<exists>changed inventory' k'. publishHWMonFamily ns xs inventory k = (Inr changed, inventory', k')"
proof -
  have acc: "\<forall>x \<in> set xs. kernel_accepts (hs_label (smp_sensor x))" using assms(5) label_ok_accepted by blast
  obtain err ku where u: "updateHWMonFamily (zip xs ms) k = (err, ku)" "honest ku"
      "err \<noteq> None \<longrightarrow> errors_Is (the err) ErrNotExist"
    using honest_update [OF assms(1), of "zip xs ms"] valid_pairs(1) [OF assms(4)] by fastforce
  note eff = valid_update [OF assms(4) u(1) assms(2)]
  have "own_names ns (hk_vt ku)"
    using assms(3) config_same [OF eff(2)] unfolding own_names_def by metis
  then obtain k2 where k2: "reconcileHWMonFamily ns xs ms ku = (None, k2)"
    using honest_reconcile [OF u(2) changes_within_ok [OF eff(1)] _ assms(4) acc] by blast
  obtain k3 where k3: "reconcileHWMonFamily ns xs ms k = (None, k3)"
    using honest_reconcile [OF assms(1-4) acc] by blast
  show ?thesis using assms(4) u k2 k3 by (auto simp: publishHWMonFamily_def Let_def)
qed

subsection \<open>An example\<close>

definition empty_kernel :: hwmon_kernel where
  "empty_kernel = \<lparr>hk_vt = \<lparr>vt_sensors = [], vt_jiffies = 1000, vt_HZ = 250, vt_stale_timeout = 10\<rparr>, hk_outcomes = []\<rparr>"

definition example_samples :: "hwmonSample list" where
  "example_samples = map disk_sample [example_ssd ''cache1'' 41, example_ssd ''cache2'' 47]"

definition fresh_inventory :: hwmonInventory where
  "fresh_inventory = \<lparr>inv_sensors = None, inv_needsReconcile = False\<rparr>"

lemma empty_kernel_ok: "honest empty_kernel" "vt_ok (hk_vt empty_kernel)" "own_names ns (hk_vt empty_kernel)"
  "record_ok ns fresh_inventory (hk_vt empty_kernel)"
  by (simp_all add: empty_kernel_def vt_ok_def own_names_def sensor_of_def record_ok_def fresh_inventory_def)

lemma example_publish: "fst (publishHWMonFamily ''disk'' example_samples fresh_inventory empty_kernel) = Inr True"
  by code_simp

theorem publish_exact_witness:
  "family_shows ''disk'' example_samples
     (hk_vt (snd (snd (publishHWMonFamily ''disk'' example_samples fresh_inventory empty_kernel))))"
proof -
  let ?r = "publishHWMonFamily ''disk'' example_samples fresh_inventory empty_kernel"
  have "?r = (Inr True, fst (snd ?r), snd (snd ?r))" using example_publish by (cases ?r) simp
  from publish_exact [OF this empty_kernel_ok(2,4)] show ?thesis by blast
qed

theorem publish_recovers_witness:
  "\<exists>changed inventory' k'. publishHWMonFamily ''disk'' example_samples fresh_inventory empty_kernel = (Inr changed, inventory', k')"
proof -
  have v: "validateHWMonSamples ''disk'' example_samples = Inr [41000, 47000]" by code_simp
  have "\<forall>x \<in> set example_samples. label_ok (hs_label (smp_sensor x))"
    by (auto simp: example_samples_def disk_sample_label)
  from publish_recovers [OF empty_kernel_ok(1-3) v this] show ?thesis by blast
qed

end
