(* ===== verification/Hwmon_Cache.thy ===== *)
theory Hwmon_Cache
  imports Hwmon_Publish Disk_Policy
begin

text \<open>
  The cache of the topology (\<^verbatim>\<open>hwmon_cache.go\<close>): its representation as an indented JSON document,
  loading, the atomic save, and the samples a restored topology starts with.
\<close>

subsection \<open>Data\<close>

record cachedHWMonSensor =
  cs_ID :: string
  cs_Label :: string

record cachedHWMonFamily =
  cf_Sensors :: "cachedHWMonSensor list option"

record cachedHWMonInventory =
  ci_Version :: int
  ci_Disks :: "cachedHWMonFamily option"
  ci_HBAs :: "cachedHWMonFamily option"

record hwmonPublisher =
  hp_disks :: hwmonInventory
  hp_hbas :: hwmonInventory
  hp_cachePath :: string
  hp_cacheDirty :: bool

subsection \<open>Loading\<close>

definition decode_cached_sensor :: "cachedHWMonSensor decoder" where
  "decode_cached_sensor =
    decode_struct ''main.cachedHWMonSensor''
      [(''id'', decode_string (\<lambda>s r. r\<lparr>cs_ID := s\<rparr>)), (''label'', decode_string (\<lambda>s r. r\<lparr>cs_Label := s\<rparr>))]"

definition decode_cached_family :: "cachedHWMonFamily decoder" where
  "decode_cached_family =
    decode_struct ''main.cachedHWMonFamily''
      [(''readings'', decode_slice \<lparr>cs_ID = [], cs_Label = []\<rparr> (\<lambda>xs r. r\<lparr>cf_Sensors := xs\<rparr>)
         decode_cached_sensor ''[]main.cachedHWMonSensor'')]"

definition decode_cached_inventory :: "cachedHWMonInventory decoder" where
  "decode_cached_inventory =
    decode_struct ''main.cachedHWMonInventory''
      [(''version'', decode_int (\<lambda>i r. r\<lparr>ci_Version := i\<rparr>)),
       (''disks'', decode_ptr \<lparr>cf_Sensors = None\<rparr> ci_Disks (\<lambda>x r. r\<lparr>ci_Disks := x\<rparr>) decode_cached_family),
       (''hbas'', decode_ptr \<lparr>cf_Sensors = None\<rparr> ci_HBAs (\<lambda>x r. r\<lparr>ci_HBAs := x\<rparr>) decode_cached_family)]"

definition parse_hwmon_cache :: "string \<Rightarrow> string \<Rightarrow> cachedHWMonInventory result" where
  "parse_hwmon_cache path data =
    (case json_Unmarshal decode_cached_inventory \<lparr>ci_Version = 0, ci_Disks = None, ci_HBAs = None\<rparr> data of
       Inl e \<Rightarrow> Inl (Errorf_w (''decode '' @ path @ '': '') e [])
     | Inr cached \<Rightarrow>
         if ci_Version cached \<noteq> 1 then Inl (errors_New (''unsupported cache version '' @ FormatInt (ci_Version cached)))
         else Inr cached)"

definition loadHWMonCache :: "string \<Rightarrow> os_state \<Rightarrow> cachedHWMonInventory option result \<times> os_state" where
  "loadHWMonCache path s =
    (case os_ReadFile path s of
       (Inl e, s1) \<Rightarrow> if errors_Is e ErrNotExist then (Inr None, s1) else (Inl e, s1)
     | (Inr data, s1) \<Rightarrow>
         (case parse_hwmon_cache path data of Inl e \<Rightarrow> (Inl e, s1) | Inr cached \<Rightarrow> (Inr (Some cached), s1)))"

subsection \<open>Saving\<close>

definition sensorsToCache :: "hwmonSensor list \<Rightarrow> cachedHWMonSensor list" where
  "sensorsToCache sensors = map (\<lambda>s. \<lparr>cs_ID = hs_id s, cs_Label = hs_label s\<rparr>) sensors"

definition samplesFromCache :: "cachedHWMonSensor list option \<Rightarrow> hwmonSample list" where
  "samplesFromCache cached =
    map (\<lambda>c. \<lparr>smp_sensor = \<lparr>hs_id = cs_ID c, hs_label = cs_Label c\<rparr>, smp_temperature = hwmonFailsafeTemp,
              smp_skipRefresh = False\<rparr>) (elements cached)"

definition encode_cached_sensor :: "cachedHWMonSensor \<Rightarrow> json" where
  "encode_cached_sensor c = JObj [(''id'', JStr (cs_ID c)), (''label'', JStr (cs_Label c))]"

definition encode_cached_family :: "cachedHWMonFamily \<Rightarrow> json" where
  "encode_cached_family f =
    JObj [(''readings'', case cf_Sensors f of None \<Rightarrow> JNull | Some cs \<Rightarrow> JArr (map encode_cached_sensor cs))]"

definition encode_cached_inventory :: "cachedHWMonInventory \<Rightarrow> json" where
  "encode_cached_inventory c =
    JObj ([(''version'', JNum (FormatInt (ci_Version c)))] @
      (case ci_Disks c of None \<Rightarrow> [] | Some f \<Rightarrow> [(''disks'', encode_cached_family f)]) @
      (case ci_HBAs c of None \<Rightarrow> [] | Some f \<Rightarrow> [(''hbas'', encode_cached_family f)]))"

definition family_to_cache :: "hwmonInventory \<Rightarrow> cachedHWMonFamily option" where
  "family_to_cache i = map_option (\<lambda>ss. \<lparr>cf_Sensors = Some (sensorsToCache ss)\<rparr>) (inv_sensors i)"

definition cache_of :: "hwmonPublisher \<Rightarrow> cachedHWMonInventory" where
  "cache_of p = \<lparr>ci_Version = 1, ci_Disks = family_to_cache (hp_disks p), ci_HBAs = family_to_cache (hp_hbas p)\<rparr>"

definition cache_text :: "cachedHWMonInventory \<Rightarrow> string" where
  "cache_text c = json_indent 0 (encode_cached_inventory c) @ [NL]"

definition cache_tmp_prefix :: "string \<Rightarrow> string" where
  "cache_tmp_prefix path = path_Join [Dir path, ''.hwmon-inventory-'']"

definition cache_write_calls :: "string \<Rightarrow> cachedHWMonInventory \<Rightarrow> (syscall \<times> (go_error \<Rightarrow> go_error)) list" where
  "cache_write_calls path c =
    [(SMkdirAll, \<lambda>e. e), (SCreateTemp (cache_tmp_prefix path), \<lambda>e. e), (SWrite (cache_text c), \<lambda>e. e),
     (SSync, \<lambda>e. e), (SClose, \<lambda>e. e), (SRename, \<lambda>e. e), (SSyncDir, \<lambda>e. e)]"

definition saveCache :: "hwmonPublisher \<Rightarrow> os_state \<Rightarrow> go_error option \<times> os_state" where
  "saveCache p s = replace_file (hp_cachePath p) (cache_write_calls (hp_cachePath p) (cache_of p)) s"

subsection \<open>Reading back what was written\<close>

definition sensor_text_ok :: "cachedHWMonSensor \<Rightarrow> bool" where
  "sensor_text_ok c = (well_text (cs_ID c) \<and> well_text (cs_Label c))"

definition family_text_ok :: "cachedHWMonFamily option \<Rightarrow> bool" where
  "family_text_ok f = (case f of None \<Rightarrow> True | Some g \<Rightarrow> list_all sensor_text_ok (elements (cf_Sensors g)))"

definition cache_wf :: "cachedHWMonInventory \<Rightarrow> bool" where
  "cache_wf c = (ci_Version c = 1 \<and> family_text_ok (ci_Disks c) \<and> family_text_ok (ci_HBAs c))"

lemma decode_encode_sensor:
  "decode_cached_sensor (encode_cached_sensor c) \<lparr>cs_ID = [], cs_Label = []\<rparr> = (None, c)"
  by (cases c) (simp add: decode_cached_sensor_def encode_cached_sensor_def decode_struct_def decode_string_def
      first_error_def EqualFold_ascii rune_fold_def)

lemma decode_encode_family:
  "decode_cached_family (encode_cached_family f) \<lparr>cf_Sensors = None\<rparr> = (None, f)"
proof (cases "cf_Sensors f")
  case None
  then show ?thesis
    by (cases f) (simp add: decode_cached_family_def encode_cached_family_def decode_struct_def decode_slice_def
        first_error_def EqualFold_ascii rune_fold_def)
next
  case (Some cs)
  have "decode_elements \<lparr>cs_ID = [], cs_Label = []\<rparr> decode_cached_sensor (map encode_cached_sensor cs) = (None, cs)"
    by (rule decode_elements_map) (rule decode_encode_sensor)
  then show ?thesis using Some
    by (cases f) (simp add: decode_cached_family_def encode_cached_family_def decode_struct_def decode_slice_def
        first_error_def EqualFold_ascii rune_fold_def)
qed

lemma decode_ptr_family:
  "decode_ptr \<lparr>cf_Sensors = None\<rparr> get put decode_cached_family (encode_cached_family f) r =
    (case get r of None \<Rightarrow> (None, put (Some f) r) | Some g \<Rightarrow>
      (case decode_cached_family (encode_cached_family f) g of (e, x) \<Rightarrow> (e, put (Some x) r)))"
proof -
  have "encode_cached_family f \<noteq> JNull" by (simp add: encode_cached_family_def)
  then show ?thesis by (simp add: decode_ptr_value decode_encode_family split: option.split)
qed

lemma decode_encode_inventory:
  "int64_range (ci_Version c) \<Longrightarrow>
    decode_cached_inventory (encode_cached_inventory c) \<lparr>ci_Version = 0, ci_Disks = None, ci_HBAs = None\<rparr> = (None, c)"
  by (cases c; cases "ci_Disks c"; cases "ci_HBAs c")
    (simp_all add: decode_cached_inventory_def encode_cached_inventory_def decode_struct_def decode_int_def
      decode_ptr_family ParseInt10_FormatInt first_error_def EqualFold_ascii rune_fold_def)

lemma clean_family: "family_text_ok (Some f) \<Longrightarrow> json_clean (encode_cached_family f) = encode_cached_family f"
  by (auto simp: encode_cached_family_def encode_cached_sensor_def family_text_ok_def sensor_text_ok_def well_text_def
      clean_ascii list_all_iff split: option.split)

lemma nums_family: "nums_ok (encode_cached_family f)"
  by (auto simp: encode_cached_family_def encode_cached_sensor_def list_all_iff split: option.split)

lemma parse_cache_text: "cache_wf c \<Longrightarrow> parse_hwmon_cache path (cache_text c) = Inr c"
proof -
  assume wf: "cache_wf c"
  then have v: "int64_range (ci_Version c)" by (simp add: cache_wf_def int64_range_def)
  have n: "nums_ok (encode_cached_inventory c)"
    by (simp add: encode_cached_inventory_def nums_family split: option.split)
  have "json_clean (encode_cached_inventory c) = encode_cached_inventory c"
    using wf by (auto simp: encode_cached_inventory_def cache_wf_def clean_family clean_ascii split: option.split)
  then have "json_parse (cache_text c) = Inr (encode_cached_inventory c)"
    unfolding cache_text_def using json_parse_indent [OF n] by simp
  then show ?thesis
    using wf decode_encode_inventory [OF v] by (simp add: parse_hwmon_cache_def json_Unmarshal_def cache_wf_def)
qed

text \<open>The topology a cache file holds: none when there is no file.\<close>

definition stored_cache :: "string \<Rightarrow> string option \<Rightarrow> cachedHWMonInventory option result" where
  "stored_cache path content =
    (case content of None \<Rightarrow> Inr None
     | Some data \<Rightarrow> (case parse_hwmon_cache path data of Inl e \<Rightarrow> Inl e | Inr c \<Rightarrow> Inr (Some c)))"

interpretation cache_file: file_store "\<lambda>c v. stored_cache path c = Inr v" "\<lambda>v. cache_text (the v)"
  "\<lambda>v. v \<noteq> None \<and> cache_wf (the v)"
  by unfold_locales (auto simp: stored_cache_def parse_cache_text)

definition cache_file_ok :: "string \<Rightarrow> os_state \<Rightarrow> bool" where
  "cache_file_ok path s =
    (fresh_inode s path \<and> \<not> HasPrefix path (cache_tmp_prefix path))"

text \<open>
  C36: Saving the topology is atomic and durable: success means that the file reads back as exactly
  the recorded topology and is on disk. A failed call leaves the file with the topology before or
  after; a crash at any moment leaves the topology after, or what a crash before the call could have
  left, which is the topology before if it was on disk.
\<close>

theorem saveCache_crash_safe:
  assumes "cache_file_ok (hp_cachePath p) s" "cache_wf (cache_of p)"
    and "stored_cache (hp_cachePath p) (file_content (os_core s) (hp_cachePath p)) = Inr v"
  shows "store_updated (\<lambda>c v. stored_cache (hp_cachePath p) c = Inr v) (hp_cachePath p) True v (Some (cache_of p)) s (saveCache p s)"
proof -
  let ?pre = "[(SMkdirAll, \<lambda>e. e), (SCreateTemp (cache_tmp_prefix (hp_cachePath p)), \<lambda>e :: go_error. e)]"
  have "prepare_calls (hp_cachePath p) (cache_tmp_prefix (hp_cachePath p)) ?pre"
    using assms(1) by (simp add: prepare_calls_def cache_file_ok_def)
  from cache_file.write_updates [OF this, of s "hp_cachePath p" v "Some (cache_of p)" "\<lambda>e. e" "\<lambda>e. e" "\<lambda>e. e" "\<lambda>e. e" "\<lambda>e. e"]
  show ?thesis using assms by (simp add: saveCache_def cache_write_calls_def cache_file_ok_def)
qed

lemma run_calls_success:
  "run_calls path ((c, w) # cs) s = (None, t) \<longleftrightarrow> (\<exists>u. exec_call path c s = (None, u) \<and> run_calls path cs u = (None, t))"
  by (auto split: prod.splits option.splits)

text \<open>A successful save leaves the new text, also over a file that is not durable.\<close>

lemma save_success:
  assumes "saveCache p s = (None, t)" "\<not> HasPrefix (hp_cachePath p) (cache_tmp_prefix (hp_cachePath p))"
  shows "file_content (os_core t) (hp_cachePath p) = Some (cache_text (cache_of p))"
proof -
  let ?path = "hp_cachePath p" and ?prefix = "cache_tmp_prefix (hp_cachePath p)" and ?new = "cache_text (cache_of p)"
  obtain t0 where r: "run_calls ?path (cache_write_calls ?path (cache_of p)) (s\<lparr>os_tmp := None\<rparr>) = (None, t0)"
    and t: "t = remove_tmp t0"
    using assms(1) by (auto simp: saveCache_def replace_file_def split: prod.splits)
  obtain s1 s2 s3 s4 s5 s6 where c: "exec_call ?path (SCreateTemp ?prefix) s1 = (None, s2)"
      "exec_call ?path (SWrite ?new) s2 = (None, s3)" "exec_call ?path SSync s3 = (None, s4)"
      "exec_call ?path SClose s4 = (None, s5)" "exec_call ?path SRename s5 = (None, s6)" "exec_call ?path SSyncDir s6 = (None, t0)"
    using r unfolding cache_write_calls_def run_calls_success run_calls.simps(1) by auto
  obtain name i where two: "os_tmp s2 = Some (name, i)" "HasPrefix name ?prefix"
    using exec_call_None [OF c(1)]
    by (fastforce simp: exec_ok_def visit_def Let_def split: option.splits dest: fresh_name_SomeD)
  have three: "os_tmp s3 = Some (name, i)" "fs_data (os_core s3) i = Some ?new"
    using exec_call_None [OF c(2)] two(1) by (auto simp: exec_ok_def visit_def Let_def)
  have four: "os_tmp s4 = Some (name, i)" "fs_data (os_core s4) i = Some ?new"
    using exec_call_None [OF c(3)] three by (auto simp: exec_ok_def visit_def Let_def)
  have five: "os_tmp s5 = Some (name, i)" "fs_data (os_core s5) i = Some ?new"
    using exec_call_None [OF c(4)] four by (auto simp: exec_ok_def visit_def Let_def)
  have ne: "name \<noteq> ?path" using two(2) assms(2) by blast
  have six: "os_tmp s6 = Some (name, i)" "fs_data (os_core s6) i = Some ?new" "fs_dir (os_core s6) ?path = Some i"
    using exec_call_None [OF c(5)] five ne by (auto simp: exec_ok_def visit_def Let_def)
  have "os_tmp t0 = Some (name, i)" "file_content (os_core t0) ?path = Some ?new"
    using exec_call_None [OF c(6)] six by (auto simp: exec_ok_def visit_def file_content_def Let_def)
  then show ?thesis using t remove_tmp_same(2) [of t0 ?path] ne by simp
qed

definition example_publisher :: hwmonPublisher where
  "example_publisher =
    \<lparr>hp_disks = \<lparr>inv_sensors = Some [\<lparr>hs_id = ''disk:WDC-1'', hs_label = ''disk1''\<rparr>], inv_needsReconcile = False\<rparr>,
     hp_hbas = fresh_inventory, hp_cachePath = ''/var/lib/hwmon-inventory.json'', hp_cacheDirty = True\<rparr>"

lemma example_publisher_ok: "cache_file_ok (hp_cachePath example_publisher) (example_os fs)" "cache_wf (cache_of example_publisher)"
proof -
  have "cache_tmp_prefix ''/var/lib/hwmon-inventory.json'' = ''/var/lib/.hwmon-inventory-''" by code_simp
  then show "cache_file_ok (hp_cachePath example_publisher) (example_os fs)"
    by (simp add: cache_file_ok_def example_publisher_def example_os_def fresh_inode_def HasPrefix_def)
  have "well_text ''disk:WDC-1''" "well_text ''disk1''" by (rule well_text_ascii, simp)+
  then show "cache_wf (cache_of example_publisher)"
    by (simp add: cache_wf_def cache_of_def family_to_cache_def sensorsToCache_def example_publisher_def
        fresh_inventory_def family_text_ok_def sensor_text_ok_def)
qed

theorem saveCache_crash_safe_witness:
  "store_updated (\<lambda>c v. stored_cache ''/var/lib/hwmon-inventory.json'' c = Inr v) ''/var/lib/hwmon-inventory.json'' True
     None (Some (cache_of example_publisher))
     (example_os [None, None, Some (errors_New ''no space left on device'', 3)])
     (saveCache example_publisher (example_os [None, None, Some (errors_New ''no space left on device'', 3)]))"
proof -
  let ?s = "example_os [None, None, Some (errors_New ''no space left on device'', 3)]"
  have path: "hp_cachePath example_publisher = ''/var/lib/hwmon-inventory.json''" by (simp add: example_publisher_def)
  have "stored_cache (hp_cachePath example_publisher) (file_content (os_core ?s) (hp_cachePath example_publisher)) = Inr None"
    by (simp add: example_os_def file_content_def stored_cache_def)
  from saveCache_crash_safe [OF example_publisher_ok this] show ?thesis by (simp add: path)
qed

end
