(* ===== verification/Hwmon_Temperatures.thy ===== *)
theory Hwmon_Temperatures
  imports Hwmon_Publish
begin

text \<open>
  Where the temperatures in the kernel come from: every operation of the publication leaves a
  sensor's temperature and the time of its update as they were, or sets them to a sample of the
  family being published and to the present.
\<close>

text \<open>
  A temperature in the kernel, with the time of its update, is one that was there, the failsafe
  value of a new sensor, or that of a sample written now.
\<close>

definition temperature_from :: "(string \<times> int) set \<Rightarrow> virt_temp \<Rightarrow> virt_temp \<Rightarrow> bool" where
  "temperature_from W vt vt' = (\<forall>y s'. sensor_of vt' y = Some s' \<longrightarrow>
    (\<exists>s. sensor_of vt y = Some s \<and> vs_temperature s = vs_temperature s' \<and> vs_last_update s = vs_last_update s') \<or>
    vs_temperature s' = FAILSAFE_MILLIC \<or> (y, vs_temperature s') \<in> W \<and> vs_last_update s' = vt_jiffies vt)"

lemma temperature_from_refl: "temperature_from W vt vt"
  by (auto simp: temperature_from_def)

lemma temperature_from_trans:
  assumes "temperature_from W u v" "temperature_from W v w" "vt_jiffies v = vt_jiffies u"
  shows "temperature_from W u w"
  using assms unfolding temperature_from_def by metis

lemma temperature_from_mono: "temperature_from V u v \<Longrightarrow> V \<subseteq> W \<Longrightarrow> temperature_from W u v"
  unfolding temperature_from_def by blast

lemma temperature_from_only:
  assumes "changes_only sid vt vt'"
    and "\<And>s'. sensor_of vt' sid = Some s' \<Longrightarrow>
      (\<exists>s. sensor_of vt sid = Some s \<and> vs_temperature s = vs_temperature s' \<and> vs_last_update s = vs_last_update s') \<or>
      vs_temperature s' = FAILSAFE_MILLIC \<or> (sid, vs_temperature s') \<in> W \<and> vs_last_update s' = vt_jiffies vt"
  shows "temperature_from W vt vt'"
  unfolding temperature_from_def
proof (intro allI impI)
  fix y s' assume "sensor_of vt' y = Some s'"
  then show "(\<exists>s. sensor_of vt y = Some s \<and> vs_temperature s = vs_temperature s' \<and> vs_last_update s = vs_last_update s') \<or>
      vs_temperature s' = FAILSAFE_MILLIC \<or> (y, vs_temperature s') \<in> W \<and> vs_last_update s' = vt_jiffies vt"
    using assms by (cases "y = sid") (auto simp: changes_only_def)
qed

lemma make_sensor_from:
  assumes "make_sensor ns key vt = (err, vt')" "vt_ok vt"
  shows "temperature_from W vt vt'"
proof -
  have "sensor_of vt' y = Some s' \<Longrightarrow> sensor_of vt y = Some s' \<or> vs_temperature s' = FAILSAFE_MILLIC" for y s'
    using assms by (auto simp: make_sensor_def sensor_of_def find_append split: if_splits sum.splits option.splits)
  then show ?thesis by (auto simp: temperature_from_def)
qed

lemma write_temperature_from:
  assumes "writeKernelAttribute (hwmonTemperatureDevicePath sid) (FormatInt m) k = (err, k')" "vt_ok (hk_vt k)" "int64_range m"
    "(sid, m) \<in> W"
  shows "temperature_from W (hk_vt k) (hk_vt k')"
  using write_temperature [OF assms(1-3)] assms(4)
  by (intro temperature_from_only) (auto simp: with_temperature_def map_option_case split: option.splits)

lemma label_store_from:
  assumes "label_store reg ns key page vt = (err, vt')"
  shows "temperature_from W vt vt'"
proof -
  have p: "vs_id (snd (sensor_label_store reg page s)) = vs_id s \<and>
      vs_temperature (snd (sensor_label_store reg page s)) = vs_temperature s \<and>
      vs_last_update (snd (sensor_label_store reg page s)) = vs_last_update s" for s
    by (simp add: sensor_label_store_def Let_def split: option.split)
  have "vt' = vt \<or> vt' = update_sensors (\<lambda>t. vs_family t = ns \<and> vs_name t = key) (\<lambda>t. snd (sensor_label_store reg page t)) vt"
    using assms by (auto simp: label_store_def split: option.splits)
  then show ?thesis
    using p by (auto simp: temperature_from_def update_sensors_of)
qed

lemma write_label_from:
  assumes "writeKernelAttribute (LabelFile ns key) l k = (err, k')"
  shows "temperature_from W (hk_vt k) (hk_vt k')"
  by (rule writeKernelAttribute_cases [OF assms]) (auto intro: label_store_from temperature_from_refl)

lemma shrinks_from: "shrinks ns d vt vt' \<Longrightarrow> temperature_from W vt vt'"
  unfolding shrinks_def temperature_from_def by (metis option.distinct(1))

lemma create_one_from:
  assumes "create_one ns x m k = (err, k')" "vt_ok (hk_vt k)" "id_ok ns (sample_id x)" "int64_range m" "(sample_id x, m) \<in> W"
  shows "temperature_from W (hk_vt k) (hk_vt k')"
proof -
  let ?sid = "sample_id x" and ?key = "hwmonSensorKey ns (sample_id x)"
  obtain err1 k1 where c1: "kernel_call (\<lambda>_. make_sensor ns ?key) k = (err1, k1)"
    by (cases "kernel_call (\<lambda>_. make_sensor ns ?key) k")
  obtain err2 k2 where c2: "writeKernelAttribute (hwmonTemperatureDevicePath ?sid) (FormatInt m) k1 = (err2, k2)"
    by (cases "writeKernelAttribute (hwmonTemperatureDevicePath ?sid) (FormatInt m) k1")
  obtain err3 k3 where c3: "writeKernelAttribute (LabelFile ns ?key) (hs_label (smp_sensor x)) k2 = (err3, k3)"
    by (cases "writeKernelAttribute (LabelFile ns ?key) (hs_label (smp_sensor x)) k2")
  have f1: "temperature_from W (hk_vt k) (hk_vt k1)" and s1: "changes_only ?sid (hk_vt k) (hk_vt k1)"
    by (rule kernel_call_cases [OF c1];
        use assms(2) key_decodes [OF assms(3)] in \<open>auto intro: make_sensor_from temperature_from_refl changes_only_refl make_sensor_only(1)\<close>)+
  have o1: "vt_ok (hk_vt k1)" "vt_jiffies (hk_vt k1) = vt_jiffies (hk_vt k)" using s1 by (simp_all add: changes_only_def)
  have f2: "temperature_from W (hk_vt k) (hk_vt k2)"
    using temperature_from_trans [OF f1 write_temperature_from [OF c2 o1(1) assms(4,5)]] o1(2) by blast
  have j2: "vt_jiffies (hk_vt k2) = vt_jiffies (hk_vt k)"
    using write_temperature(1) [OF c2 o1(1) assms(4)] o1(2) by (simp add: changes_only_def)
  have f3: "temperature_from W (hk_vt k) (hk_vt k3)"
    using temperature_from_trans [OF f2 write_label_from [OF c3]] j2 by blast
  have "k' \<in> {k1, k2, k3}"
    using assms(1) c1 c2 c3 by (auto simp: create_one_def Let_def split: if_splits option.splits)
  then show ?thesis using f1 f2 f3 by blast
qed

lemma create_sensors_from:
  assumes "create_sensors ns desired xs k = (res, k')" "vt_ok (hk_vt k)"
    "\<forall>(x, m) \<in> set xs. id_ok ns (sample_id x) \<and> int64_range m" "(\<lambda>(x, m). (sample_id x, m)) ` set xs \<subseteq> W"
  shows "temperature_from W (hk_vt k) (hk_vt k')"
  using assms
proof (induction xs arbitrary: desired k)
  case Nil
  then show ?case by (auto intro: temperature_from_refl)
next
  case (Cons p xs)
  obtain x m where p: "p = (x, m)" by (cases p)
  obtain err k1 where c: "create_one ns x m k = (err, k1)" by (cases "create_one ns x m k")
  have x: "id_ok ns (sample_id x)" "int64_range m" "(sample_id x, m) \<in> W" using Cons.prems(3,4) p by auto
  note eff = create_one_effect(1) [OF c Cons.prems(2) x(1,2)] and f = create_one_from [OF c Cons.prems(2) x]
  show ?case
  proof (cases err)
    case (Some e)
    then show ?thesis using f Cons.prems(1) p c by (auto simp: create_sensors_Cons simp del: create_sensors.simps)
  next
    case None
    then have "create_sensors ns (desired @ [hwmonSensorKey ns (sample_id x)]) xs k1 = (res, k')"
      using Cons.prems(1) p c by (simp add: create_sensors_Cons del: create_sensors.simps)
    then have "temperature_from W (hk_vt k1) (hk_vt k')"
      using Cons.IH changes_within_ok [OF eff] Cons.prems(3,4) by simp
    then show ?thesis using temperature_from_trans [OF f] changes_within_jiffies [OF eff] by blast
  qed
qed

lemma update_from:
  assumes "updateHWMonFamily xs k = (err, k')" "vt_ok (hk_vt k)" "\<forall>(x, m) \<in> set xs. int64_range m"
    "(\<lambda>(x, m). (sample_id x, m)) ` {p \<in> set xs. \<not> smp_skipRefresh (fst p)} \<subseteq> W"
  shows "temperature_from W (hk_vt k) (hk_vt k')"
  using assms
proof (induction xs arbitrary: k)
  case Nil
  then show ?case by (auto intro: temperature_from_refl)
next
  case (Cons p xs)
  obtain x m where p: "p = (x, m)" by (cases p)
  define r where "r = (if smp_skipRefresh x then kernel_call (path_open (hwmonTemperatureDevicePath (sample_id x))) k
      else writeKernelAttribute (hwmonTemperatureDevicePath (sample_id x)) (FormatInt m) k)"
  obtain e1 k1 where c: "r = (e1, k1)" by (cases r)
  have m: "int64_range m" using Cons.prems(3) p by auto
  note eff = refresh_one(1) [OF c [unfolded r_def] Cons.prems(2) m]
  have f: "temperature_from W (hk_vt k) (hk_vt k1)"
  proof (cases "smp_skipRefresh x")
    case True
    then have c': "kernel_call (path_open (hwmonTemperatureDevicePath (sample_id x))) k = (e1, k1)" using c r_def by simp
    show ?thesis by (rule kernel_call_cases [OF c']) (auto simp: path_open_def intro: temperature_from_refl)
  next
    case False
    then have "(sample_id x, m) \<in> W" using Cons.prems(4) p by force
    then show ?thesis using write_temperature_from [OF _ Cons.prems(2) m] c False by (simp add: r_def)
  qed
  show ?case
  proof (cases e1)
    case (Some e)
    then show ?thesis
      using f Cons.prems(1) c by (auto simp: p update_Cons r_def [symmetric] simp del: updateHWMonFamily.simps)
  next
    case None
    then have "updateHWMonFamily xs k1 = (err, k')"
      using Cons.prems(1) c by (simp add: p update_Cons r_def [symmetric] del: updateHWMonFamily.simps)
    moreover have "(\<lambda>(x, m). (sample_id x, m)) ` {p \<in> set xs. \<not> smp_skipRefresh (fst p)} \<subseteq> W"
      using Cons.prems(4) by auto
    ultimately have "temperature_from W (hk_vt k1) (hk_vt k')"
      using Cons.IH changes_within_ok [OF eff] Cons.prems(3) by simp
    then show ?thesis using temperature_from_trans [OF f] changes_within_jiffies [OF eff] by blast
  qed
qed

text \<open>The temperatures that publishing samples may write.\<close>

definition published_temperatures :: "hwmonSample list \<Rightarrow> (string \<times> int) set" where
  "published_temperatures xs = {(sample_id x, m) | x m. x \<in> set xs \<and> milli_celsius (smp_temperature x) = Some m}"

lemma valid_published:
  assumes "validateHWMonSamples ns xs = Inr ms"
  shows "(\<lambda>(x, m). (sample_id x, m)) ` set (zip xs ms) \<subseteq> published_temperatures xs"
proof clarify
  fix x m assume p: "(x, m) \<in> set (zip xs ms)"
  then have "x \<in> set xs" by (rule set_zip_leftD)
  moreover have "milli_celsius (smp_temperature x) = Some m"
    using validate_ok(1) [OF assms] p by (auto simp: list_all2_iff sample_valid_def)
  ultimately show "(sample_id x, m) \<in> published_temperatures xs" unfolding published_temperatures_def by blast
qed

lemma reconcile_from:
  assumes "reconcileHWMonFamily ns xs ms k = (err, k')" "vt_ok (hk_vt k)" "validateHWMonSamples ns xs = Inr ms"
  shows "temperature_from (published_temperatures xs) (hk_vt k) (hk_vt k')"
proof -
  note p = valid_pairs [OF assms(3)] and v = validate_ok [OF assms(3)]
  obtain res k1 where c: "create_sensors ns [] (zip xs ms) k = (res, k1)" by (cases "create_sensors ns [] (zip xs ms) k")
  note f = create_sensors_from [OF c assms(2) p(1) valid_published [OF assms(3)]]
  have "distinct (map (\<lambda>p. sample_id (fst p)) (zip xs ms))" using v(2) p(3) by simp
  note eff = create_sensors_effect [OF c assms(2) p(1) this]
  have ok: "vt_ok (hk_vt k1)" "vt_jiffies (hk_vt k1) = vt_jiffies (hk_vt k)"
    using eff by (auto dest: changes_within_ok changes_within_jiffies)
  obtain rerr k2 where r: "kernel_call (\<lambda>_ vt. (None, vt)) k1 = (rerr, k2)"
    by (cases "kernel_call (\<lambda>_ vt. (None :: go_error option, vt)) k1")
  have k2: "hk_vt k2 = hk_vt k1" by (rule kernel_call_cases [OF r]) auto
  have "(\<exists>d. remove_stale ns d (family_names ns (hk_vt k2)) k2 = (err, k')) \<or> hk_vt k' = hk_vt k1"
    using assms(1) c r k2 by (auto simp: reconcileHWMonFamily_def split: sum.splits option.splits)
  then show ?thesis
    using f temperature_from_trans [OF f _ ok(2)] remove_stale_effect [of ns _ "family_names ns (hk_vt k2)" k2 err k'] shrinks_from k2 ok(1)
    by (metis)
qed

lemma publish_from:
  assumes "publishHWMonFamily ns xs inventory k = (r, inventory', k')" "vt_ok (hk_vt k)"
  shows "temperature_from (published_temperatures xs) (hk_vt k) (hk_vt k')"
proof -
  have upd: "temperature_from (published_temperatures xs) (hk_vt k) (hk_vt l)"
    if "validateHWMonSamples ns xs = Inr ms" "updateHWMonFamily (zip xs ms) k = (e, l)" for ms e l
    using update_from [OF that(2) assms(2)] valid_pairs(1) [OF that(1)] valid_published [OF that(1)] by auto
  show ?thesis
  proof (rule publish_cases [OF assms(1)])
    fix ms k1 err e1
    assume a: "validateHWMonSamples ns xs = Inr ms" "k1 = k \<or> updateHWMonFamily (zip xs ms) k = (Some e1, k1)"
      "reconcileHWMonFamily ns xs ms k1 = (err, k')"
    have w: "changes_within (family_ids ns) (hk_vt k) (hk_vt k1)" using a(2) assms(2) valid_update(1) [OF a(1)] by blast
    have "temperature_from (published_temperatures xs) (hk_vt k) (hk_vt k1)"
      using a(2) upd [OF a(1)] temperature_from_refl by blast
    then show ?thesis
      using temperature_from_trans reconcile_from [OF a(3) changes_within_ok [OF w] a(1)] changes_within_jiffies [OF w] by blast
  qed (auto intro: temperature_from_refl upd)
qed

end
