(* ===== verification/Hwmon_Host.thy ===== *)
theory Hwmon_Host
  imports Hwmon_Cache Hwmon_Temperatures
begin

text \<open>
  The host command (\<^verbatim>\<open>hwmon.go\<close>, \<^verbatim>\<open>restore\<close> of \<^verbatim>\<open>hwmon_cache.go\<close> and \<^verbatim>\<open>expired\<close> of \<^verbatim>\<open>hwmon_stream.go\<close>):
  restoring the cached topology at the start, publishing each snapshot to both families, keeping
  the cache file current, and announcing a changed topology. A run of the main loop is a sequence
  of events: snapshots with the outcomes of all calls made for them, the passing of time in the
  kernel, and sensors that disappear behind the program's back.
\<close>

subsection \<open>Publishing a snapshot\<close>

definition reconciliationPending :: "hwmonPublisher \<Rightarrow> bool" where
  "reconciliationPending p = (inv_needsReconcile (hp_disks p) \<or> inv_needsReconcile (hp_hbas p))"

definition shouldNotifyTopologyChanged :: "hwmonPublisher \<Rightarrow> bool \<Rightarrow> bool \<Rightarrow> bool" where
  "shouldNotifyTopologyChanged p reconfigured firstGuestSnapshot =
    (let familyInitialized = (inv_sensors (hp_disks p) \<noteq> None \<or> inv_sensors (hp_hbas p) \<noteq> None) in
     \<not> reconciliationPending p \<and> (reconfigured \<or> firstGuestSnapshot \<and> familyInitialized))"

text \<open>
  One family of a snapshot: the error the guest reported, a missing inventory, or publication. The
  result is the error, whether the family was reconfigured, its record, the kernel and the lines
  logged.
\<close>

definition publish_part ::
    "string \<Rightarrow> string \<Rightarrow> string \<Rightarrow> string \<Rightarrow> bool \<Rightarrow> hwmonSample list \<Rightarrow> hwmonInventory \<Rightarrow> hwmon_kernel
      \<Rightarrow> go_error option \<times> bool \<times> hwmonInventory \<times> hwmon_kernel \<times> string list" where
  "publish_part namespace tag what message missing samples inventory k =
    (if message \<noteq> [] then (Some (errors_New (tag @ '': '' @ message)), False, inventory, k, [])
     else if missing then (Some (errors_New (tag @ '': inventory is missing; waiting for sensors'')), False, inventory, k, [])
     else case publishHWMonFamily namespace samples inventory k of
       (Inl e, inventory', k') \<Rightarrow> (Some (Errorf_w (tag @ '': '') e []), False, inventory', k', [])
     | (Inr changed, inventory', k') \<Rightarrow>
         (None, changed, inventory', k',
          if changed then [''configured '' @ what @ '' hwmon inventory with '' @ digits 10 (length samples) @ '' sensors'']
          else []))"

text \<open>\<^verbatim>\<open>(*hwmonPublisher).publish\<close>.\<close>

definition publisher_publish ::
    "Response \<Rightarrow> hwmonPublisher \<Rightarrow> hwmon_kernel \<Rightarrow> os_state
      \<Rightarrow> (bool \<times> go_error option) \<times> hwmonPublisher \<times> hwmon_kernel \<times> os_state \<times> string list" where
  "publisher_publish state p k s =
    (case makeHWMonSamples state of (disks, hbas) \<Rightarrow>
     case publish_part ''disk'' ''disks'' ''storage'' (resp_Error state) (resp_Disks state = None) disks (hp_disks p) k of
       (diskErr, disksReconfigured, dinv, k1, log1) \<Rightarrow>
     case publish_part ''hba'' ''HBA'' ''HBA'' (resp_HBAError state) (resp_HBAs state = None) hbas (hp_hbas p) k1 of
       (hbaErr, hbasReconfigured, hinv, k2, log2) \<Rightarrow>
     (let topologyChanged = (disksReconfigured \<or> hbasReconfigured);
          p1 = p\<lparr>hp_disks := dinv, hp_hbas := hinv, hp_cacheDirty := hp_cacheDirty p \<or> topologyChanged\<rparr>;
          reconfigured = (topologyChanged \<and> \<not> reconciliationPending p1)
      in if hp_cacheDirty p1
         then (case saveCache p1 s of
             (Some e, s1) \<Rightarrow>
               ((reconfigured, errors_Join [diskErr, hbaErr, Some (Errorf_w ''save hwmon inventory cache: '' e [])]),
                p1, k2, s1, log1 @ log2)
           | (None, s1) \<Rightarrow>
               ((reconfigured, errors_Join [diskErr, hbaErr]), p1\<lparr>hp_cacheDirty := False\<rparr>, k2, s1, log1 @ log2))
         else ((reconfigured, errors_Join [diskErr, hbaErr]), p1, k2, s, log1 @ log2)))"

subsection \<open>Restoring the cache\<close>

definition restore_part ::
    "string \<Rightarrow> string \<Rightarrow> cachedHWMonFamily option \<Rightarrow> hwmonInventory \<Rightarrow> hwmon_kernel
      \<Rightarrow> go_error option \<times> hwmonInventory \<times> hwmon_kernel" where
  "restore_part namespace tag family inventory k =
    (case family of
       None \<Rightarrow> (None, inventory, k)
     | Some f \<Rightarrow>
         (case publishHWMonFamily namespace (samplesFromCache (cf_Sensors f)) inventory k of
            (Inl e, inventory', k') \<Rightarrow> (Some (Errorf_w (''restore '' @ tag @ '': '') e []), inventory', k')
          | (Inr _, inventory', k') \<Rightarrow> (None, inventory', k')))"

definition restore ::
    "hwmonPublisher \<Rightarrow> hwmon_kernel \<Rightarrow> os_state \<Rightarrow> go_error option \<times> hwmonPublisher \<times> hwmon_kernel \<times> os_state \<times> string list" where
  "restore p k s =
    (case loadHWMonCache (hp_cachePath p) s of
       (Inl e, s1) \<Rightarrow> (Some e, p, k, s1, [])
     | (Inr None, s1) \<Rightarrow> (None, p, k, s1, [])
     | (Inr (Some cached), s1) \<Rightarrow>
         (case restore_part ''disk'' ''disks'' (ci_Disks cached) (hp_disks p) k of (diskErr, dinv, k1) \<Rightarrow>
          case restore_part ''hba'' ''HBA'' (ci_HBAs cached) (hp_hbas p) k1 of (hbaErr, hinv, k2) \<Rightarrow>
          let p1 = p\<lparr>hp_disks := dinv, hp_hbas := hinv\<rparr> in
          case errors_Join [diskErr, hbaErr] of
            Some e \<Rightarrow> (Some e, p1, k2, s1, [])
          | None \<Rightarrow> (None, p1, k2, s1, [''restored cached hwmon inventory from '' @ hp_cachePath p])))"

subsection \<open>The main loop\<close>

record receivedSnapshot =
  rs_response :: Response
  rs_receivedAt :: time

definition snapshotStreamTimeout :: duration where
  "snapshotStreamTimeout = 3 * second"

definition expired :: "receivedSnapshot \<Rightarrow> time \<Rightarrow> bool" where
  "expired snapshot now = (\<not> time_Before now (time_Add (rs_receivedAt snapshot) snapshotStreamTimeout))"

text \<open>\<^verbatim>\<open>Duration.Round(time.Millisecond)\<close> of a duration that is not negative.\<close>

definition round_ms :: "duration \<Rightarrow> duration" where
  "round_ms d = (let r = d mod 1000000 in if 2 * r < 1000000 then d - r else d + 1000000 - r)"

text \<open>\<^verbatim>\<open>notifyTopologyChanged\<close>: the file is touched when opening it works; closing may still fail.\<close>

definition notifyTopologyChanged :: "go_error option \<Rightarrow> go_error option \<Rightarrow> go_error option \<times> bool" where
  "notifyTopologyChanged open_err close_err =
    (case open_err of
       Some e \<Rightarrow> (Some (Errorf_w ''notify hwmon topology change: '' e []), False)
     | None \<Rightarrow>
         (case close_err of
            Some e \<Rightarrow> (Some (Errorf_w ''notify hwmon topology change: '' e []), True)
          | None \<Rightarrow> (None, True)))"

record hwmon_host =
  hh_pub :: hwmonPublisher
  hh_vt :: virt_temp
  hh_os :: os_state
  hh_seen :: bool
  hh_updateLog :: stickyErrorLog
  hh_notifications :: nat
  hh_lines :: "string list"

text \<open>A snapshot taken from the channel, the clock, and the outcomes of the calls it causes.\<close>

record snapshot_event =
  sn_snapshot :: receivedSnapshot
  sn_now :: time
  sn_later :: time
  sn_kernel :: "kernel_outcome list"
  sn_faults :: "(go_error \<times> nat) option list"
  sn_random :: "string list"
  sn_open :: "go_error option"
  sn_close :: "go_error option"

definition on_snapshot :: "hwmon_host \<Rightarrow> snapshot_event \<Rightarrow> hwmon_host" where
  "on_snapshot h ev =
    (if expired (sn_snapshot ev) (sn_now ev)
     then (case sticky_update (hh_updateLog h)
             (Some (errors_New (''discard snapshot queued for '' @
                dur_String (round_ms (time_Sub (sn_later ev) (rs_receivedAt (sn_snapshot ev))))))) of
             (ulog, lines) \<Rightarrow> h\<lparr>hh_updateLog := ulog, hh_lines := hh_lines h @ lines\<rparr>)
     else
       (case publisher_publish (rs_response (sn_snapshot ev)) (hh_pub h)
               \<lparr>hk_vt = hh_vt h, hk_outcomes = sn_kernel ev\<rparr>
               ((hh_os h)\<lparr>os_faults := sn_faults ev, os_random := sn_random ev\<rparr>) of
          ((reconfigured, publishErr), p, k, s, lines1) \<Rightarrow>
            (case (if shouldNotifyTopologyChanged p reconfigured (\<not> hh_seen h)
                   then notifyTopologyChanged (sn_open ev) (sn_close ev) else (None, False)) of
               (notifyErr, touched) \<Rightarrow>
                 (case sticky_update (hh_updateLog h)
                         (if notifyErr = None then publishErr else errors_Join [publishErr, notifyErr]) of
                    (ulog, lines2) \<Rightarrow>
                      h\<lparr>hh_pub := p, hh_vt := hk_vt k, hh_os := s, hh_seen := True, hh_updateLog := ulog,
                        hh_notifications := hh_notifications h + (if touched then 1 else 0),
                        hh_lines := hh_lines h @ lines1 @ lines2\<rparr>))))"

datatype host_event =
    Snapshot snapshot_event
  | Elapse nat
  | Vanish "string list"

text \<open>Sensors that disappear: the module is reloaded or directories are removed.\<close>

definition vanish :: "string list \<Rightarrow> virt_temp \<Rightarrow> virt_temp" where
  "vanish ids vt = vt\<lparr>vt_sensors := filter (\<lambda>s. vs_id s \<notin> set ids) (vt_sensors vt)\<rparr>"

fun host_step :: "hwmon_host \<Rightarrow> host_event \<Rightarrow> hwmon_host" where
  "host_step h (Snapshot ev) = on_snapshot h ev"
| "host_step h (Elapse n) = h\<lparr>hh_vt := (hh_vt h)\<lparr>vt_jiffies := vt_jiffies (hh_vt h) + n\<rparr>\<rparr>"
| "host_step h (Vanish ids) = h\<lparr>hh_vt := vanish ids (hh_vt h)\<rparr>"

text \<open>
  \<^verbatim>\<open>hwmonOrchestrationLoop\<close> on what its \<^verbatim>\<open>select\<close> delivers; \<^term>\<open>None\<close> as a result means that the loop
  still waits.
\<close>

datatype select_event =
    Happens host_event
  | BackgroundError "go_error option" bool
  | ContextDone

fun hwmonOrchestrationLoop :: "hwmon_host \<Rightarrow> select_event list \<Rightarrow> hwmon_host \<times> go_error option option" where
  "hwmonOrchestrationLoop h [] = (h, None)"
| "hwmonOrchestrationLoop h (Happens e # es) = hwmonOrchestrationLoop (host_step h e) es"
| "hwmonOrchestrationLoop h (BackgroundError err cancelled # es) =
    (h, Some (if err = None \<and> cancelled then None else err))"
| "hwmonOrchestrationLoop h (ContextDone # es) = (h, Some None)"

text \<open>\<^verbatim>\<open>runHWMon\<close> up to the loop: restore the cache and log its warning.\<close>

definition initial_publisher :: "string \<Rightarrow> hwmonPublisher" where
  "initial_publisher path =
    \<lparr>hp_disks = fresh_inventory, hp_hbas = fresh_inventory, hp_cachePath = path, hp_cacheDirty = False\<rparr>"

definition start_host :: "string \<Rightarrow> hwmon_kernel \<Rightarrow> os_state \<Rightarrow> hwmon_host" where
  "start_host path k s =
    (case restore (initial_publisher path) k s of (err, p, k1, s1, lines) \<Rightarrow>
      \<lparr>hh_pub = p, hh_vt = hk_vt k1, hh_os = s1, hh_seen = False,
       hh_updateLog = \<lparr>sticky_context = ''hwmon update'', sticky_last = []\<rparr>, hh_notifications = 0,
       hh_lines = lines @ (case err of None \<Rightarrow> [] | Some e \<Rightarrow> [''hwmon inventory cache warning: '' @ Error e])\<rparr>)"

end
