(* ===== verification/Hwmon_Host_Correct.thy ===== *)
theory Hwmon_Host_Correct
  imports Hwmon_Host
begin

text \<open>
  What holds over every run of the host: its records and its cache file stay true to the kernel,
  an announcement is only made of a settled topology, and every temperature the kernel shows is
  the failsafe value or one the guest sent recently.
\<close>

subsection \<open>The invariant of the host\<close>

definition inventory_text_ok :: "hwmonInventory \<Rightarrow> bool" where
  "inventory_text_ok i = list_all (\<lambda>s. well_text (hs_id s) \<and> well_text (hs_label s)) (elements (inv_sensors i))"

text \<open>The cache file holds the recorded sensors of a family.\<close>

definition family_cached :: "(cachedHWMonInventory \<Rightarrow> cachedHWMonFamily option) \<Rightarrow> string \<Rightarrow> hwmonInventory \<Rightarrow> string option \<Rightarrow> bool" where
  "family_cached get path i content = (case inv_sensors i of None \<Rightarrow> True | Some ss \<Rightarrow>
    (\<exists>c f. stored_cache path content = Inr (Some c) \<and> get c = Some f \<and> elements (cf_Sensors f) = sensorsToCache ss))"

definition cache_current :: "hwmonPublisher \<Rightarrow> string option \<Rightarrow> bool" where
  "cache_current p content = (hp_cacheDirty p \<or>
    family_cached ci_Disks (hp_cachePath p) (hp_disks p) content \<and> family_cached ci_HBAs (hp_cachePath p) (hp_hbas p) content)"

definition path_ok :: "string \<Rightarrow> bool" where
  "path_ok path = (\<not> HasPrefix path (cache_tmp_prefix path))"

definition families_ok :: "hwmonPublisher \<Rightarrow> virt_temp \<Rightarrow> bool" where
  "families_ok p vt = (vt_ok vt \<and> record_ok ''disk'' (hp_disks p) vt \<and> record_ok ''hba'' (hp_hbas p) vt \<and>
    inventory_text_ok (hp_disks p) \<and> inventory_text_ok (hp_hbas p))"

definition host_inv :: "hwmon_host \<Rightarrow> bool" where
  "host_inv h = (families_ok (hh_pub h) (hh_vt h) \<and> path_ok (hp_cachePath (hh_pub h)) \<and>
    cache_current (hh_pub h) (file_content (os_core (hh_os h)) (hp_cachePath (hh_pub h))))"

text \<open>Publishing one family leaves the record of the other true.\<close>

lemma record_ok_frame:
  assumes "record_ok ns inventory u" "changes_within (family_ids ns') u v" "vt_ok u"
    "(ns, ns') \<in> {(''disk'', ''hba''), (''hba'', ''disk'')}"
  shows "record_ok ns inventory v"
proof -
  have "sensor_of u y = Some s" if "sensor_of v y = Some s" "vs_family s = ns" for y s
  proof -
    have "HasPrefix (vs_id s) (ns @ '':'')" "vs_id s = y"
      using that assms(4) changes_within_ok [OF assms(2)] vt_ok_family [of v s ns] by (auto simp: sensor_of_iff)
    then have "y \<notin> family_ids ns'" using assms(4) by (auto simp: HasPrefix_iff)
    then show ?thesis using assms(2) that(1) by (simp add: changes_within_def)
  qed
  then show ?thesis using assms(1) unfolding record_ok_def by (auto split: option.splits)
qed

lemma publish_sensors:
  assumes "publishHWMonFamily ns xs inventory k = (r, inventory', k')"
  shows "inv_sensors inventory' = (if r = Inr True then Some (sensorsFromSamples xs) else inv_sensors inventory)"
    and "r = Inr True \<Longrightarrow> \<exists>ms. validateHWMonSamples ns xs = Inr ms"
    and "inventory' = inventory \<or> inv_needsReconcile inventory' \<or> r = Inr True"
  by (rule publish_cases [OF assms]; auto split: if_splits)+

definition samples_text_ok :: "hwmonSample list \<Rightarrow> bool" where
  "samples_text_ok xs = list_all (\<lambda>x. well_text (sample_id x) \<and> well_text (hs_label (smp_sensor x))) xs"

lemma publish_text_ok:
  assumes "publishHWMonFamily ns xs inventory k = (r, inventory', k')" "inventory_text_ok inventory" "samples_text_ok xs"
  shows "inventory_text_ok inventory'"
  using publish_sensors(1) [OF assms(1)] assms(2,3)
  by (auto simp: inventory_text_ok_def samples_text_ok_def sensorsFromSamples_def list_all_iff)

text \<open>Text read from a snapshot or a file is well-formed.\<close>

definition response_text_ok :: "Response \<Rightarrow> bool" where
  "response_text_ok r = (list_all (\<lambda>d. well_text (disk_ID d)) (elements (resp_Disks r)) \<and>
    list_all (\<lambda>h. well_text (hba_ID h)) (elements (resp_HBAs r)))"

lemma label_ok_text: "label_ok l \<Longrightarrow> well_text l"
  by (simp add: label_ok_def)

lemma well_text_prefixes:
  "well_text ''disk:''" "well_text ''hba:''" "well_text ''hba:board:''" "well_text ''disk:group:''"
  by (rule well_text_ascii, simp)+

lemma well_text_kind: "well_text (kind_text k)"
proof -
  have "well_text ''hdd''" "well_text ''ssd''" "well_text ''nvme''" "well_text ''other-ssd''"
    by (rule well_text_ascii, simp)+
  then show ?thesis by (cases k) simp_all
qed

lemma hba_sample_ids: "s \<in> set (hba_samples h) \<Longrightarrow> sample_id s = ''hba:'' @ hba_ID h \<or> sample_id s = ''hba:board:'' @ hba_ID h"
  by (auto simp: hba_samples_def makeHBASample_def Let_def split: option.splits if_splits)

lemma sample_texts:
  assumes "response_text_ok state"
  shows "samples_text_ok (fst (makeHWMonSamples state))" "samples_text_ok (snd (makeHWMonSamples state))"
proof -
  have l: "\<forall>s \<in> set (fst (makeHWMonSamples state)) \<union> set (snd (makeHWMonSamples state)). label_ok (hs_label (smp_sensor s))"
    by (auto simp: makeHWMonSamples_def Let_def disk_sample_label intro: group_samples_label hba_samples_label)
  have "\<forall>s \<in> set (fst (makeHWMonSamples state)). well_text (sample_id s)"
    using assms well_text_append [OF well_text_prefixes(1)] well_text_append [OF well_text_prefixes(4) well_text_kind]
    by (fastforce simp: makeHWMonSamples_def Let_def response_text_ok_def list_all_iff group_samples_def disk_sample_def
        split: prod.splits if_splits)
  moreover have "\<forall>s \<in> set (snd (makeHWMonSamples state)). well_text (sample_id s)"
  proof
    fix s assume "s \<in> set (snd (makeHWMonSamples state))"
    then obtain h where "h \<in> set (elements (resp_HBAs state))" "s \<in> set (hba_samples h)"
      by (auto simp: makeHWMonSamples_def Let_def)
    then show "well_text (sample_id s)"
      using assms well_text_append [OF well_text_prefixes(2)] well_text_append [OF well_text_prefixes(3)] hba_sample_ids [of s h]
      by (auto simp: response_text_ok_def list_all_iff)
  qed
  ultimately show "samples_text_ok (fst (makeHWMonSamples state))" "samples_text_ok (snd (makeHWMonSamples state))"
    using l label_ok_text by (auto simp: samples_text_ok_def list_all_iff)
qed

lemma cache_of_wf: "inventory_text_ok (hp_disks p) \<Longrightarrow> inventory_text_ok (hp_hbas p) \<Longrightarrow> cache_wf (cache_of p)"
  by (auto simp: cache_wf_def cache_of_def family_to_cache_def family_text_ok_def inventory_text_ok_def sensorsToCache_def
      sensor_text_ok_def list_all_iff split: option.splits)

lemma saved_current:
  assumes "saveCache p s = (None, t)" "path_ok (hp_cachePath p)" "cache_wf (cache_of p)"
  shows "cache_current (p\<lparr>hp_cacheDirty := False\<rparr>) (file_content (os_core t) (hp_cachePath p))"
proof -
  have "stored_cache (hp_cachePath p) (file_content (os_core t) (hp_cachePath p)) = Inr (Some (cache_of p))"
    using save_success [OF assms(1)] assms(2,3) by (simp add: stored_cache_def parse_cache_text path_ok_def)
  then show ?thesis
    by (auto simp: cache_current_def family_cached_def cache_of_def family_to_cache_def split: option.split)
qed

lemma publish_part_effect:
  assumes "publish_part ns tag what message missing xs inventory k = (err, changed, inventory', k', lines)"
    and "vt_ok (hk_vt k)" "record_ok ns inventory (hk_vt k)" "inventory_text_ok inventory" "samples_text_ok xs"
  shows "changes_within (family_ids ns) (hk_vt k) (hk_vt k')" "record_ok ns inventory' (hk_vt k')"
    "inventory_text_ok inventory'" "temperature_from (published_temperatures xs) (hk_vt k) (hk_vt k')"
    "\<not> changed \<Longrightarrow> inv_sensors inventory' = inv_sensors inventory" "changed \<Longrightarrow> inv_sensors inventory' = Some (sensorsFromSamples xs)"
proof -
  consider "err \<noteq> None" "changed = False" "inventory' = inventory" "k' = k" |
    r where "publishHWMonFamily ns xs inventory k = (r, inventory', k')" "changed = (r = Inr True)"
    using assms(1) by (auto simp: publish_part_def split: if_splits prod.splits sum.splits)
  then have "changes_within (family_ids ns) (hk_vt k) (hk_vt k') \<and> record_ok ns inventory' (hk_vt k') \<and>
    inventory_text_ok inventory' \<and> temperature_from (published_temperatures xs) (hk_vt k) (hk_vt k') \<and>
    (\<not> changed \<longrightarrow> inv_sensors inventory' = inv_sensors inventory) \<and> (changed \<longrightarrow> inv_sensors inventory' = Some (sensorsFromSamples xs))"
  proof cases
    case 1
    then show ?thesis using assms(2-4) by (auto intro: temperature_from_refl)
  next
    case (2 r)
    then show ?thesis
      using publish_frame [OF 2(1) assms(2)] publish_record [OF 2(1) assms(2,3)] publish_text_ok [OF 2(1) assms(4,5)]
        publish_from [OF 2(1) assms(2)] publish_sensors(1) [OF 2(1)] by auto
  qed
  then show "changes_within (family_ids ns) (hk_vt k) (hk_vt k')" "record_ok ns inventory' (hk_vt k')"
    "inventory_text_ok inventory'" "temperature_from (published_temperatures xs) (hk_vt k) (hk_vt k')"
    "\<not> changed \<Longrightarrow> inv_sensors inventory' = inv_sensors inventory" "changed \<Longrightarrow> inv_sensors inventory' = Some (sensorsFromSamples xs)"
    by blast+
qed

lemma both_parts:
  assumes "publish_part ''disk'' t1 w1 m1 n1 xs (hp_disks p) k = (e1, c1, dinv, k1, l1)"
    and "publish_part ''hba'' t2 w2 m2 n2 ys (hp_hbas p) k1 = (e2, c2, hinv, k2, l2)"
    and "families_ok p (hk_vt k)" "samples_text_ok xs" "samples_text_ok ys"
  shows "families_ok (p\<lparr>hp_disks := dinv, hp_hbas := hinv\<rparr>) (hk_vt k2)"
    "temperature_from (published_temperatures xs \<union> published_temperatures ys) (hk_vt k) (hk_vt k2)"
    "vt_jiffies (hk_vt k2) = vt_jiffies (hk_vt k)" "vt_HZ (hk_vt k2) = vt_HZ (hk_vt k)"
    "vt_stale_timeout (hk_vt k2) = vt_stale_timeout (hk_vt k)"
    "inv_sensors dinv = (if c1 then Some (sensorsFromSamples xs) else inv_sensors (hp_disks p))"
    "inv_sensors hinv = (if c2 then Some (sensorsFromSamples ys) else inv_sensors (hp_hbas p))"
proof -
  have ok: "vt_ok (hk_vt k)" "record_ok ''disk'' (hp_disks p) (hk_vt k)" "inventory_text_ok (hp_disks p)"
    "record_ok ''hba'' (hp_hbas p) (hk_vt k)" "inventory_text_ok (hp_hbas p)" using assms(3) by (auto simp: families_ok_def)
  note d = publish_part_effect [OF assms(1) ok(1-3) assms(4)]
  note ok1 = changes_within_ok [OF d(1)]
  have r1: "record_ok ''hba'' (hp_hbas p) (hk_vt k1)" using record_ok_frame [OF ok(4) d(1) ok(1)] by simp
  note h = publish_part_effect [OF assms(2) ok1 r1 ok(5) assms(5)]
  have "record_ok ''disk'' dinv (hk_vt k2)" using record_ok_frame [OF d(2) h(1) ok1] by simp
  then show "families_ok (p\<lparr>hp_disks := dinv, hp_hbas := hinv\<rparr>) (hk_vt k2)"
    using d(3) h(2,3) changes_within_ok [OF h(1)] by (simp add: families_ok_def)
  show "temperature_from (published_temperatures xs \<union> published_temperatures ys) (hk_vt k) (hk_vt k2)"
    using temperature_from_trans [OF temperature_from_mono [OF d(4)] temperature_from_mono [OF h(4)] changes_within_jiffies [OF d(1)]]
    by blast
  show "vt_jiffies (hk_vt k2) = vt_jiffies (hk_vt k)" "vt_HZ (hk_vt k2) = vt_HZ (hk_vt k)"
    "vt_stale_timeout (hk_vt k2) = vt_stale_timeout (hk_vt k)"
    using d(1) h(1) by (simp_all add: changes_within_def)
  show "inv_sensors dinv = (if c1 then Some (sensorsFromSamples xs) else inv_sensors (hp_disks p))"
    "inv_sensors hinv = (if c2 then Some (sensorsFromSamples ys) else inv_sensors (hp_hbas p))"
    using d(5,6) h(5,6) by auto
qed

text \<open>The temperatures of a snapshot, by sensor.\<close>

definition snapshot_temperatures :: "Response \<Rightarrow> (string \<times> int) set" where
  "snapshot_temperatures state =
    published_temperatures (fst (makeHWMonSamples state)) \<union> published_temperatures (snd (makeHWMonSamples state))"

lemma publisher_publish_effect:
  assumes "publisher_publish state p k s = ((reconfigured, err), p', k', s', lines)"
    and "families_ok p (hk_vt k)" "response_text_ok state" "path_ok (hp_cachePath p)"
    "cache_current p (file_content (os_core s) (hp_cachePath p))"
  shows "families_ok p' (hk_vt k')" "hp_cachePath p' = hp_cachePath p"
    "cache_current p' (file_content (os_core s') (hp_cachePath p'))"
    "temperature_from (snapshot_temperatures state) (hk_vt k) (hk_vt k')"
    "vt_jiffies (hk_vt k') = vt_jiffies (hk_vt k) \<and> vt_HZ (hk_vt k') = vt_HZ (hk_vt k) \<and>
      vt_stale_timeout (hk_vt k') = vt_stale_timeout (hk_vt k)"
    "reconfigured \<Longrightarrow> (inv_sensors (hp_disks p') \<noteq> None \<or> inv_sensors (hp_hbas p') \<noteq> None) \<and> \<not> reconciliationPending p'"
proof -
  obtain xs ys where xy: "makeHWMonSamples state = (xs, ys)" by (cases "makeHWMonSamples state")
  obtain e1 c1 dinv k1 l1 where pd: "publish_part ''disk'' ''disks'' ''storage'' (resp_Error state) (resp_Disks state = None) xs (hp_disks p) k
      = (e1, c1, dinv, k1, l1)" by (metis prod_cases5)
  obtain e2 c2 hinv k2 l2 where ph: "publish_part ''hba'' ''HBA'' ''HBA'' (resp_HBAError state) (resp_HBAs state = None) ys (hp_hbas p) k1
      = (e2, c2, hinv, k2, l2)" by (metis prod_cases5)
  have t: "samples_text_ok xs" "samples_text_ok ys" using sample_texts [OF assms(3)] xy by simp_all
  note b = both_parts [OF pd ph assms(2) t]
  define p1 where "p1 = p\<lparr>hp_disks := dinv, hp_hbas := hinv, hp_cacheDirty := hp_cacheDirty p \<or> c1 \<or> c2\<rparr>"
  have ok1: "families_ok p1 (hk_vt k2)" using b(1) by (simp add: p1_def families_ok_def)
  have k': "k' = k2" and rec: "reconfigured = ((c1 \<or> c2) \<and> \<not> reconciliationPending p1)"
    and save: "\<not> hp_cacheDirty p1 \<and> p' = p1 \<and> s' = s \<or>
      (\<exists>e. saveCache p1 s = (Some e, s')) \<and> p' = p1 \<and> hp_cacheDirty p1 \<or>
      saveCache p1 s = (None, s') \<and> p' = p1\<lparr>hp_cacheDirty := False\<rparr>"
    using assms(1) xy pd ph by (auto simp: publisher_publish_def Let_def p1_def split: if_splits option.splits prod.splits)
  have same: "hp_disks p' = dinv" "hp_hbas p' = hinv" and path: "hp_cachePath p' = hp_cachePath p"
    using save by (auto simp: p1_def)
  show "families_ok p' (hk_vt k')" using ok1 k' save by (auto simp: families_ok_def)
  show "hp_cachePath p' = hp_cachePath p" by (rule path)
  show "temperature_from (snapshot_temperatures state) (hk_vt k) (hk_vt k')"
    using b(2) k' xy by (simp add: snapshot_temperatures_def)
  show "vt_jiffies (hk_vt k') = vt_jiffies (hk_vt k) \<and> vt_HZ (hk_vt k') = vt_HZ (hk_vt k) \<and>
      vt_stale_timeout (hk_vt k') = vt_stale_timeout (hk_vt k)" using b(3-5) k' by simp
  show "reconfigured \<Longrightarrow> (inv_sensors (hp_disks p') \<noteq> None \<or> inv_sensors (hp_hbas p') \<noteq> None) \<and> \<not> reconciliationPending p'"
    using rec b(6,7) same by (auto simp: reconciliationPending_def p1_def)
  have wf: "cache_wf (cache_of p1)" using ok1 by (auto simp: families_ok_def intro: cache_of_wf)
  have pp: "hp_cachePath p1 = hp_cachePath p" by (simp add: p1_def)
  show "cache_current p' (file_content (os_core s') (hp_cachePath p'))"
  proof -
    consider "\<not> hp_cacheDirty p1" "p' = p1" "s' = s" | "p' = p1" "hp_cacheDirty p1" |
      "saveCache p1 s = (None, s')" "p' = p1\<lparr>hp_cacheDirty := False\<rparr>" using save by blast
    then show ?thesis
    proof cases
      case 1
      then have "\<not> c1" "\<not> c2" "\<not> hp_cacheDirty p" by (auto simp: p1_def)
      then have "inv_sensors (hp_disks p') = inv_sensors (hp_disks p)" "inv_sensors (hp_hbas p') = inv_sensors (hp_hbas p)"
        using b(6,7) same by simp_all
      then show ?thesis using assms(5) 1 \<open>\<not> hp_cacheDirty p\<close> path by (simp add: cache_current_def family_cached_def)
    next
      case 2
      then show ?thesis by (simp add: cache_current_def)
    next
      case 3
      then show ?thesis using saved_current [OF 3(1) _ wf] assms(4) pp path by simp
    qed
  qed
qed

lemma vanish_of:
  "vt_ok vt \<Longrightarrow> vt_ok (vanish ids vt)"
  "sensor_of (vanish ids vt) y = (if y \<in> set ids then None else sensor_of vt y)"
proof -
  show "vt_ok vt \<Longrightarrow> vt_ok (vanish ids vt)"
    by (auto simp: vt_ok_def vanish_def list_all_iff distinct_map_filter)
  have "find (\<lambda>s. vs_id s = y) (filter (\<lambda>s. vs_id s \<notin> set ids) xs) =
      (if y \<in> set ids then None else find (\<lambda>s. vs_id s = y) xs)" for xs :: "virt_sensor list"
    by (induction xs) auto
  then show "sensor_of (vanish ids vt) y = (if y \<in> set ids then None else sensor_of vt y)"
    by (simp add: sensor_of_def vanish_def)
qed

lemma record_ok_vanish: "record_ok ns i vt \<Longrightarrow> record_ok ns i (vanish ids vt)"
  unfolding record_ok_def vanish_of by (auto split: option.splits if_splits)

lemma record_ok_sensors: "record_ok ns i vt \<Longrightarrow> vt_sensors vt' = vt_sensors vt \<Longrightarrow> record_ok ns i vt'"
proof -
  assume r: "record_ok ns i vt" and "vt_sensors vt' = vt_sensors vt"
  then have same: "sensor_of vt' = sensor_of vt" by (intro ext) (simp add: sensor_of_def)
  show ?thesis using r unfolding record_ok_def same .
qed

fun event_ok :: "host_event \<Rightarrow> bool" where
  "event_ok (Snapshot ev) = response_text_ok (rs_response (sn_snapshot ev))"
| "event_ok _ = True"

text \<open>One snapshot that is not discarded, as a publication followed by the announcement.\<close>

lemma on_snapshot_published:
  assumes "\<not> expired (sn_snapshot ev) (sn_now ev)"
  obtains reconfigured err p k s lines1 lines2 ulog n where
    "publisher_publish (rs_response (sn_snapshot ev)) (hh_pub h) \<lparr>hk_vt = hh_vt h, hk_outcomes = sn_kernel ev\<rparr>
      ((hh_os h)\<lparr>os_faults := sn_faults ev, os_random := sn_random ev\<rparr>) = ((reconfigured, err), p, k, s, lines1)"
    "on_snapshot h ev = h\<lparr>hh_pub := p, hh_vt := hk_vt k, hh_os := s, hh_seen := True, hh_updateLog := ulog,
      hh_notifications := n, hh_lines := hh_lines h @ lines1 @ lines2\<rparr>"
    "n = hh_notifications h \<or> n = hh_notifications h + 1 \<and> shouldNotifyTopologyChanged p reconfigured (\<not> hh_seen h)"
proof -
  obtain x p k s lines1 where
    xx: "publisher_publish (rs_response (sn_snapshot ev)) (hh_pub h) \<lparr>hk_vt = hh_vt h, hk_outcomes = sn_kernel ev\<rparr>
      ((hh_os h)\<lparr>os_faults := sn_faults ev, os_random := sn_random ev\<rparr>) = (x, p, k, s, lines1)"
    by (rule prod_cases5)
  obtain reconfigured err where "x = (reconfigured, err)" by (cases x)
  with xx have
    pp: "publisher_publish (rs_response (sn_snapshot ev)) (hh_pub h) \<lparr>hk_vt = hh_vt h, hk_outcomes = sn_kernel ev\<rparr>
      ((hh_os h)\<lparr>os_faults := sn_faults ev, os_random := sn_random ev\<rparr>) = ((reconfigured, err), p, k, s, lines1)"
    by simp
  obtain ne touched where nt: "(if shouldNotifyTopologyChanged p reconfigured (\<not> hh_seen h)
      then notifyTopologyChanged (sn_open ev) (sn_close ev) else (None, False)) = (ne, touched)"
    by (cases "if shouldNotifyTopologyChanged p reconfigured (\<not> hh_seen h)
      then notifyTopologyChanged (sn_open ev) (sn_close ev) else (None, False)")
  obtain ulog lines2 where st: "sticky_update (hh_updateLog h) (if ne = None then err else errors_Join [err, ne]) = (ulog, lines2)"
    by (cases "sticky_update (hh_updateLog h) (if ne = None then err else errors_Join [err, ne])")
  let ?n = "hh_notifications h + (if touched then 1 else 0)"
  have "on_snapshot h ev = h\<lparr>hh_pub := p, hh_vt := hk_vt k, hh_os := s, hh_seen := True, hh_updateLog := ulog,
      hh_notifications := ?n, hh_lines := hh_lines h @ lines1 @ lines2\<rparr>"
    unfolding on_snapshot_def using assms by (simp only: pp nt st prod.case if_False)
  moreover have "?n = hh_notifications h \<or> ?n = hh_notifications h + 1 \<and> shouldNotifyTopologyChanged p reconfigured (\<not> hh_seen h)"
    using nt by (auto split: if_splits)
  ultimately show ?thesis by (rule that [OF pp])
qed

text \<open>The temperatures a snapshot may bring into the kernel: none when it is discarded.\<close>

definition event_temperatures :: "snapshot_event \<Rightarrow> (string \<times> int) set" where
  "event_temperatures ev =
    (if expired (sn_snapshot ev) (sn_now ev) then {} else snapshot_temperatures (rs_response (sn_snapshot ev)))"

lemma on_snapshot_effect:
  assumes "host_inv h" "event_ok (Snapshot ev)"
  shows "host_inv (on_snapshot h ev)" "hp_cachePath (hh_pub (on_snapshot h ev)) = hp_cachePath (hh_pub h)"
    "vt_jiffies (hh_vt (on_snapshot h ev)) = vt_jiffies (hh_vt h) \<and> vt_HZ (hh_vt (on_snapshot h ev)) = vt_HZ (hh_vt h) \<and>
      vt_stale_timeout (hh_vt (on_snapshot h ev)) = vt_stale_timeout (hh_vt h)"
    "temperature_from (event_temperatures ev) (hh_vt h) (hh_vt (on_snapshot h ev))"
    "hh_notifications (on_snapshot h ev) \<noteq> hh_notifications h \<Longrightarrow>
      (inv_sensors (hp_disks (hh_pub (on_snapshot h ev))) \<noteq> None \<or> inv_sensors (hp_hbas (hh_pub (on_snapshot h ev))) \<noteq> None) \<and>
      \<not> reconciliationPending (hh_pub (on_snapshot h ev))"
proof -
  have "host_inv (on_snapshot h ev) \<and> hp_cachePath (hh_pub (on_snapshot h ev)) = hp_cachePath (hh_pub h) \<and>
    (vt_jiffies (hh_vt (on_snapshot h ev)) = vt_jiffies (hh_vt h) \<and> vt_HZ (hh_vt (on_snapshot h ev)) = vt_HZ (hh_vt h) \<and>
      vt_stale_timeout (hh_vt (on_snapshot h ev)) = vt_stale_timeout (hh_vt h)) \<and>
    temperature_from (event_temperatures ev) (hh_vt h) (hh_vt (on_snapshot h ev)) \<and>
    (hh_notifications (on_snapshot h ev) \<noteq> hh_notifications h \<longrightarrow>
      (inv_sensors (hp_disks (hh_pub (on_snapshot h ev))) \<noteq> None \<or> inv_sensors (hp_hbas (hh_pub (on_snapshot h ev))) \<noteq> None) \<and>
      \<not> reconciliationPending (hh_pub (on_snapshot h ev)))"
  proof (cases "expired (sn_snapshot ev) (sn_now ev)")
    case True
    then show ?thesis
      using assms by (simp add: on_snapshot_def host_inv_def temperature_from_refl split: prod.split)
  next
    case False
    then show ?thesis
    proof (rule on_snapshot_published [where h = h])
      fix reconfigured err p k s lines1 lines2 ulog n
      assume pp: "publisher_publish (rs_response (sn_snapshot ev)) (hh_pub h) \<lparr>hk_vt = hh_vt h, hk_outcomes = sn_kernel ev\<rparr>
        ((hh_os h)\<lparr>os_faults := sn_faults ev, os_random := sn_random ev\<rparr>) = ((reconfigured, err), p, k, s, lines1)"
        and os: "on_snapshot h ev = h\<lparr>hh_pub := p, hh_vt := hk_vt k, hh_os := s, hh_seen := True, hh_updateLog := ulog,
        hh_notifications := n, hh_lines := hh_lines h @ lines1 @ lines2\<rparr>"
        and n: "n = hh_notifications h \<or> n = hh_notifications h + 1 \<and> shouldNotifyTopologyChanged p reconfigured (\<not> hh_seen h)"
      have pre: "families_ok (hh_pub h) (hk_vt \<lparr>hk_vt = hh_vt h, hk_outcomes = sn_kernel ev\<rparr>)"
        "response_text_ok (rs_response (sn_snapshot ev))" "path_ok (hp_cachePath (hh_pub h))"
        "cache_current (hh_pub h) (file_content (os_core ((hh_os h)\<lparr>os_faults := sn_faults ev, os_random := sn_random ev\<rparr>))
          (hp_cachePath (hh_pub h)))"
        using assms by (simp_all add: host_inv_def)
      note e = publisher_publish_effect [OF pp pre]
      show ?thesis
        using e pre(3) False n
        by (auto simp: os host_inv_def event_temperatures_def shouldNotifyTopologyChanged_def Let_def)
    qed
  qed
  then show "host_inv (on_snapshot h ev)" "hp_cachePath (hh_pub (on_snapshot h ev)) = hp_cachePath (hh_pub h)"
    "vt_jiffies (hh_vt (on_snapshot h ev)) = vt_jiffies (hh_vt h) \<and> vt_HZ (hh_vt (on_snapshot h ev)) = vt_HZ (hh_vt h) \<and>
      vt_stale_timeout (hh_vt (on_snapshot h ev)) = vt_stale_timeout (hh_vt h)"
    "temperature_from (event_temperatures ev) (hh_vt h) (hh_vt (on_snapshot h ev))"
    "hh_notifications (on_snapshot h ev) \<noteq> hh_notifications h \<Longrightarrow>
      (inv_sensors (hp_disks (hh_pub (on_snapshot h ev))) \<noteq> None \<or> inv_sensors (hp_hbas (hh_pub (on_snapshot h ev))) \<noteq> None) \<and>
      \<not> reconciliationPending (hh_pub (on_snapshot h ev))"
    by blast+
qed

lemma host_step_inv: "host_inv h \<Longrightarrow> event_ok e \<Longrightarrow> host_inv (host_step h e)"
proof (cases e)
  case (Snapshot ev)
  then show "host_inv h \<Longrightarrow> event_ok e \<Longrightarrow> ?thesis" by (simp add: on_snapshot_effect(1))
next
  case (Elapse n)
  then show "host_inv h \<Longrightarrow> ?thesis"
    by (auto simp: host_inv_def families_ok_def vt_ok_def intro: record_ok_sensors)
next
  case (Vanish ids)
  then show "host_inv h \<Longrightarrow> ?thesis"
    by (simp add: host_inv_def families_ok_def vanish_of(1) record_ok_vanish)
qed

subsection \<open>The start\<close>

lemma decoded_sensor: "json_well v \<Longrightarrow> sensor_text_ok r \<Longrightarrow> sensor_text_ok (snd (decode_cached_sensor v r))"
  unfolding decode_cached_sensor_def
proof (rule decode_struct_inv [where P = sensor_text_ok])
  fix f :: "string \<times> cachedHWMonSensor decoder" and v and r :: cachedHWMonSensor
  assume "f \<in> set [(''id'', decode_string (\<lambda>s r. r\<lparr>cs_ID := s\<rparr>)), (''label'', decode_string (\<lambda>s r. r\<lparr>cs_Label := s\<rparr>))]"
    and "json_well v" "sensor_text_ok r"
  then show "sensor_text_ok (snd (snd f v r))" by (cases v) (auto simp: decode_string_def sensor_text_ok_def)
qed

lemma empty_sensor: "sensor_text_ok \<lparr>cs_ID = [], cs_Label = []\<rparr>"
  by (simp add: sensor_text_ok_def well_text_def utf8_clean_def)

lemma decoded_family: "json_well v \<Longrightarrow> family_text_ok (Some r) \<Longrightarrow> family_text_ok (Some (snd (decode_cached_family v r)))"
  unfolding decode_cached_family_def
proof (rule decode_struct_inv [where P = "\<lambda>r. family_text_ok (Some r)"])
  fix f :: "string \<times> cachedHWMonFamily decoder" and v and r :: cachedHWMonFamily
  assume f: "f \<in> set [(''readings'', decode_slice \<lparr>cs_ID = [], cs_Label = []\<rparr> (\<lambda>xs r. r\<lparr>cf_Sensors := xs\<rparr>)
      decode_cached_sensor ''[]main.cachedHWMonSensor'')]" and v: "json_well v" and r: "family_text_ok (Some r)"
  show "family_text_ok (Some (snd (snd f v r)))"
  proof (cases v)
    case (JArr vs)
    have "list_all sensor_text_ok (snd (decode_elements \<lparr>cs_ID = [], cs_Label = []\<rparr> decode_cached_sensor vs))"
      using v JArr decoded_sensor [OF _ empty_sensor] by (intro decode_elements_inv) simp_all
    then show ?thesis using f JArr by (auto simp: decode_slice_def family_text_ok_def case_prod_beta)
  qed (use f r in \<open>auto simp: decode_slice_def family_text_ok_def\<close>)
qed

lemma decoded_ptr:
  assumes "json_well v" "family_text_ok x"
  shows "family_text_ok (Some (snd (decode_cached_family v (case x of None \<Rightarrow> \<lparr>cf_Sensors = None\<rparr> | Some f \<Rightarrow> f))))"
  using decoded_family [OF assms(1)] assms(2) by (cases x) (simp_all add: family_text_ok_def)

definition cache_text_ok :: "cachedHWMonInventory \<Rightarrow> bool" where
  "cache_text_ok c = (family_text_ok (ci_Disks c) \<and> family_text_ok (ci_HBAs c))"

lemma decoded_inventory: "json_well v \<Longrightarrow> cache_text_ok r \<Longrightarrow> cache_text_ok (snd (decode_cached_inventory v r))"
  unfolding decode_cached_inventory_def
proof (rule decode_struct_inv [where P = cache_text_ok])
  fix f :: "string \<times> cachedHWMonInventory decoder" and v and r :: cachedHWMonInventory
  assume f: "f \<in> set [(''version'', decode_int (\<lambda>i r. r\<lparr>ci_Version := i\<rparr>)),
       (''disks'', decode_ptr \<lparr>cf_Sensors = None\<rparr> ci_Disks (\<lambda>x r. r\<lparr>ci_Disks := x\<rparr>) decode_cached_family),
       (''hbas'', decode_ptr \<lparr>cf_Sensors = None\<rparr> ci_HBAs (\<lambda>x r. r\<lparr>ci_HBAs := x\<rparr>) decode_cached_family)]"
    and v: "json_well v" and r: "cache_text_ok r"
  show "cache_text_ok (snd (snd f v r))"
  proof (cases "v = JNull")
    case True
    then show ?thesis using f r by (auto simp: cache_text_ok_def decode_ptr_def decode_int_def family_text_ok_def)
  next
    case False
    have i: "cache_text_ok (snd (decode_int (\<lambda>i r. r\<lparr>ci_Version := i\<rparr>) v r))"
      using r by (auto simp: decode_int_def cache_text_ok_def split: json.split sum.split)
    have d: "family_text_ok (Some (snd (decode_cached_family v (case ci_Disks r of None \<Rightarrow> \<lparr>cf_Sensors = None\<rparr> | Some f \<Rightarrow> f))))"
      "family_text_ok (Some (snd (decode_cached_family v (case ci_HBAs r of None \<Rightarrow> \<lparr>cf_Sensors = None\<rparr> | Some f \<Rightarrow> f))))"
      using decoded_ptr [OF v] r by (simp_all add: cache_text_ok_def)
    have "cache_text_ok (snd (decode_ptr \<lparr>cf_Sensors = None\<rparr> ci_Disks (\<lambda>x r. r\<lparr>ci_Disks := x\<rparr>) decode_cached_family v r))"
      "cache_text_ok (snd (decode_ptr \<lparr>cf_Sensors = None\<rparr> ci_HBAs (\<lambda>x r. r\<lparr>ci_HBAs := x\<rparr>) decode_cached_family v r))"
      unfolding decode_ptr_value [OF False] case_prod_beta using d r by (simp_all add: cache_text_ok_def)
    then show ?thesis using f i by auto
  qed
qed

lemma parsed_cache: "parse_hwmon_cache path data = Inr c \<Longrightarrow> cache_text_ok c"
proof -
  let ?z = "\<lparr>ci_Version = 0, ci_Disks = None, ci_HBAs = None\<rparr> :: cachedHWMonInventory"
  assume "parse_hwmon_cache path data = Inr c"
  then obtain v where v: "json_parse data = Inr v" "decode_cached_inventory v ?z = (None, c)"
    by (auto simp: parse_hwmon_cache_def json_Unmarshal_def split: sum.splits prod.splits option.splits if_splits)
  have "cache_text_ok ?z" by (simp add: cache_text_ok_def family_text_ok_def)
  then show ?thesis using decoded_inventory [OF json_parse_well [OF v(1)], of ?z] v(2) by simp
qed

lemma load_effect:
  assumes "loadHWMonCache path s = (r, s')"
  shows "os_core s' = os_core s" and "r = Inr (Some c) \<Longrightarrow> stored_cache path (file_content (os_core s) path) = Inr (Some c) \<and> cache_text_ok c"
proof -
  obtain res where rd: "os_ReadFile path s = (res, s')"
    using assms by (auto simp: loadHWMonCache_def split: prod.splits sum.splits if_splits)
  show "os_core s' = os_core s"
    using rd by (cases s rule: take_fault_cases) (auto simp: os_ReadFile_def split: option.splits)
  assume r: "r = Inr (Some c)"
  then obtain data where d: "res = Inr data" "parse_hwmon_cache path data = Inr c"
    using assms rd by (auto simp: loadHWMonCache_def split: sum.splits if_splits)
  have "\<exists>i. fs_dir (os_core s) path = Some i \<and> data = (case fs_data (os_core s) i of None \<Rightarrow> [] | Some t \<Rightarrow> t)"
    using rd d(1) by (cases s rule: take_fault_cases) (auto simp: os_ReadFile_def split: option.splits)
  then have "file_content (os_core s) path = Some data"
    by (auto simp: file_content_def)
  then show "stored_cache path (file_content (os_core s) path) = Inr (Some c) \<and> cache_text_ok c"
    using d(2) parsed_cache by (simp add: stored_cache_def)
qed

lemma cache_samples_text: "family_text_ok (Some f) \<Longrightarrow> samples_text_ok (samplesFromCache (cf_Sensors f))"
  by (auto simp: family_text_ok_def samples_text_ok_def samplesFromCache_def sensor_text_ok_def list_all_iff)

lemma cache_samples_back: "sensorsToCache (sensorsFromSamples (samplesFromCache cs)) = elements cs"
proof -
  have "sensorsToCache (sensorsFromSamples (samplesFromCache cs)) = map (\<lambda>x. \<lparr>cs_ID = cs_ID x, cs_Label = cs_Label x\<rparr>) (elements cs)"
    by (simp add: sensorsToCache_def sensorsFromSamples_def samplesFromCache_def comp_def)
  also have "\<dots> = elements cs" by (rule map_idI) simp
  finally show ?thesis .
qed

lemma milli_failsafe: "milli_celsius hwmonFailsafeTemp = Some FAILSAFE_MILLIC"
  by code_simp

lemma cache_temperatures: "published_temperatures (samplesFromCache cs) \<subseteq> {(y, FAILSAFE_MILLIC) | y. True}"
  by (auto simp: published_temperatures_def samplesFromCache_def milli_failsafe)

lemma restore_part_effect:
  assumes "restore_part ns tag family inventory k = (err, inventory', k')"
    and "vt_ok (hk_vt k)" "record_ok ns inventory (hk_vt k)" "inventory_text_ok inventory" "family_text_ok family"
    "inv_sensors inventory = None" "stored_cache path content = Inr (Some c)" "get c = family"
  shows "changes_within (family_ids ns) (hk_vt k) (hk_vt k')" "record_ok ns inventory' (hk_vt k')"
    "inventory_text_ok inventory'" "family_cached get path inventory' content"
    "temperature_from {} (hk_vt k) (hk_vt k')"
proof -
  have "changes_within (family_ids ns) (hk_vt k) (hk_vt k') \<and> record_ok ns inventory' (hk_vt k') \<and>
    inventory_text_ok inventory' \<and> family_cached get path inventory' content \<and> temperature_from {} (hk_vt k) (hk_vt k')"
  proof (cases family)
    case None
    then show ?thesis
      using assms by (auto simp: restore_part_def family_cached_def intro: temperature_from_refl)
  next
    case (Some f)
    let ?xs = "samplesFromCache (cf_Sensors f)"
    obtain r where p: "publishHWMonFamily ns ?xs inventory k = (r, inventory', k')"
      using assms(1) Some by (auto simp: restore_part_def split: prod.splits sum.splits)
    have t: "samples_text_ok ?xs" using assms(5) Some by (simp add: cache_samples_text)
    have "family_cached get path inventory' content"
      using publish_sensors(1) [OF p] assms(6-8) Some by (auto simp: family_cached_def cache_samples_back)
    moreover have "temperature_from {} (hk_vt k) (hk_vt k')"
      using publish_from [OF p assms(2)] cache_temperatures [of "cf_Sensors f"] unfolding temperature_from_def by blast
    ultimately show ?thesis
      using publish_frame [OF p assms(2)] publish_record [OF p assms(2,3)] publish_text_ok [OF p assms(4) t] by blast
  qed
  then show "changes_within (family_ids ns) (hk_vt k) (hk_vt k')" "record_ok ns inventory' (hk_vt k')"
    "inventory_text_ok inventory'" "family_cached get path inventory' content" "temperature_from {} (hk_vt k) (hk_vt k')"
    by blast+
qed

lemma restore_effect:
  assumes "restore (initial_publisher path) k s = (err, p, k', s', lines)" "vt_ok (hk_vt k)" "path_ok path"
  shows "families_ok p (hk_vt k')" "hp_cachePath p = path" "cache_current p (file_content (os_core s') path)"
    "temperature_from {} (hk_vt k) (hk_vt k')" "vt_jiffies (hk_vt k') = vt_jiffies (hk_vt k)"
    "vt_HZ (hk_vt k') = vt_HZ (hk_vt k) \<and> vt_stale_timeout (hk_vt k') = vt_stale_timeout (hk_vt k)"
proof -
  let ?p = "initial_publisher path"
  have init: "families_ok ?p (hk_vt k)"
    using assms(2) by (simp add: families_ok_def initial_publisher_def fresh_inventory_def record_ok_def inventory_text_ok_def)
  obtain lr s1 where ld: "loadHWMonCache path s = (lr, s1)" by (cases "loadHWMonCache path s")
  note load = load_effect [OF ld]
  have "families_ok p (hk_vt k') \<and> hp_cachePath p = path \<and> cache_current p (file_content (os_core s') path) \<and>
    temperature_from {} (hk_vt k) (hk_vt k') \<and> vt_jiffies (hk_vt k') = vt_jiffies (hk_vt k) \<and>
    vt_HZ (hk_vt k') = vt_HZ (hk_vt k) \<and> vt_stale_timeout (hk_vt k') = vt_stale_timeout (hk_vt k)"
  proof (cases "\<exists>c. lr = Inr (Some c)")
    case False
    then have "p = ?p" "k' = k"
      using assms(1) ld by (auto simp: restore_def initial_publisher_def split: sum.splits option.splits)
    then show ?thesis
      using init by (auto simp: initial_publisher_def cache_current_def family_cached_def fresh_inventory_def intro: temperature_from_refl)
  next
    case True
    then obtain c where c: "lr = Inr (Some c)" by blast
    note st = load(2) [OF c]
    obtain e1 dinv k1 where d: "restore_part ''disk'' ''disks'' (ci_Disks c) (hp_disks ?p) k = (e1, dinv, k1)"
      by (metis prod_cases3)
    obtain e2 hinv k2 where h: "restore_part ''hba'' ''HBA'' (ci_HBAs c) (hp_hbas ?p) k1 = (e2, hinv, k2)"
      by (metis prod_cases3)
    have p: "p = ?p\<lparr>hp_disks := dinv, hp_hbas := hinv\<rparr>" "k' = k2" "s' = s1"
      using assms(1) ld c d h by (auto simp: restore_def initial_publisher_def Let_def split: option.splits)
    have n: "inv_sensors (hp_disks ?p) = None" "inv_sensors (hp_hbas ?p) = None"
      by (simp_all add: initial_publisher_def fresh_inventory_def)
    have i: "record_ok ''disk'' (hp_disks ?p) (hk_vt k)" "inventory_text_ok (hp_disks ?p)" "family_text_ok (ci_Disks c)"
      "record_ok ''hba'' (hp_hbas ?p) (hk_vt k)" "inventory_text_ok (hp_hbas ?p)" "family_text_ok (ci_HBAs c)"
      using init st by (auto simp: families_ok_def cache_text_ok_def)
    have st1: "stored_cache path (file_content (os_core s) path) = Inr (Some c)" using st by blast
    note de = restore_part_effect [OF d assms(2) i(1-3) n(1) st1, of ci_Disks, OF refl]
    note ok1 = changes_within_ok [OF de(1)]
    have r1: "record_ok ''hba'' (hp_hbas ?p) (hk_vt k1)" using record_ok_frame [OF i(4) de(1) assms(2)] by simp
    note he = restore_part_effect [OF h ok1 r1 i(5,6) n(2) st1, of ci_HBAs, OF refl]
    have "record_ok ''disk'' dinv (hk_vt k2)" using record_ok_frame [OF de(2) he(1) ok1] by simp
    then have "families_ok p (hk_vt k')"
      using p de(3) he(2,3) changes_within_ok [OF he(1)] by (simp add: families_ok_def)
    moreover have "cache_current p (file_content (os_core s') path)"
      using p de(4) he(4) load(1) by (simp add: cache_current_def initial_publisher_def)
    moreover have "temperature_from {} (hk_vt k) (hk_vt k')"
      using temperature_from_trans [OF de(5) he(5) changes_within_jiffies [OF de(1)]] p by simp
    ultimately show ?thesis using p de(1) he(1) by (simp add: initial_publisher_def changes_within_def)
  qed
  then show "families_ok p (hk_vt k')" "hp_cachePath p = path" "cache_current p (file_content (os_core s') path)"
    "temperature_from {} (hk_vt k) (hk_vt k')" "vt_jiffies (hk_vt k') = vt_jiffies (hk_vt k)"
    "vt_HZ (hk_vt k') = vt_HZ (hk_vt k) \<and> vt_stale_timeout (hk_vt k') = vt_stale_timeout (hk_vt k)"
    by blast+
qed

definition host_started :: "string \<Rightarrow> hwmon_kernel \<Rightarrow> os_state \<Rightarrow> bool" where
  "host_started path k s = (vt_ok (hk_vt k) \<and> path_ok path)"

lemma start_host_effect:
  assumes "host_started path k s"
  shows "host_inv (start_host path k s)" "temperature_from {} (hk_vt k) (hh_vt (start_host path k s))"
    "vt_jiffies (hh_vt (start_host path k s)) = vt_jiffies (hk_vt k)" "vt_HZ (hh_vt (start_host path k s)) = vt_HZ (hk_vt k)"
    "vt_stale_timeout (hh_vt (start_host path k s)) = vt_stale_timeout (hk_vt k)"
proof -
  obtain err p k1 s1 lines where r: "restore (initial_publisher path) k s = (err, p, k1, s1, lines)" by (rule prod_cases5)
  have ok: "vt_ok (hk_vt k)" "path_ok path" using assms by (simp_all add: host_started_def)
  note e = restore_effect [OF r ok]
  have h: "hh_pub (start_host path k s) = p" "hh_vt (start_host path k s) = hk_vt k1" "hh_os (start_host path k s) = s1"
    by (simp_all add: start_host_def r)
  show "host_inv (start_host path k s)" using e(1-3) ok by (simp add: host_inv_def h)
  show "temperature_from {} (hk_vt k) (hh_vt (start_host path k s))"
    "vt_jiffies (hh_vt (start_host path k s)) = vt_jiffies (hk_vt k)" "vt_HZ (hh_vt (start_host path k s)) = vt_HZ (hk_vt k)"
    "vt_stale_timeout (hh_vt (start_host path k s)) = vt_stale_timeout (hk_vt k)"
    using e(4-6) by (simp_all add: h)
qed

interpretation host: guarded_invariant "\<lambda>h. \<exists>path k s. host_started path k s \<and> h = start_host path k s" host_step event_ok host_inv
  by unfold_locales (auto intro: start_host_effect(1) host_step_inv)

definition host_after :: "string \<Rightarrow> hwmon_kernel \<Rightarrow> os_state \<Rightarrow> host_event list \<Rightarrow> hwmon_host" where
  "host_after path k s es = run_events host_step (start_host path k s) es"

lemma host_after_inv: "host_started path k s \<Longrightarrow> list_all event_ok es \<Longrightarrow> host_inv (host_after path k s es)"
  unfolding host_after_def by (rule host.inv_run) auto

lemma host_after_snoc: "host_after path k s (es @ [e]) = host_step (host_after path k s es) e"
  by (simp add: host_after_def)

lemma host_step_path:
  "host_inv h \<Longrightarrow> event_ok e \<Longrightarrow> hp_cachePath (hh_pub (host_step h e)) = hp_cachePath (hh_pub h)"
  by (cases e) (simp_all add: on_snapshot_effect(2))

text \<open>The loop performs its events one after the other until it is told to stop.\<close>

lemma loop_run: "\<exists>es. fst (hwmonOrchestrationLoop h evs) = run_events host_step h es \<and> set (map Happens es) \<subseteq> set evs"
proof (induction h evs rule: hwmonOrchestrationLoop.induct)
  case (2 h e es)
  then obtain ds where "fst (hwmonOrchestrationLoop (host_step h e) es) = run_events host_step (host_step h e) ds" "set (map Happens ds) \<subseteq> set es"
    by blast
  then show ?case by (intro exI [of _ "e # ds"]) auto
next
  case (1 h)
  show ?case by (intro exI [of _ "[]"]) simp
next
  case (3 h err c es)
  show ?case by (intro exI [of _ "[]"]) simp
next
  case (4 h es)
  show ?case by (intro exI [of _ "[]"]) simp
qed

lemma host_after_constants:
  assumes "host_started path k s" "list_all event_ok es"
  shows "vt_HZ (hh_vt (host_after path k s es)) = vt_HZ (hk_vt k)"
    "vt_stale_timeout (hh_vt (host_after path k s es)) = vt_stale_timeout (hk_vt k)"
proof -
  have "vt_HZ (hh_vt (host_after path k s es)) = vt_HZ (hk_vt k) \<and>
    vt_stale_timeout (hh_vt (host_after path k s es)) = vt_stale_timeout (hk_vt k)"
    using assms(2)
  proof (induction es rule: rev_induct)
    case Nil
    then show ?case using start_host_effect(4,5) [OF assms(1)] by (simp add: host_after_def)
  next
    case (snoc e es)
    have "host_inv (host_after path k s es)" using host_after_inv [OF assms(1)] snoc.prems by simp
    then show ?case
      using snoc on_snapshot_effect(3) by (cases e) (simp_all add: host_after_snoc vanish_def)
  qed
  then show "vt_HZ (hh_vt (host_after path k s es)) = vt_HZ (hk_vt k)"
    "vt_stale_timeout (hh_vt (host_after path k s es)) = vt_stale_timeout (hk_vt k)" by blast+
qed

text \<open>Where a temperature in the kernel was written: at the start, as the failsafe value, or by a snapshot.\<close>

definition written_by :: "string \<Rightarrow> hwmon_kernel \<Rightarrow> os_state \<Rightarrow> host_event list \<Rightarrow> string \<Rightarrow> virt_sensor \<Rightarrow> bool" where
  "written_by path k s es y t =
    (vs_temperature t = FAILSAFE_MILLIC \<or>
     (\<exists>t0. sensor_of (hk_vt k) y = Some t0 \<and> vs_temperature t0 = vs_temperature t \<and> vs_last_update t0 = vs_last_update t) \<or>
     (\<exists>pre ev post. es = pre @ Snapshot ev # post \<and> (y, vs_temperature t) \<in> event_temperatures ev \<and>
        vs_last_update t = vt_jiffies (hh_vt (host_after path k s pre))))"

lemma written_by_snoc: "written_by path k s es y t \<Longrightarrow> written_by path k s (es @ [e]) y t"
proof -
  have "\<exists>post'. es = pre @ Snapshot ev # post \<longrightarrow> es @ [e] = pre @ Snapshot ev # post'" for pre ev post
    by (intro exI [of _ "post @ [e]"]) simp
  then show "written_by path k s es y t \<Longrightarrow> ?thesis" unfolding written_by_def by metis
qed

lemma written_by_same:
  "written_by path k s es y t \<Longrightarrow> vs_temperature t' = vs_temperature t \<Longrightarrow> vs_last_update t' = vs_last_update t \<Longrightarrow>
    written_by path k s es y t'"
  by (simp add: written_by_def)

lemma temperatures_written:
  assumes "host_started path k s" "list_all event_ok es" "sensor_of (hh_vt (host_after path k s es)) y = Some t"
  shows "written_by path k s es y t"
  using assms(2,3)
proof (induction es arbitrary: t rule: rev_induct)
  case Nil
  then show ?case
    using start_host_effect(2) [OF assms(1)] by (fastforce simp: host_after_def temperature_from_def written_by_def)
next
  case (snoc e es)
  let ?h = "host_after path k s es"
  have ok: "list_all event_ok es" "event_ok e" using snoc.prems(1) by simp_all
  have inv: "host_inv ?h" using host_after_inv [OF assms(1) ok(1)] .
  show ?case
  proof (cases e)
    case (Snapshot ev)
    then have st: "sensor_of (hh_vt (on_snapshot ?h ev)) y = Some t" using snoc.prems(2) by (simp add: host_after_snoc)
    then consider t0 where "sensor_of (hh_vt ?h) y = Some t0" "vs_temperature t = vs_temperature t0" "vs_last_update t = vs_last_update t0"
      | "vs_temperature t = FAILSAFE_MILLIC"
      | "(y, vs_temperature t) \<in> event_temperatures ev" "vs_last_update t = vt_jiffies (hh_vt ?h)"
      using on_snapshot_effect(4) [OF inv] ok(2) Snapshot unfolding temperature_from_def by metis
    then show ?thesis
    proof cases
      case 1
      then show ?thesis using written_by_same [OF written_by_snoc [OF snoc.IH [OF ok(1) 1(1)]]] by blast
    next
      case 2
      then show ?thesis by (simp add: written_by_def)
    next
      case 3
      have "es @ [e] = es @ Snapshot ev # []" using Snapshot by simp
      then show ?thesis using 3 unfolding written_by_def by blast
    qed
  next
    case (Elapse n)
    then show ?thesis using snoc.prems(2) snoc.IH [OF ok(1)] written_by_snoc by (simp add: host_after_snoc sensor_of_def)
  next
    case (Vanish ids)
    then have "sensor_of (hh_vt ?h) y = Some t"
      using snoc.prems(2) by (simp add: host_after_snoc vanish_of(2) split: if_splits)
    then show ?thesis using snoc.IH [OF ok(1)] written_by_snoc by blast
  qed
qed

subsection \<open>Properties of a run\<close>

text \<open>
  C6: Over every run of the host, whatever calls fail and whatever sensors vanish: unless a save is
  still due, the cache file holds exactly the recorded sensors of every family that has been
  initialised, so a restart begins with the topology last applied; and unless a reconciliation is
  due, the kernel has no sensor that is not recorded, each with its label and registered.
\<close>

theorem host_records_current:
  assumes "host_started path k s" "list_all event_ok es"
  shows "let h = host_after path k s es; p = hh_pub h; content = file_content (os_core (hh_os h)) path in
    (\<not> hp_cacheDirty p \<longrightarrow> family_cached ci_Disks path (hp_disks p) content \<and> family_cached ci_HBAs path (hp_hbas p) content) \<and>
    record_ok ''disk'' (hp_disks p) (hh_vt h) \<and> record_ok ''hba'' (hp_hbas p) (hh_vt h)"
proof -
  have path: "hp_cachePath (hh_pub (host_after path k s es)) = path"
    using assms(2)
  proof (induction es rule: rev_induct)
    case Nil
    obtain err p k1 s1 lines where r: "restore (initial_publisher path) k s = (err, p, k1, s1, lines)" by (rule prod_cases5)
    show ?case using restore_effect(2) [OF r] assms(1) by (simp add: host_after_def start_host_def r host_started_def)
  next
    case (snoc e es)
    then show ?case using host_step_path [OF host_after_inv [OF assms(1)]] by (simp add: host_after_snoc)
  qed
  show ?thesis using host_after_inv [OF assms] path by (auto simp: host_inv_def families_ok_def cache_current_def Let_def)
qed

text \<open>
  C35: Subscribers are told that the topology changed only when some family has been initialised, no
  reconciliation is due, and the kernel has no sensor of an initialised family that is not recorded
  with its label.
\<close>

theorem notify_when_settled:
  assumes "host_started path k s" "list_all event_ok es" "event_ok e"
    and "hh_notifications (host_step (host_after path k s es) e) \<noteq> hh_notifications (host_after path k s es)"
  shows "let h = host_step (host_after path k s es) e in
    (inv_sensors (hp_disks (hh_pub h)) \<noteq> None \<or> inv_sensors (hp_hbas (hh_pub h)) \<noteq> None) \<and>
    \<not> reconciliationPending (hh_pub h) \<and> families_ok (hh_pub h) (hh_vt h)"
proof -
  let ?h = "host_after path k s es"
  have inv: "host_inv ?h" by (rule host_after_inv [OF assms(1,2)])
  obtain ev where e: "e = Snapshot ev" using assms(4) by (cases e) auto
  note eff = on_snapshot_effect [OF inv assms(3) [unfolded e]]
  show ?thesis using eff(1,5) assms(4) by (simp add: e host_inv_def)
qed

text \<open>What the kernel shows for a sensor after a run.\<close>

lemma shown_value:
  assumes "host_started path k s" "list_all event_ok es"
    and "sensor_of (hh_vt (host_after path k s es)) y = Some t"
  shows "let now = vt_jiffies (hh_vt (host_after path k s es)); v = read_value (hh_vt (host_after path k s es)) t;
      limit = vt_stale_timeout (hk_vt k) * vt_HZ (hk_vt k) in
    v = FAILSAFE_MILLIC \<or>
    (\<exists>pre ev post. es = pre @ Snapshot ev # post \<and> \<not> expired (sn_snapshot ev) (sn_now ev) \<and>
       (y, v) \<in> snapshot_temperatures (rs_response (sn_snapshot ev)) \<and>
       now \<le> vt_jiffies (hh_vt (host_after path k s pre)) + limit) \<or>
    (\<exists>t0. sensor_of (hk_vt k) y = Some t0 \<and> v = vs_temperature t0 \<and> now \<le> vs_last_update t0 + limit)"
proof -
  let ?vt = "hh_vt (host_after path k s es)"
  note c = host_after_constants [OF assms(1,2)] and w = temperatures_written [OF assms]
  show ?thesis
  proof (cases "is_stale ?vt t")
    case True
    then show ?thesis by (simp add: read_value_def Let_def)
  next
    case False
    then have v: "read_value ?vt t = vs_temperature t"
      and l: "vt_jiffies ?vt \<le> vs_last_update t + vt_stale_timeout (hk_vt k) * vt_HZ (hk_vt k)"
      by (simp_all add: read_value_def is_stale_def c not_less)
    have "\<not> expired (sn_snapshot ev) (sn_now ev) \<and> (y, vs_temperature t) \<in> snapshot_temperatures (rs_response (sn_snapshot ev))"
      if "(y, vs_temperature t) \<in> event_temperatures ev" for ev
      using that by (auto simp: event_temperatures_def split: if_splits)
    then show ?thesis using w v l unfolding written_by_def Let_def by metis
  qed
qed

text \<open>
  C2: No stale or invented temperature is ever shown. Whatever snapshots arrive and whatever fails,
  every value the kernel shows for a sensor is 100 degrees, or the temperature of that very sensor
  in a snapshot that had not expired in the queue and was published within the stale timeout, or the
  temperature the kernel held for that sensor before the program started, as long as it was written
  within the stale timeout.
\<close>

theorem shown_temperature_fresh:
  assumes "host_started path k s" "list_all event_ok es"
    and "sensor_of (hh_vt (host_after path k s es)) y = Some t"
  shows "let now = vt_jiffies (hh_vt (host_after path k s es)); v = read_value (hh_vt (host_after path k s es)) t;
      limit = vt_stale_timeout (hk_vt k) * vt_HZ (hk_vt k) in
    v = FAILSAFE_MILLIC \<or>
    (\<exists>pre ev post. es = pre @ Snapshot ev # post \<and> \<not> expired (sn_snapshot ev) (sn_now ev) \<and>
       (y, v) \<in> snapshot_temperatures (rs_response (sn_snapshot ev)) \<and>
       now \<le> vt_jiffies (hh_vt (host_after path k s pre)) + limit) \<or>
    (\<exists>t0. sensor_of (hk_vt k) y = Some t0 \<and> v = vs_temperature t0 \<and> now \<le> vs_last_update t0 + limit)"
  by (rule shown_value [OF assms])

subsection \<open>An example run\<close>

definition example_state :: Response where
  "example_state =
    \<lparr>resp_Protocol = 1, resp_Disks = Some [example_ssd ''cache1'' 41, example_ssd ''cache2'' 47], resp_HBAs = Some [],
     resp_HBAError = [], resp_Error = []\<rparr>"

definition example_snapshot_event :: snapshot_event where
  "example_snapshot_event =
    \<lparr>sn_snapshot = \<lparr>rs_response = example_state, rs_receivedAt = 5 * second\<rparr>, sn_now = 6 * second, sn_later = 6 * second,
     sn_kernel = [], sn_faults = [], sn_random = [''7''], sn_open = None, sn_close = None\<rparr>"

definition example_cache_path :: string where "example_cache_path = ''/var/lib/hwmon-inventory.json''"

lemma example_started: "host_started example_cache_path empty_kernel (example_os fs)"
  using example_publisher_ok(1) [of fs] empty_kernel_ok(2)
  by (simp add: host_started_def path_ok_def example_cache_path_def cache_file_ok_def example_publisher_def)

lemma example_event_ok: "event_ok (Snapshot example_snapshot_event)"
proof -
  have "well_text ''cache1''" "well_text ''cache2''" by (rule well_text_ascii, simp)+
  then show ?thesis
    by (simp add: example_snapshot_event_def example_state_def response_text_ok_def example_ssd_def)
qed

definition example_run :: "host_event list \<Rightarrow> hwmon_host" where
  "example_run es = host_after example_cache_path empty_kernel (example_os []) es"

lemma example_run_facts:
  "hh_notifications (example_run []) = 0"
  "let h = example_run [Snapshot example_snapshot_event] in
    hh_notifications h = 1 \<and> \<not> hp_cacheDirty (hh_pub h) \<and>
    map_option (read_value (hh_vt h)) (sensor_of (hh_vt h) ''disk:cache1'') = Some 41000"
  by code_simp+

theorem shown_temperature_fresh_witness:
  "\<exists>pre ev post. [Snapshot example_snapshot_event] = pre @ Snapshot ev # post \<and>
    (''disk:cache1'', 41000) \<in> snapshot_temperatures (rs_response (sn_snapshot ev))"
proof -
  let ?es = "[Snapshot example_snapshot_event]"
  obtain t where t: "sensor_of (hh_vt (example_run ?es)) ''disk:cache1'' = Some t" "read_value (hh_vt (example_run ?es)) t = 41000"
    using example_run_facts(2) by (auto simp: Let_def)
  have "sensor_of (hk_vt empty_kernel) ''disk:cache1'' = None" by (simp add: empty_kernel_def sensor_of_def)
  then show ?thesis
    using shown_temperature_fresh [OF example_started [of "[]"], of ?es "''disk:cache1''" t] t example_event_ok
    by (auto simp: example_run_def [symmetric] FAILSAFE_MILLIC_def Let_def)
qed

theorem host_records_current_witness:
  "family_cached ci_Disks example_cache_path (hp_disks (hh_pub (example_run [Snapshot example_snapshot_event])))
    (file_content (os_core (hh_os (example_run [Snapshot example_snapshot_event]))) example_cache_path)"
proof -
  have "\<not> hp_cacheDirty (hh_pub (example_run [Snapshot example_snapshot_event]))"
    using example_run_facts(2) by (simp add: Let_def)
  then show ?thesis
    using host_records_current [OF example_started [of "[]"], of "[Snapshot example_snapshot_event]"] example_event_ok
    by (simp add: example_run_def [symmetric] Let_def)
qed

theorem notify_when_settled_witness:
  "families_ok (hh_pub (host_step (example_run []) (Snapshot example_snapshot_event)))
    (hh_vt (host_step (example_run []) (Snapshot example_snapshot_event)))"
proof -
  have "host_step (example_run []) (Snapshot example_snapshot_event) = example_run [Snapshot example_snapshot_event]"
    by (simp add: example_run_def host_after_def)
  then have "hh_notifications (host_step (example_run []) (Snapshot example_snapshot_event)) \<noteq> hh_notifications (example_run [])"
    using example_run_facts by (simp add: Let_def)
  then show ?thesis
    using notify_when_settled [OF example_started [of "[]"], of "[]" "Snapshot example_snapshot_event"] example_event_ok
    by (simp add: example_run_def [symmetric] Let_def)
qed

end
