(* ===== verification/Hwmon_Stream.thy ===== *)
theory Hwmon_Stream
  imports Sensor_Stream Hwmon_Host_Correct "HOL-Library.Sublist"
begin

text \<open>
  Receiving snapshots on the host (\<^verbatim>\<open>hwmon_stream.go\<close>): the accept loop, the read loop of a
  connection, and the channel of capacity one between the receiver and the main loop. The main loop
  may take the pending snapshot at any moment; the schedules say when it does, and which ready case
  a \<^verbatim>\<open>select\<close> takes.
\<close>

subsection \<open>The queue\<close>

text \<open>
  A \<^verbatim>\<open>select\<close> between sending on a channel of capacity one and the end of the context: \<^term>\<open>None\<close>
  when neither is ready. When both are, the runtime picks one.
\<close>

definition select_send :: "bool \<Rightarrow> bool \<Rightarrow> 'a \<Rightarrow> 'a option \<Rightarrow> bool option \<times> 'a option" where
  "select_send cancelled pick_done x q =
    (if q = None \<and> \<not> (cancelled \<and> pick_done) then (Some True, Some x)
     else if cancelled then (Some False, q)
     else (None, q))"

record send_schedule =
  sd_done1 :: bool
  sd_pick1 :: bool
  sd_taken :: bool
  sd_done2 :: bool
  sd_pick2 :: bool

text \<open>
  The result (\<^term>\<open>None\<close> would be a call that blocks), the queue after it, and what the main loop
  took between the two attempts.
\<close>

definition sendLatestSnapshot ::
    "send_schedule \<Rightarrow> 'a \<Rightarrow> 'a option \<Rightarrow> bool option \<times> 'a option \<times> 'a option" where
  "sendLatestSnapshot sd snapshot q =
    (case select_send (sd_done1 sd) (sd_pick1 sd) snapshot q of
       (Some sent, q1) \<Rightarrow> (Some sent, q1, None)
     | (None, q1) \<Rightarrow>
         let taken = (if sd_taken sd then q1 else None);
             q2 = (if sd_taken sd then None else q1);
             q3 = (case q2 of Some _ \<Rightarrow> None | None \<Rightarrow> None)
         in case select_send (sd_done2 sd) (sd_pick2 sd) snapshot q3 of (r, q4) \<Rightarrow> (r, q4, taken))"

lemma send_not_blocked: "fst (sendLatestSnapshot sd x q) \<noteq> None"
  by (auto simp: sendLatestSnapshot_def select_send_def Let_def split: option.split)

lemma send_sent: "sendLatestSnapshot sd x q = (Some True, q1, taken) \<Longrightarrow> q1 = Some x \<and> (taken = None \<or> taken = q)"
  by (auto simp: sendLatestSnapshot_def select_send_def Let_def split: option.splits if_splits)

lemma send_cancelled:
  "sendLatestSnapshot sd x q = (Some False, q1, taken) \<Longrightarrow>
    (sd_done1 sd \<or> sd_done2 sd) \<and> (q1 = q \<and> taken = None \<or> q1 = None \<and> (taken = None \<or> taken = q))"
  by (auto simp: sendLatestSnapshot_def select_send_def Let_def split: option.splits if_splits)

subsection \<open>Receiving\<close>

text \<open>
  One turn of the read loop: whether the main loop takes the pending snapshot meanwhile, the
  outcome of setting the deadline, the clock after the read, and whether the context has ended when
  the read fails.
\<close>

record read_turn =
  rd_take :: bool
  rd_deadlineErr :: "go_error option"
  rd_receivedAt :: time
  rd_send :: send_schedule
  rd_cancelled :: bool

text \<open>A connection: the context ID of its peer when the address is a VSOCK address, its bytes and how they end.\<close>

record stream_connection =
  cn_peer :: "nat option"
  cn_bytes :: string
  cn_end :: "go_error option"
  cn_turns :: "read_turn list"

text \<open>
  The receiver's state: the channel, the log, and the history of snapshots read and of those the
  main loop took.
\<close>

record receiver =
  rc_queue :: "receivedSnapshot option"
  rc_log :: stickyErrorLog
  rc_lines :: "string list"
  rc_received :: "receivedSnapshot list"
  rc_taken :: "receivedSnapshot list"

definition rc_update :: "go_error option \<Rightarrow> receiver \<Rightarrow> receiver" where
  "rc_update err s = (case sticky_update (rc_log s) err of (l, lines) \<Rightarrow> s\<lparr>rc_log := l, rc_lines := rc_lines s @ lines\<rparr>)"

definition option_list :: "'a option \<Rightarrow> 'a list" where
  "option_list x = (case x of None \<Rightarrow> [] | Some y \<Rightarrow> [y])"

text \<open>The main loop takes the pending snapshot.\<close>

definition rc_take :: "bool \<Rightarrow> receiver \<Rightarrow> receiver" where
  "rc_take takes s = (if takes then s\<lparr>rc_queue := None, rc_taken := rc_taken s @ option_list (rc_queue s)\<rparr> else s)"

datatype connection_end = Waiting | Stopped | Broken

fun read_connection :: "FrameReader \<Rightarrow> read_turn list \<Rightarrow> receiver \<Rightarrow> connection_end \<times> receiver" where
  "read_connection reader [] s = (Waiting, s)"
| "read_connection reader (t # ts) s0 =
    (let s = rc_take (rd_take t) s0 in
     case (case rd_deadlineErr t of Some err \<Rightarrow> (Inl err, reader) | None \<Rightarrow> FrameReader_Read reader) of
       (Inr snapshot, reader1) \<Rightarrow>
         let s1 = rc_update None s;
             received = \<lparr>rs_response = snapshot, rs_receivedAt = rd_receivedAt t\<rparr>
         in (case sendLatestSnapshot (rd_send t) received (rc_queue s1) of
               (sent, q, taken) \<Rightarrow>
                 let s2 = s1\<lparr>rc_queue := q, rc_taken := rc_taken s1 @ option_list taken,
                             rc_received := rc_received s1 @ (if sent = Some True then [received] else [])\<rparr>
                 in (case sent of
                       None \<Rightarrow> (Waiting, s2)
                     | Some False \<Rightarrow> (Stopped, s2)
                     | Some True \<Rightarrow> read_connection reader1 ts s2))
     | (Inl streamErr, _) \<Rightarrow>
         if rd_cancelled t then (Stopped, s) else (Broken, rc_update (Some streamErr) s))"

datatype accept_result = AcceptError go_error bool | Accepted stream_connection

text \<open>The result: \<^term>\<open>None\<close> while it still waits, otherwise what it returns.\<close>

fun receiveSnapshots :: "nat \<Rightarrow> accept_result list \<Rightarrow> receiver \<Rightarrow> go_error option option \<times> receiver" where
  "receiveSnapshots expectedCID [] s = (None, s)"
| "receiveSnapshots expectedCID (AcceptError err cancelled # as) s =
    (Some (if cancelled then None else Some (Errorf_w ''accept VSOCK publisher: '' err [])), s)"
| "receiveSnapshots expectedCID (Accepted conn # as) s =
    (if cn_peer conn \<noteq> Some expectedCID then receiveSnapshots expectedCID as s
     else case read_connection (NewFrameReader (cn_bytes conn) (cn_end conn)) (cn_turns conn) s of
            (Waiting, s1) \<Rightarrow> (None, s1)
          | (Stopped, s1) \<Rightarrow> (Some None, s1)
          | (Broken, s1) \<Rightarrow> receiveSnapshots expectedCID as s1)"

definition receiver_start :: receiver where
  "receiver_start = \<lparr>rc_queue = None, rc_log = \<lparr>sticky_context = ''VSOCK snapshot stream'', sticky_last = []\<rparr>,
     rc_lines = [], rc_received = [], rc_taken = []\<rparr>"

subsection \<open>The newest snapshot wins\<close>

definition receiver_inv :: "receiver \<Rightarrow> bool" where
  "receiver_inv s =
    (subseq (rc_taken s @ option_list (rc_queue s)) (rc_received s) \<and>
     (rc_queue s \<noteq> None \<longrightarrow> rc_received s \<noteq> [] \<and> rc_queue s = Some (last (rc_received s))))"

lemma receiver_start_inv [simp]: "receiver_inv receiver_start"
  by (simp add: receiver_inv_def receiver_start_def option_list_def)

lemma rc_update_same [simp]:
  "rc_queue (rc_update e s) = rc_queue s" "rc_received (rc_update e s) = rc_received s" "rc_taken (rc_update e s) = rc_taken s"
  by (simp_all add: rc_update_def split: prod.split)

lemma rc_take_inv: "receiver_inv s \<Longrightarrow> receiver_inv (rc_take b s)"
  by (simp add: rc_take_def receiver_inv_def option_list_def)

lemma rc_take_received [simp]: "rc_received (rc_take b s) = rc_received s"
  by (simp add: rc_take_def)

lemma subseq_cases:
  assumes "subseq (xs @ option_list q) zs"
  shows "subseq xs zs" "subseq (xs @ [z]) (zs @ [z])" "subseq (xs @ option_list q @ [z]) (zs @ [z])"
proof -
  have "subseq xs (xs @ option_list q)" by (simp add: prefix_imp_subseq)
  then show x: "subseq xs zs" using assms by (rule subseq_order.order_trans)
  from x show "subseq (xs @ [z]) (zs @ [z])" by simp
  from assms show "subseq (xs @ option_list q @ [z]) (zs @ [z])" by (metis append.assoc subseq_append_iff subseq_order.refl list_emb_append_mono)
qed

lemma send_inv:
  assumes "receiver_inv s" "sendLatestSnapshot sd x (rc_queue s) = (sent, q, taken)"
  shows "receiver_inv (s\<lparr>rc_queue := q, rc_taken := rc_taken s @ option_list taken,
    rc_received := rc_received s @ (if sent = Some True then [x] else [])\<rparr>)"
proof -
  have sub: "subseq (rc_taken s @ option_list (rc_queue s)) (rc_received s)" using assms(1) by (simp add: receiver_inv_def)
  consider "sent = Some True" "q = Some x" "taken = None \<or> taken = rc_queue s"
    | "sent = Some False" "q = rc_queue s" "taken = None" | "sent = Some False" "q = None" "taken = None \<or> taken = rc_queue s"
    using assms(2) send_not_blocked [of sd x "rc_queue s"] send_sent [of sd x "rc_queue s" q taken]
      send_cancelled [of sd x "rc_queue s" q taken]
    by (cases sent; cases "sent = Some True") auto
  then show ?thesis
    using sub subseq_cases [OF sub] assms(1) by cases (auto simp: receiver_inv_def option_list_def)
qed

text \<open>A turn of the read loop in which a snapshot is read.\<close>

lemma read_turn_cases:
  obtains (failed) err where "read_connection reader (t # ts) s =
      (if rd_cancelled t then (Stopped, rc_take (rd_take t) s) else (Broken, rc_update (Some err) (rc_take (rd_take t) s)))"
  | (read) x reader1 sent q taken s2 where "FrameReader_Read reader = (Inr (rs_response x), reader1)"
      "sendLatestSnapshot (rd_send t) x (rc_queue (rc_take (rd_take t) s)) = (Some sent, q, taken)"
      "s2 = (rc_update None (rc_take (rd_take t) s))\<lparr>rc_queue := q,
         rc_taken := rc_taken (rc_take (rd_take t) s) @ option_list taken,
         rc_received := rc_received s @ (if sent then [x] else [])\<rparr>"
      "read_connection reader (t # ts) s = (if sent then read_connection reader1 ts s2 else (Stopped, s2))"
proof (cases "case rd_deadlineErr t of Some err \<Rightarrow> (Inl err, reader) | None \<Rightarrow> FrameReader_Read reader")
  case (Pair res reader1)
  show thesis
  proof (cases res)
    case (Inl err)
    then show thesis using failed [of err] Pair by (simp add: Let_def)
  next
    case (Inr snapshot)
    let ?s = "rc_take (rd_take t) s" and ?x = "\<lparr>rs_response = snapshot, rs_receivedAt = rd_receivedAt t\<rparr>"
    obtain sent q taken where r: "sendLatestSnapshot (rd_send t) ?x (rc_queue ?s) = (sent, q, taken)" by (rule prod_cases3)
    then obtain b where b: "sent = Some b" using send_not_blocked [of "rd_send t" ?x "rc_queue ?s"] by auto
    have "FrameReader_Read reader = (Inr (rs_response ?x), reader1)" using Pair Inr by (auto split: option.splits)
    then show thesis using read [of ?x reader1 b q taken] Pair Inr r b by (simp add: Let_def split: bool.split)
  qed
qed

definition received_from :: "FrameReader \<Rightarrow> receiver \<Rightarrow> receiver \<Rightarrow> bool" where
  "received_from reader s s1 =
    (\<exists>xs. rc_received s1 = rc_received s @ xs \<and> prefix (map rs_response xs) (fst (read_stream reader)))"

lemma read_connection_correct:
  "receiver_inv s \<Longrightarrow> receiver_inv (snd (read_connection reader ts s)) \<and> received_from reader s (snd (read_connection reader ts s))"
proof (induction ts arbitrary: reader s)
  case Nil
  then show ?case by (simp add: received_from_def)
next
  case (Cons t ts)
  let ?s = "rc_take (rd_take t) s"
  have inv: "receiver_inv ?s" "receiver_inv (rc_update e ?s)" for e
    using rc_take_inv [OF Cons.prems] by (simp_all add: receiver_inv_def)
  show ?case
  proof (cases rule: read_turn_cases [of reader t ts s])
    case (failed err)
    then show ?thesis using inv by (simp add: received_from_def)
  next
    case (read x reader1 sent q taken s2)
    have s2: "receiver_inv s2"
      using send_inv [OF inv(2) [of None], of "rd_send t" x "Some sent" q taken] read(2,3) by (simp cong: if_cong)
    have rs: "fst (read_stream reader) = rs_response x # fst (read_stream reader1)"
      using read(1) by (subst read_stream.simps) (simp split: prod.split)
    show ?thesis
    proof (cases sent)
      case True
      then show ?thesis
        using Cons.IH [OF s2, of reader1] read(3,4) rs by (auto simp: received_from_def)
    next
      case False
      then show ?thesis using s2 read(3,4) by (simp add: received_from_def)
    qed
  qed
qed

text \<open>The snapshots the connections of a peer carry, in the order of the connections.\<close>

fun snapshots_from :: "nat \<Rightarrow> accept_result list \<Rightarrow> Response list" where
  "snapshots_from cid [] = []"
| "snapshots_from cid (AcceptError err cancelled # as) = snapshots_from cid as"
| "snapshots_from cid (Accepted conn # as) =
    (if cn_peer conn = Some cid then fst (read_stream (NewFrameReader (cn_bytes conn) (cn_end conn))) else []) @
    snapshots_from cid as"

lemma receive_correct:
  "receiver_inv s \<Longrightarrow> receiver_inv (snd (receiveSnapshots cid as s)) \<and>
    (\<exists>xs. rc_received (snd (receiveSnapshots cid as s)) = rc_received s @ xs \<and> subseq (map rs_response xs) (snapshots_from cid as))"
proof (induction cid as s rule: receiveSnapshots.induct)
  case (3 cid conn as s)
  show ?case
  proof (cases "cn_peer conn = Some cid")
    case True
    let ?r = "NewFrameReader (cn_bytes conn) (cn_end conn)"
    obtain e s1 where r: "read_connection ?r (cn_turns conn) s = (e, s1)" by (cases "read_connection ?r (cn_turns conn) s")
    have s1: "receiver_inv s1" using read_connection_correct [OF "3.prems", of ?r "cn_turns conn"] r by simp
    obtain xs where xs: "rc_received s1 = rc_received s @ xs" "prefix (map rs_response xs) (fst (read_stream ?r))"
      using read_connection_correct [OF "3.prems", of ?r "cn_turns conn"] r by (auto simp: received_from_def)
    then have sub: "subseq (map rs_response xs) (fst (read_stream ?r))" by blast
    show ?thesis
    proof (cases "e = Broken")
      case False
      then show ?thesis using True r s1 xs(1) subseq_rev_drop_many [OF sub] by (cases e) auto
    next
      case Broken: True
      obtain ys where "receiver_inv (snd (receiveSnapshots cid as s1))"
        "rc_received (snd (receiveSnapshots cid as s1)) = rc_received s1 @ ys" "subseq (map rs_response ys) (snapshots_from cid as)"
        using "3.IH"(2) [of e s1] True r Broken s1 by auto
      then show ?thesis
        using True r Broken xs(1) list_emb_append_mono [OF sub] by (intro conjI exI [of _ "xs @ ys"]) auto
    qed
  next
    case False
    then show ?thesis using 3 by simp
  qed
qed (auto intro: exI [of _ "[]"])

text \<open>
  C9: What the main loop takes from the receiver are snapshots sent over connections of the expected
  context ID, in the order they were sent and none twice, and a pending snapshot is always the
  newest one received: an older pending one is dropped, so there is never a backlog.
\<close>

theorem receive_newest:
  "let s = snd (receiveSnapshots cid as receiver_start); seen = rc_taken s @ option_list (rc_queue s) in
    subseq seen (rc_received s) \<and> subseq (map rs_response seen) (snapshots_from cid as) \<and>
    (rc_queue s = None \<or> rc_received s \<noteq> [] \<and> rc_queue s = Some (last (rc_received s)))"
proof -
  let ?s = "snd (receiveSnapshots cid as receiver_start)"
  let ?seen = "rc_taken ?s @ option_list (rc_queue ?s)"
  have inv: "receiver_inv ?s" using receive_correct [of receiver_start cid as] by simp
  then have sub: "subseq ?seen (rc_received ?s)" by (simp add: receiver_inv_def)
  have "rc_received receiver_start = []" by (simp add: receiver_start_def)
  then have "subseq (map rs_response (rc_received ?s)) (snapshots_from cid as)"
    using receive_correct [OF receiver_start_inv, of cid as] by auto
  with subseq_map [OF sub] have "subseq (map rs_response ?seen) (snapshots_from cid as)"
    by (rule subseq_order.order_trans)
  then show ?thesis using inv by (auto simp: receiver_inv_def Let_def)
qed

lemma subseq_set: "subseq xs ys \<Longrightarrow> set xs \<subseteq> set ys"
  by (auto elim: list_emb_set)

lemma taken_from: "set (map rs_response (rc_taken (snd (receiveSnapshots cid as receiver_start)))) \<subseteq> set (snapshots_from cid as)"
proof -
  let ?s = "snd (receiveSnapshots cid as receiver_start)"
  have "subseq (rc_taken ?s) (rc_received ?s)"
    using receive_correct [OF receiver_start_inv, of cid as] subseq_cases(1) by (auto simp: receiver_inv_def)
  moreover have "rc_received receiver_start = []" by (simp add: receiver_start_def)
  then have "subseq (map rs_response (rc_received ?s)) (snapshots_from cid as)"
    using receive_correct [OF receiver_start_inv, of cid as] by auto
  ultimately have "subseq (map rs_response (rc_taken ?s)) (snapshots_from cid as)"
    using subseq_order.order_trans subseq_map by blast
  then show ?thesis by (rule subseq_set)
qed

subsection \<open>What arrives is well-formed text\<close>

lemma decode_disk_well: "json_well v \<Longrightarrow> well_text (disk_ID (snd (decode_disk v Disk_zero)))"
  unfolding decode_disk_def
proof (rule decode_struct_inv [where P = "\<lambda>d. well_text (disk_ID d)"], goal_cases)
  case (1 f v r)
  then show ?case
    by (cases v) (auto simp: decode_string_def decode_bool_def decode_float_def split: sum.split)
qed (auto simp: Disk_zero_def well_text_ascii)

lemma decode_hba_well: "json_well v \<Longrightarrow> well_text (hba_ID (snd (decode_hba v HBA_zero)))"
  unfolding decode_hba_def
proof (rule decode_struct_inv [where P = "\<lambda>h. well_text (hba_ID h)"], goal_cases)
  case (1 f v r)
  then show ?case
    by (cases v) (auto simp: decode_string_def decode_ptr_def case_prod_beta decode_float_def split: sum.split)
qed (auto simp: HBA_zero_def well_text_ascii)

lemma decode_slice_well:
  assumes "json_well v" "\<And>v. json_well v \<Longrightarrow> P (snd (dec v zero))" "Q r"
    "\<And>xs. list_all P (elements xs) \<Longrightarrow> Q (put xs r)"
  shows "Q (snd (decode_slice zero put dec typ v r))"
proof (cases v)
  case (JArr vs)
  then have "list_all P (snd (decode_elements zero dec vs))"
    using assms(1,2) by (intro decode_elements_inv) auto
  then show ?thesis using JArr assms(4) [of "Some (snd (decode_elements zero dec vs))"] by (simp add: decode_slice_def case_prod_beta)
qed (use assms(3) assms(4) [of None] in \<open>simp_all add: decode_slice_def\<close>)

lemma decode_response_text_ok: "json_well v \<Longrightarrow> response_text_ok (snd (decode_response v Response_zero))"
  unfolding decode_response_def
proof (rule decode_struct_inv [where P = response_text_ok], goal_cases)
  case (1 f v r)
  have disks: "response_text_ok (snd (decode_slice Disk_zero (\<lambda>v r. r\<lparr>resp_Disks := v\<rparr>) decode_disk tn v r))"
    for tn :: string
    by (rule decode_slice_well [where P = "\<lambda>d. well_text (disk_ID d)"])
      (use 1 in \<open>auto simp: response_text_ok_def decode_disk_well\<close>)
  have hbas: "response_text_ok (snd (decode_slice HBA_zero (\<lambda>v r. r\<lparr>resp_HBAs := v\<rparr>) decode_hba tn v r))"
    for tn :: string
    by (rule decode_slice_well [where P = "\<lambda>h. well_text (hba_ID h)"])
      (use 1 in \<open>auto simp: response_text_ok_def decode_hba_well\<close>)
  show ?case
    using 1 disks hbas
    by (auto simp: decode_int_def response_text_ok_def decode_string_def split: json.split sum.split)
qed (auto simp: response_text_ok_def Response_zero_def)

lemma Read_text_ok: "FrameReader_Read r = (Inr x, r1) \<Longrightarrow> response_text_ok x"
  by (auto simp: FrameReader_Read_def json_Unmarshal_def split: sum.splits option.splits prod.splits if_splits
      dest!: json_parse_well) (metis decode_response_text_ok snd_conv)+

lemma read_stream_text_ok: "x \<in> set (fst (read_stream r)) \<Longrightarrow> response_text_ok x"
proof (induction r rule: read_stream.induct)
  case (1 r)
  then show ?case by (subst (asm) (2) read_stream.simps) (auto split: sum.splits prod.splits dest: Read_text_ok)
qed

lemma snapshots_text_ok: "x \<in> set (snapshots_from cid as) \<Longrightarrow> response_text_ok x"
  by (induction cid as rule: snapshots_from.induct) (auto split: if_splits dest: read_stream_text_ok)

text \<open>A run of the main loop on what the receiver handed over meets what the host's properties ask for.\<close>

fun snapshots_taken :: "host_event list \<Rightarrow> receivedSnapshot list" where
  "snapshots_taken [] = []"
| "snapshots_taken (Snapshot ev # es) = sn_snapshot ev # snapshots_taken es"
| "snapshots_taken (_ # es) = snapshots_taken es"

lemma taken_event: "Snapshot ev \<in> set es \<Longrightarrow> sn_snapshot ev \<in> set (snapshots_taken es)"
  by (induction es rule: snapshots_taken.induct) auto

lemma taken_events_ok:
  assumes "snapshots_taken es = rc_taken (snd (receiveSnapshots cid as receiver_start))"
  shows "list_all event_ok es"
proof -
  have "event_ok e" if "e \<in> set es" for e
  proof (cases e)
    case (Snapshot ev)
    then have "sn_snapshot ev \<in> set (rc_taken (snd (receiveSnapshots cid as receiver_start)))"
      using that taken_event assms by metis
    then have "rs_response (sn_snapshot ev) \<in> set (snapshots_from cid as)" using taken_from by fastforce
    then show ?thesis using Snapshot snapshots_text_ok by simp
  qed simp_all
  then show ?thesis by (simp add: list_all_iff)
qed

end
