(* ===== verification/Guest_Host.thy ===== *)
theory Guest_Host
  imports Publisher Hwmon_Stream
begin

text \<open>
  Guest and host together: the publisher writes snapshots of its collectors on connections, any part
  of their bytes arrives, the receiver reads it and the main loop publishes what it takes.
\<close>

text \<open>Every connection the host accepts from the guest carries a part of what the guest wrote on one of its own.\<close>

definition carried :: "nat \<Rightarrow> accept_result list \<Rightarrow> string list \<Rightarrow> bool" where
  "carried cid as streams =
    list_all (\<lambda>a. case a of
        Accepted conn \<Rightarrow> cn_peer conn \<noteq> Some cid \<or> list_ex (\<lambda>b. prefix (cn_bytes conn) b) streams
      | AcceptError _ _ \<Rightarrow> True) as"

lemma snapshots_from_turns:
  assumes "\<forall>b \<in> set streams. b = [] \<or> (\<exists>d \<in> set ds. streamed (dl_turns d) b)"
    and "\<And>d. d \<in> set ds \<Longrightarrow> list_all (\<lambda>t. response_plain (turn_response t)) (dl_turns d)"
    and "carried cid as streams" "x \<in> set (snapshots_from cid as)"
  shows "\<exists>d \<in> set ds. \<exists>t \<in> set (dl_turns d). x = clean_response (turn_response t)"
  using assms(3,4)
proof (induction cid as rule: snapshots_from.induct)
  case (3 cid conn as)
  show ?case
  proof (cases "cn_peer conn = Some cid \<and> x \<in> set (fst (read_stream (NewFrameReader (cn_bytes conn) (cn_end conn))))")
    case True
    then obtain b missing where b: "b \<in> set streams" "b = cn_bytes conn @ missing"
      using "3.prems"(1) by (auto simp: carried_def list_ex_iff prefix_def)
    show ?thesis
    proof (cases "b = []")
      case True
      then have "cn_bytes conn = []" using b by simp
      then show ?thesis using \<open>cn_peer conn = Some cid \<and> _\<close> by (simp add: NewFrameReader_def)
    next
      case False
      then obtain d where d: "d \<in> set ds" "streamed (dl_turns d) (cn_bytes conn)"
        using assms(1) b streamed_prefix by blast
      obtain k where "fst (read_stream (NewFrameReader (cn_bytes conn) (cn_end conn))) =
          map (clean_response \<circ> turn_response) (take k (dl_turns d))"
        using streamed_read [OF d(2) assms(2) [OF d(1)]] by blast
      then show ?thesis using True d(1) in_set_takeD by fastforce
    qed
  next
    case False
    then have "x \<in> set (snapshots_from cid as)" using "3.prems"(2) by (auto split: if_splits)
    then show ?thesis using "3.IH" "3.prems"(1) by (simp add: carried_def)
  qed
qed (auto simp: carried_def)

text \<open>
  C1: End to end, no temperature is invented or outlives its time. As long as the temperatures of the
  guest's snapshots are finite and printed without an exponent, whatever fails on either side and
  wherever connections break, every value the host's kernel shows for a sensor is 100 degrees, or
  was written before the start within the stale timeout, or is the temperature of that very sensor
  in a snapshot the guest built from its collectors, that had not expired in the queue and that the
  host published within the stale timeout.
\<close>

theorem guest_to_host:
  assumes "\<And>d. d \<in> set ds \<Longrightarrow> list_all (\<lambda>t. response_plain (turn_response t)) (dl_turns d)"
    and "carried cid as (guest_streams (snd (publishSnapshots ds (publisher_start service))))"
    and "host_started path k s" "snapshots_taken es = rc_taken (snd (receiveSnapshots cid as receiver_start))"
    and "sensor_of (hh_vt (host_after path k s es)) y = Some t"
  shows "let now = vt_jiffies (hh_vt (host_after path k s es)); v = read_value (hh_vt (host_after path k s es)) t;
      limit = vt_stale_timeout (hk_vt k) * vt_HZ (hk_vt k) in
    v = FAILSAFE_MILLIC \<or>
    (\<exists>d \<in> set ds. \<exists>turn \<in> set (dl_turns d). \<exists>pre ev post. es = pre @ Snapshot ev # post \<and>
       rs_response (sn_snapshot ev) = clean_response (turn_response turn) \<and> \<not> expired (sn_snapshot ev) (sn_now ev) \<and>
       (y, v) \<in> snapshot_temperatures (clean_response (turn_response turn)) \<and>
       now \<le> vt_jiffies (hh_vt (host_after path k s pre)) + limit) \<or>
    (\<exists>t0. sensor_of (hk_vt k) y = Some t0 \<and> v = vs_temperature t0 \<and> now \<le> vs_last_update t0 + limit)"
proof -
  let ?g = "snd (publishSnapshots ds (publisher_start service))"
  have streams: "\<forall>b \<in> set (guest_streams ?g). b = [] \<or> (\<exists>d \<in> set ds. streamed (dl_turns d) b)"
    by (rule publishSnapshots_streams) (simp_all add: guest_streams_def publisher_start_def)
  have turn: "\<exists>d \<in> set ds. \<exists>turn \<in> set (dl_turns d). rs_response (sn_snapshot ev) = clean_response (turn_response turn)"
    if "es = pre @ Snapshot ev # post" for pre ev post
  proof -
    have "sn_snapshot ev \<in> set (rc_taken (snd (receiveSnapshots cid as receiver_start)))"
      using that taken_event [of ev es] assms(4) by simp
    then have "rs_response (sn_snapshot ev) \<in> set (snapshots_from cid as)" using taken_from by fastforce
    from snapshots_from_turns [OF streams assms(1,2) this] show ?thesis .
  qed
  show ?thesis
    using shown_value [OF assms(3) taken_events_ok [OF assms(4)] assms(5)] turn
    unfolding Let_def by metis
qed

subsection \<open>An example\<close>

definition example_collector :: diskCollector where
  "example_collector =
    (newDiskCollector \<lparr>pa_disksINI = [], pa_devsINI = [], pa_varINI = [], pa_sysBlockRoot = [], pa_policyFile = [],
       pa_sdspin = [], pa_smartctlType = []\<rparr>)
    \<lparr>dc_err := None, dc_updatedAt := 100 * second,
     dc_lastSuccessfulSnapshot :=
       Some (map (\<lambda>r. runtime_zero\<lparr>rt_reading := r\<rparr>) (elements (resp_Disks (example_response 37))))\<rparr>"

definition example_turn :: "unit publish_turn" where
  "example_turn =
    \<lparr>pt_ctxErr = None, pt_deadlineErr = None, pt_disks = example_collector, pt_diskNow = 101 * second,
     pt_hbas = \<lparr>hc_interval = 15 * second, hc_mode = hbaModeEnabled, hc_backend = hbaBackendMPT3CTL,
       hc_err = Some (errors_New ''expired''), hc_lastSuccessfulAt = time_zero, hc_lastErrorAt = time_zero,
       hc_lastSuccessfulSnapshot = None, hc_reader = ()\<rparr>,
     pt_hbaNow = 101 * second, pt_write = \<lambda>data. (length data, None), pt_now = 101 * second, pt_interrupted = True\<rparr>"

definition example_dial :: "unit dial_turn" where
  "example_dial = \<lparr>dl_ctxErr = None, dl_socketErr = None, dl_connectErr = None, dl_now = 100 * second,
     dl_turns = [example_turn], dl_ctxErrAfter = None, dl_interrupted = True\<rparr>"

lemma example_turn_response: "turn_response example_turn = example_response 37"
  by (simp add: turn_response_def collectorSnapshot_def example_turn_def example_response_def disk_snapshot_def hba_snapshot_def
      example_collector_def newDiskCollector_def disk_stale_def diskReadingsFromRuntime_def go_simps ProtocolVersion_def
      hbaModeEnabled_def hbaModeDisabled_def errors_New_def)

lemma example_plain: "response_plain (example_response 37)"
proof -
  have "plain_value 37" using plain_int [of 37] by simp
  then show ?thesis by (simp add: response_plain_def example_response_def disk_plain_def int64_range_def)
qed

lemma example_clean: "clean_response (example_response 37) = example_response 37"
proof -
  have "well_text ''S1''" "well_text ''disk1''" "well_text ''sdb''" "well_text ''sata''" "well_text ''expired''" "well_text []"
    by (rule well_text_ascii, simp)+
  then show ?thesis by (simp add: example_response_def clean_response_def clean_disk_def well_text_def)
qed

lemma example_connection:
  "fst (publishConnection [example_turn] p) = Ended None" "pb_sent (snd (publishConnection [example_turn] p)) = pb_sent p @ example_line"
  "pb_closed (snd (publishConnection [example_turn] p)) = pb_closed p"
proof -
  have t: "pt_ctxErr example_turn = None" "pt_deadlineErr example_turn = None" "pt_write example_turn = (\<lambda>data. (length data, None))"
    "pt_interrupted example_turn" by (simp_all add: example_turn_def)
  have w: "WriteFrame (pt_write example_turn) (example_response 37) = None"
    "accepted_bytes (pt_write example_turn) (example_response 37) = example_line"
    using example_line_ok(1) by (simp_all add: WriteFrame_def accepted_bytes_def t)
  show "fst (publishConnection [example_turn] p) = Ended None" "pb_sent (snd (publishConnection [example_turn] p)) = pb_sent p @ example_line"
    "pb_closed (snd (publishConnection [example_turn] p)) = pb_closed p"
    using w t by (simp_all add: example_turn_response waitFor_def Let_def)
qed

lemma example_guest:
  "guest_streams (snd (publishSnapshots [example_dial] (publisher_start service))) = [example_line, []]"
proof -
  let ?p = "(publisher_start service)\<lparr>pb_service := connectedNow (dl_now example_dial) (pb_service (publisher_start service)), pb_sent := []\<rparr>"
  obtain q where q: "publishConnection [example_turn] ?p = (Ended None, q)" "pb_sent q = example_line" "pb_closed q = []"
    using example_connection [of ?p] by (cases "publishConnection [example_turn] ?p") (auto simp: publisher_start_def)
  have d: "dl_ctxErr example_dial = None" "dialVSOCK (dl_socketErr example_dial) (dl_connectErr example_dial) = None"
    "dl_turns example_dial = [example_turn]" by (simp_all add: example_dial_def dialVSOCK_def)
  show ?thesis using q(2,3) by (simp add: d q(1) guest_streams_def Let_def del: publishConnection.simps)
qed

definition example_reads :: "read_turn list" where
  "example_reads =
    [\<lparr>rd_take = False, rd_deadlineErr = None, rd_receivedAt = 5 * second,
      rd_send = \<lparr>sd_done1 = False, sd_pick1 = False, sd_taken = False, sd_done2 = False, sd_pick2 = False\<rparr>, rd_cancelled = False\<rparr>,
     \<lparr>rd_take = True, rd_deadlineErr = None, rd_receivedAt = 6 * second,
      rd_send = \<lparr>sd_done1 = False, sd_pick1 = False, sd_taken = False, sd_done2 = False, sd_pick2 = False\<rparr>, rd_cancelled = False\<rparr>]"

definition example_accepts :: "accept_result list" where
  "example_accepts = [Accepted \<lparr>cn_peer = Some 3, cn_bytes = example_line, cn_end = None, cn_turns = example_reads\<rparr>]"

lemma example_received:
  "rc_taken (snd (receiveSnapshots 3 example_accepts receiver_start)) =
    [\<lparr>rs_response = example_response 37, rs_receivedAt = 5 * second\<rparr>]"
proof -
  have "resp_Protocol (example_response 37) = ProtocolVersion" by (simp add: example_response_def ProtocolVersion_def)
  from Read_frame [OF example_plain this example_line_ok(1), of "[]" None]
  have r: "FrameReader_Read \<lparr>fr_rest = example_line, fr_end = None\<rparr> =
      (Inr (example_response 37), \<lparr>fr_rest = [], fr_end = None\<rparr>)" by (simp add: example_clean)
  have e: "FrameReader_Read \<lparr>fr_rest = [], fr_end = None\<rparr> = (Inl io_EOF, \<lparr>fr_rest = [], fr_end = None\<rparr>)"
    by (simp add: FrameReader_Read_def scan_frame_def maxFrameSize_def)
  show ?thesis
    by (simp add: example_accepts_def example_reads_def NewFrameReader_def r e receiver_start_def rc_take_def rc_update_def
        sticky_update_def sendLatestSnapshot_def select_send_def option_list_def Let_def)
qed

definition example_taken_event :: snapshot_event where
  "example_taken_event = example_snapshot_event\<lparr>sn_snapshot := \<lparr>rs_response = example_response 37, rs_receivedAt = 5 * second\<rparr>\<rparr>"

lemma example_shown:
  "map_option (read_value (hh_vt (example_run [Snapshot example_taken_event])))
    (sensor_of (hh_vt (example_run [Snapshot example_taken_event])) ''disk:S1'') = Some 37000"
  by code_simp

theorem guest_to_host_witness:
  "(''disk:S1'', 37000) \<in> snapshot_temperatures (clean_response (turn_response example_turn))"
proof -
  let ?es = "[Snapshot example_taken_event]"
  obtain t where t: "sensor_of (hh_vt (example_run ?es)) ''disk:S1'' = Some t" "read_value (hh_vt (example_run ?es)) t = 37000"
    using example_shown by auto
  have none: "sensor_of (hk_vt empty_kernel) ''disk:S1'' = None" by (simp add: empty_kernel_def sensor_of_def)
  have plain: "\<And>d. d \<in> set [example_dial] \<Longrightarrow> list_all (\<lambda>t. response_plain (turn_response t)) (dl_turns d)"
    using example_turn_response example_plain by (simp add: example_dial_def)
  have carried: "carried 3 example_accepts (guest_streams (snd (publishSnapshots [example_dial] (publisher_start (newServiceState 990 0 1)))))"
    unfolding example_guest by (simp add: carried_def example_accepts_def)
  have taken: "snapshots_taken ?es = rc_taken (snd (receiveSnapshots 3 example_accepts receiver_start))"
    unfolding example_received by (simp add: example_taken_event_def)
  have d: "dl_turns example_dial = [example_turn]" by (simp add: example_dial_def)
  from guest_to_host [OF plain carried example_started taken t(1) [unfolded example_run_def]] show ?thesis
    using t(2) none by (auto simp: example_run_def [symmetric] FAILSAFE_MILLIC_def Let_def d)
qed

end
