(* ===== verification/Control_Server.thy ===== *)
theory Control_Server
  imports Disk_Collector
begin

text \<open>
  The control server (\<^verbatim>\<open>control_server.go\<close>, \<^verbatim>\<open>startControlPlane\<close> of \<^verbatim>\<open>main.go\<close>): the Unix socket it
  listens on, the requests and their responses. Requests change the policy file through the policy
  store and ask the collector for a refresh.
\<close>

subsection \<open>The socket\<close>

text \<open>
  What is at the socket's path: nothing, something that is no socket, a socket with a process
  listening on it, or one nobody listens on. The outcomes of the calls are those of the node unless
  a failure is in store.
\<close>

datatype socket_node = NoNode | OtherNode | ListeningSocket | StaleSocket

record socket_calls =
  sc_mkdir :: "go_error option"
  sc_lstat :: "go_error option"
  sc_dial :: "go_error option"
  sc_remove :: "go_error option"
  sc_listen :: "go_error option"
  sc_chmod :: "go_error option"

definition call_Lstat :: "socket_calls \<Rightarrow> socket_node \<Rightarrow> bool result" where
  "call_Lstat calls node =
    (case sc_lstat calls of
       Some e \<Rightarrow> Inl e
     | None \<Rightarrow> if node = NoNode then Inl not_exist_error else Inr (node = ListeningSocket \<or> node = StaleSocket))"

definition refused_error :: go_error where
  "refused_error = GoErr ''connection refused'' [ECONNREFUSED]"

definition call_Dial :: "socket_calls \<Rightarrow> socket_node \<Rightarrow> go_error option" where
  "call_Dial calls node =
    (case sc_dial calls of
       Some e \<Rightarrow> Some e
     | None \<Rightarrow> if node = ListeningSocket then None else if node = NoNode then Some not_exist_error else Some refused_error)"

definition call_Remove :: "socket_calls \<Rightarrow> socket_node \<Rightarrow> go_error option \<times> socket_node" where
  "call_Remove calls node =
    (case sc_remove calls of
       Some e \<Rightarrow> (Some e, node)
     | None \<Rightarrow> if node = NoNode then (Some not_exist_error, node) else (None, NoNode))"

definition call_Listen :: "socket_calls \<Rightarrow> socket_node \<Rightarrow> go_error option \<times> socket_node" where
  "call_Listen calls node =
    (case sc_listen calls of
       Some e \<Rightarrow> (Some e, node)
     | None \<Rightarrow> if node \<noteq> NoNode then (Some (GoErr ''address already in use'' [EADDRINUSE]), node) else (None, ListeningSocket))"

definition isUnixConnRefused :: "go_error \<Rightarrow> bool" where
  "isUnixConnRefused err = errors_Is err ECONNREFUSED"

definition prepareSocket :: "string \<Rightarrow> socket_calls \<Rightarrow> socket_node \<Rightarrow> go_error option \<times> socket_node \<times> string list" where
  "prepareSocket path calls node =
    (case call_Lstat calls node of
       Inl err \<Rightarrow>
         if errors_Is err ErrNotExist then (None, node, [])
         else (Some (Errorf_w (''inspect control socket '' @ quote path @ '': '') err []), node, [])
     | Inr isSocket \<Rightarrow>
         if \<not> isSocket then (Some (errors_New (''control socket path '' @ quote path @ '' is not a socket'')), node, [])
         else
           (case call_Dial calls node of
              None \<Rightarrow>
                (Some (GoErr (''control socket is already in use: another unraid-vsock-sensors instance is already listening on '' @ path)
                   [ErrControlSocketInUse]), node, [])
            | Some dialErr \<Rightarrow>
                if isUnixConnRefused dialErr then
                  (case call_Remove calls node of
                     (Some err, node1) \<Rightarrow>
                       if errors_Is err ErrNotExist then (None, node1, [])
                       else (Some (Errorf_w (''remove stale control socket '' @ quote path @ '': '') err []), node1, [])
                   | (None, node1) \<Rightarrow> (None, node1, []))
                else if \<not> errors_Is dialErr ErrNotExist then
                  (None, node, [''control socket '' @ quote path @ '' exists but cannot be probed ('' @ Error dialErr @
                     ''); leaving it in place''])
                else (None, node, [])))"

text \<open>Closing the listener removes the socket it created.\<close>

definition openListener :: "string \<Rightarrow> socket_calls \<Rightarrow> socket_node \<Rightarrow> go_error option \<times> socket_node \<times> string list" where
  "openListener path calls node =
    (case sc_mkdir calls of
       Some err \<Rightarrow> (Some (Errorf_w ''create control socket directory: '' err []), node, [])
     | None \<Rightarrow>
         (case prepareSocket path calls node of
            (Some err, node1, lines) \<Rightarrow> (Some err, node1, lines)
          | (None, node1, lines) \<Rightarrow>
              (case call_Listen calls node1 of
                 (Some err, node2) \<Rightarrow>
                   (Some (if errors_Is err EADDRINUSE
                          then GoErr (''control socket is already in use at '' @ quote path @ '': '' @ Error err) [ErrControlSocketInUse]
                          else Errorf_w (''listen on control socket '' @ quote path @ '': '') err []), node2, lines)
               | (None, node2) \<Rightarrow>
                   (case sc_chmod calls of
                      Some err \<Rightarrow> (Some (Errorf_w (''chmod control socket '' @ quote path @ '': '') err []), NoNode, lines)
                    | None \<Rightarrow> (None, node2, lines)))))"

definition control_start :: "string \<Rightarrow> socket_calls \<Rightarrow> socket_node \<Rightarrow> go_error option \<times> socket_node \<times> string list" where
  "control_start path calls node =
    (case openListener path calls node of
       (Some err, node1, lines) \<Rightarrow> (Some err, node1, lines)
     | (None, node1, lines) \<Rightarrow> (None, node1, lines @ [''control API listening on '' @ path]))"

text \<open>\<^verbatim>\<open>startControlPlane\<close>: only a socket in use is fatal.\<close>

definition startControlPlane :: "string \<Rightarrow> socket_calls \<Rightarrow> socket_node \<Rightarrow> go_error option \<times> socket_node \<times> string list" where
  "startControlPlane path calls node =
    (case control_start path calls node of
       (None, node1, lines) \<Rightarrow> (None, node1, lines)
     | (Some err, node1, lines) \<Rightarrow>
         if errors_Is err ErrControlSocketInUse then (Some err, node1, lines)
         else (None, node1, lines @ [''control API unavailable at startup: '' @ Error err @
           ''; restart the service to restore the WebUI control plane'']))"

text \<open>What a kernel never answers: a refusal where a process listens, or an answer about a missing node that is there.\<close>

definition honest_calls :: "socket_calls \<Rightarrow> bool" where
  "honest_calls calls =
    (pred_option (\<lambda>e. \<not> errors_Is e ECONNREFUSED \<and> \<not> errors_Is e ErrNotExist) (sc_dial calls) \<and>
     pred_option (\<lambda>e. \<not> errors_Is e ErrNotExist) (sc_lstat calls))"

lemma prepareSocket_keeps:
  assumes "honest_calls calls" "node = ListeningSocket \<or> node = OtherNode"
  shows "fst (snd (prepareSocket path calls node)) = node"
  using assms by (auto simp: prepareSocket_def honest_calls_def call_Lstat_def call_Dial_def isUnixConnRefused_def
      split: option.splits sum.splits prod.splits)

lemma Listen_keeps: "node \<noteq> NoNode \<Longrightarrow> \<exists>e. call_Listen calls node = (Some e, node)"
  by (auto simp: call_Listen_def split: option.splits)

lemma startControlPlane_node: "fst (snd (startControlPlane path calls node)) = fst (snd (openListener path calls node))"
  by (auto simp: startControlPlane_def control_start_def split: option.split prod.split)

lemma openListener_keeps:
  assumes "honest_calls calls" "node = ListeningSocket \<or> node = OtherNode"
  shows "fst (snd (openListener path calls node)) = node"
proof (cases "prepareSocket path calls node")
  case (fields err node1 lines)
  then have node1: "node1 = node" using prepareSocket_keeps [OF assms, of path] by simp
  obtain e where "call_Listen calls node = (Some e, node)" using Listen_keeps assms(2) by blast
  then show ?thesis using fields node1 by (auto simp: openListener_def split: option.split)
qed

lemma openListener_in_use:
  assumes "honest_calls calls" "sc_mkdir calls = None" "sc_lstat calls = None" "sc_listen calls = None"
  shows "\<exists>e. fst (openListener path calls ListeningSocket) = Some e \<and> errors_Is e ErrControlSocketInUse"
  using assms by (auto simp: openListener_def prepareSocket_def honest_calls_def call_Lstat_def call_Dial_def call_Listen_def
      isUnixConnRefused_def errors_Is_def split: option.split)

lemma openListener_free:
  assumes "node = NoNode \<or> node = StaleSocket" "sc_mkdir calls = None" "sc_lstat calls = None" "sc_dial calls = None"
    "sc_remove calls = None" "sc_listen calls = None" "sc_chmod calls = None"
  shows "openListener path calls node = (None, ListeningSocket, [])"
  using assms by (auto simp: openListener_def prepareSocket_def call_Lstat_def call_Dial_def call_Remove_def call_Listen_def
      isUnixConnRefused_def errors_Is_def not_exist_error_def refused_error_def)

text \<open>
  C15: Starting the control plane never takes the socket of a running instance, nor removes a file
  that is no socket: both are left in place. Over the socket of a running instance it reports that
  the socket is in use, which stops the program, unless the directory or the node could not be
  examined or the kernel refused to listen for another reason; a socket nobody listens on is
  replaced.
\<close>

theorem control_socket_safe:
  assumes "honest_calls calls" "startControlPlane path calls node = (err, node', lines)"
  shows "(node = ListeningSocket \<or> node = OtherNode \<longrightarrow> node' = node) \<and>
    (node = ListeningSocket \<and> sc_mkdir calls = None \<and> sc_lstat calls = None \<and> sc_listen calls = None \<longrightarrow>
      (\<exists>e. err = Some e \<and> errors_Is e ErrControlSocketInUse)) \<and>
    (node = NoNode \<or> node = StaleSocket \<longrightarrow>
      sc_mkdir calls = None \<and> sc_lstat calls = None \<and> sc_dial calls = None \<and> sc_remove calls = None \<and>
      sc_listen calls = None \<and> sc_chmod calls = None \<longrightarrow> err = None \<and> node' = ListeningSocket)"
proof (intro conjI impI)
  assume "node = ListeningSocket \<or> node = OtherNode"
  then show "node' = node"
    using openListener_keeps [OF assms(1)] startControlPlane_node [of path calls node] assms(2) by simp
next
  assume a: "node = ListeningSocket \<and> sc_mkdir calls = None \<and> sc_lstat calls = None \<and> sc_listen calls = None"
  then obtain e where "fst (openListener path calls node) = Some e" "errors_Is e ErrControlSocketInUse"
    using openListener_in_use [OF assms(1)] by blast
  then show "\<exists>e. err = Some e \<and> errors_Is e ErrControlSocketInUse"
    using assms(2) by (cases "openListener path calls node") (auto simp: startControlPlane_def control_start_def)
next
  assume "node = NoNode \<or> node = StaleSocket" and "sc_mkdir calls = None \<and> sc_lstat calls = None \<and> sc_dial calls = None \<and>
    sc_remove calls = None \<and> sc_listen calls = None \<and> sc_chmod calls = None"
  then have "openListener path calls node = (None, ListeningSocket, [])" by (intro openListener_free) simp_all
  then show "err = None" "node' = ListeningSocket"
    using assms(2) by (simp_all add: startControlPlane_def control_start_def)
qed

definition working_calls :: socket_calls where
  "working_calls = \<lparr>sc_mkdir = None, sc_lstat = None, sc_dial = None, sc_remove = None, sc_listen = None, sc_chmod = None\<rparr>"

theorem control_socket_safe_witness:
  "(\<exists>e lines. startControlPlane ''/run/control.sock'' working_calls ListeningSocket = (Some e, ListeningSocket, lines) \<and>
      errors_Is e ErrControlSocketInUse) \<and>
   (\<exists>lines. startControlPlane ''/run/control.sock'' working_calls StaleSocket = (None, ListeningSocket, lines))"
proof -
  have h: "honest_calls working_calls" by (simp add: honest_calls_def working_calls_def)
  obtain e n l where l: "startControlPlane ''/run/control.sock'' working_calls ListeningSocket = (e, n, l)" by (rule prod_cases3)
  obtain e' n' l' where s: "startControlPlane ''/run/control.sock'' working_calls StaleSocket = (e', n', l')" by (rule prod_cases3)
  show ?thesis
    using control_socket_safe [OF h l] control_socket_safe [OF h s] l s by (auto simp: working_calls_def)
qed

subsection \<open>Requests\<close>

record control_state =
  ct_os :: os_state
  ct_loop :: loop_state

record http_response =
  ht_status :: nat
  ht_body :: string

definition writeJSON :: "nat \<Rightarrow> json \<Rightarrow> http_response" where
  "writeJSON status body = \<lparr>ht_status = status, ht_body = json_print body @ [NL]\<rparr>"

definition writeError :: "nat \<Rightarrow> string \<Rightarrow> http_response" where
  "writeError status message = writeJSON status (JObj [(''error'', JStr message)])"

abbreviation (input) controlRequestBodyLimit :: nat where "controlRequestBodyLimit \<equiv> 4096"

text \<open>
  \<^verbatim>\<open>decodeJSONBody\<close>: one JSON value within the limit, without unknown members, and nothing behind it.
  Which of several mistakes in a body is reported is not modelled, only that one is.
\<close>

definition unknown_member :: "(string \<times> 'r decoder) list \<Rightarrow> json \<Rightarrow> go_error option" where
  "unknown_member fds v =
    (case v of
       JObj kvs \<Rightarrow>
         (case find (\<lambda>kv. \<not> list_ex (\<lambda>f. EqualFold (fst kv) (fst f)) fds) kvs of
            Some kv \<Rightarrow> Some (errors_New (''json: unknown field '' @ quote (fst kv)))
          | None \<Rightarrow> None)
     | _ \<Rightarrow> None)"

definition decode_strict :: "string \<Rightarrow> (string \<times> 'r decoder) list \<Rightarrow> 'r decoder" where
  "decode_strict typ fds v r = (case decode_struct typ fds v r of (e, r1) \<Rightarrow> (first_error (unknown_member fds v) e, r1))"

definition decodeJSONBody :: "string \<Rightarrow> (string \<times> 'r decoder) list \<Rightarrow> 'r \<Rightarrow> string \<Rightarrow> 'r result" where
  "decodeJSONBody typ fds zero body =
    (if controlRequestBodyLimit < length body then Inl (errors_New ''http: request body too large'')
     else json_Unmarshal (decode_strict typ fds) zero body)"

record diskPolicySetRequest =
  rq_ID :: string
  rq_Policy :: string

definition set_request_fields :: "(string \<times> diskPolicySetRequest decoder) list" where
  "set_request_fields =
    [(''id'', decode_string (\<lambda>v r. r\<lparr>rq_ID := v\<rparr>)), (''policy'', decode_string (\<lambda>v r. r\<lparr>rq_Policy := v\<rparr>))]"

definition decode_set_request :: "string \<Rightarrow> diskPolicySetRequest result" where
  "decode_set_request body = decodeJSONBody ''main.diskPolicySetRequest'' set_request_fields \<lparr>rq_ID = [], rq_Policy = []\<rparr> body"

text \<open>The files besides the policies: the INI files and sysfs.\<close>

record inventory_files =
  if_iniLoad :: "string \<Rightarrow> ini_file result"
  if_sysfs :: sysfs

definition managementInventory ::
    "diskDataPaths \<Rightarrow> inventory_files \<Rightarrow> os_state \<Rightarrow> diskPolicyRow list result \<times> os_state" where
  "managementInventory paths files s =
    (case readDiskPolicies (pa_policyFile paths) s of
       (Inl policyErr, s1) \<Rightarrow> (Inl policyErr, s1)
     | (Inr policies, s1) \<Rightarrow>
         (case readDiskInventoryEntries (if_iniLoad files) (if_sysfs files) (pa_disksINI paths) (pa_devsINI paths)
                 \<lparr>sel_sysBlockRoot = pa_sysBlockRoot paths, sel_policies = policies\<rparr> of
            Inl err \<Rightarrow> (Inl err, s1)
          | Inr entries \<Rightarrow> (Inr (inventoryRowsFromEntries entries), s1)))"

definition encode_row :: "diskPolicyRow \<Rightarrow> json" where
  "encode_row r =
    JObj ([(''id'', JStr (row_ID r)), (''name'', JStr (row_Name r)), (''device'', JStr (row_Device r)),
      (''transport'', JStr (row_Transport r)), (''bus'', JStr (bus_text (row_Bus r))), (''policy'', JStr (row_Policy r)),
      (''selected'', JBool (row_Selected r)), (''eligible'', JBool (row_Eligible r))] @
      (if row_ValidationError r = [] then [] else [(''validation_error'', JStr (row_ValidationError r))]))"

definition handleListDisks :: "diskDataPaths \<Rightarrow> inventory_files \<Rightarrow> control_state \<Rightarrow> http_response \<times> control_state" where
  "handleListDisks paths files st =
    (case managementInventory paths files (ct_os st) of
       (Inl err, s1) \<Rightarrow>
         (writeError (if errors_Is err ErrInvalidPoliciesFile then 422 else 500) (Error err), st\<lparr>ct_os := s1\<rparr>)
     | (Inr rows, s1) \<Rightarrow> (writeJSON 200 (JArr (map encode_row rows)), st\<lparr>ct_os := s1\<rparr>))"

definition status_ok :: json where
  "status_ok = JObj [(''status'', JStr ''ok'')]"

definition handleSetDiskPolicy :: "diskDataPaths \<Rightarrow> string \<Rightarrow> control_state \<Rightarrow> http_response \<times> control_state" where
  "handleSetDiskPolicy paths body st =
    (case decode_set_request body of
       Inl err \<Rightarrow> (writeError 400 (''invalid JSON body: '' @ Error err), st)
     | Inr request \<Rightarrow>
         (case policy_Set (pa_policyFile paths) (rq_ID request) (rq_Policy request) (ct_os st) of
            (Some err, s1) \<Rightarrow>
              (writeError (if errors_Is err ErrInvalidDiskID \<or> errors_Is err ErrInvalidDiskPolicy then 400
                           else if errors_Is err ErrInvalidPoliciesFile then 422 else 500) (Error err), st\<lparr>ct_os := s1\<rparr>)
          | (None, s1) \<Rightarrow> (writeJSON 200 status_ok, st\<lparr>ct_os := s1, ct_loop := requestDiskRefresh (ct_loop st)\<rparr>)))"

definition handleResetDiskPolicies ::
    "diskDataPaths \<Rightarrow> (string \<Rightarrow> bool) \<Rightarrow> control_state \<Rightarrow> http_response \<times> control_state" where
  "handleResetDiskPolicies paths is_dir st =
    (case policy_Reset is_dir (pa_policyFile paths) (ct_os st) of
       (Some err, s1) \<Rightarrow> (writeError 500 (Error err), st\<lparr>ct_os := s1\<rparr>)
     | (None, s1) \<Rightarrow> (writeJSON 200 status_ok, st\<lparr>ct_os := s1, ct_loop := requestDiskRefresh (ct_loop st)\<rparr>))"

text \<open>The routes; a \<^verbatim>\<open>GET\<close> route also serves \<^verbatim>\<open>HEAD\<close>.\<close>

datatype control_handler = ListDisks | SetDiskPolicy | ResetDiskPolicies

definition registerRoutes :: "((string \<times> string) \<times> control_handler) list" where
  "registerRoutes =
    [((''GET'', ''/v1/disks''), ListDisks), ((''PUT'', ''/v1/disk-policy''), SetDiskPolicy),
     ((''DELETE'', ''/v1/disk-policies''), ResetDiskPolicies)]"

definition control_route :: "string \<Rightarrow> string \<Rightarrow> control_handler option" where
  "control_route method path = map_of registerRoutes (if method = ''HEAD'' then ''GET'' else method, path)"

fun control_request ::
    "control_handler \<Rightarrow> diskDataPaths \<Rightarrow> inventory_files \<Rightarrow> (string \<Rightarrow> bool) \<Rightarrow> string \<Rightarrow> control_state \<Rightarrow> http_response \<times> control_state"
  where
  "control_request ListDisks paths files is_dir body st = handleListDisks paths files st"
| "control_request SetDiskPolicy paths files is_dir body st = handleSetDiskPolicy paths body st"
| "control_request ResetDiskPolicies paths files is_dir body st = handleResetDiskPolicies paths is_dir st"

lemma decode_set_request_well:
  assumes "decode_set_request body = Inr req"
  shows "well_text (rq_ID req) \<and> length body \<le> controlRequestBodyLimit"
proof -
  let ?z = "\<lparr>rq_ID = [], rq_Policy = []\<rparr>"
  obtain v where v: "json_parse body = Inr v" "length body \<le> controlRequestBodyLimit"
    "req = snd (decode_struct ''main.diskPolicySetRequest'' set_request_fields v ?z)"
    using assms by (auto simp: decode_set_request_def decodeJSONBody_def json_Unmarshal_def decode_strict_def case_prod_beta
        split: sum.splits prod.splits option.splits if_splits)
  have "well_text (rq_ID (snd (decode_struct ''main.diskPolicySetRequest'' set_request_fields v ?z)))"
  proof (rule decode_struct_inv [where P = "\<lambda>r. well_text (rq_ID r)"])
    fix f w and r :: diskPolicySetRequest assume "f \<in> set set_request_fields" "json_well w" "well_text (rq_ID r)"
    then show "well_text (rq_ID (snd (snd f w r)))"
      by (cases w) (auto simp: set_request_fields_def decode_string_def)
  qed (use json_parse_well [OF v(1)] in \<open>simp_all add: well_text_ascii\<close>)
  then show ?thesis using v by simp
qed

lemma policy_Set_refuses:
  "\<not> valid_id did \<or> policy \<notin> {diskPolicyAuto, diskPolicyInclude, diskPolicyExclude} \<Longrightarrow>
    \<exists>e. policy_Set path did policy s = (Some e, s) \<and> (errors_Is e ErrInvalidDiskID \<or> errors_Is e ErrInvalidDiskPolicy)"
  by (auto simp: policy_Set_def errors_Is_def)

abbreviation policies_in :: "string \<Rightarrow> control_state \<Rightarrow> policies result" where
  "policies_in path st \<equiv> stored_policies path (file_content (os_core (ct_os st)) path)"

definition policy_request_ok :: "diskPolicySetRequest \<Rightarrow> bool" where
  "policy_request_ok req = (valid_id (rq_ID req) \<and> rq_Policy req \<in> {diskPolicyAuto, diskPolicyInclude, diskPolicyExclude})"

text \<open>
  C11: A policy request is answered truthfully. 200 is only answered when the body was one well-formed
  request, the policy file now reads back as the old policies with exactly that change, and a refresh
  of the disks is pending; the file is then on disk if the request changed it or if it was on disk
  before. Any other status means that no refresh was requested and that the policies are the old
  ones or, when the write failed after the rename, the requested ones. A body that is no valid
  request is answered with 400 and changes nothing.
\<close>

theorem set_policy_request:
  assumes "policy_file_ok path (ct_os st)" "honest_faults (ct_os st)" "policies_in path st = Inr ps"
    and "path = pa_policyFile paths" "handleSetDiskPolicy paths body st = (resp, st')"
  shows "(ht_status resp = 200 \<longrightarrow>
      (\<exists>req. decode_set_request body = Inr req \<and> policy_request_ok req \<and>
         policies_in path st' = Inr (set_policies (rq_ID req) (rq_Policy req) ps) \<and>
         (set_policies (rq_ID req) (rq_Policy req) ps \<noteq> ps \<or> durable (os_core (ct_os st)) path \<longrightarrow>
            durable (os_core (ct_os st')) path) \<and>
         ls_pending (ct_loop st'))) \<and>
    (ht_status resp \<noteq> 200 \<longrightarrow> ct_loop st' = ct_loop st \<and>
      (policies_in path st' = Inr ps \<or>
       (\<exists>req. decode_set_request body = Inr req \<and> policies_in path st' = Inr (set_policies (rq_ID req) (rq_Policy req) ps)))) \<and>
    ((\<exists>req. decode_set_request body = Inr req \<and> policy_request_ok req) \<or> ht_status resp = 400 \<and> st' = st)"
proof (cases "decode_set_request body")
  case (Inl err)
  then have "resp = writeError 400 (''invalid JSON body: '' @ Error err)" "st' = st"
    using assms(5) by (simp_all add: handleSetDiskPolicy_def)
  then show ?thesis using assms(3) by (simp add: writeError_def writeJSON_def)
next
  case (Inr req)
  show ?thesis
  proof (cases "policy_request_ok req")
    case False
    then obtain e where e: "policy_Set path (rq_ID req) (rq_Policy req) (ct_os st) = (Some e, ct_os st)"
      "errors_Is e ErrInvalidDiskID \<or> errors_Is e ErrInvalidDiskPolicy"
      using policy_Set_refuses unfolding policy_request_ok_def by blast
    then have "resp = writeError 400 (Error e)" "st' = st"
      using assms(4,5) Inr by (auto simp: handleSetDiskPolicy_def)
    then show ?thesis using assms(3) by (simp add: writeError_def writeJSON_def)
  next
    case True
    obtain err s1 where set: "policy_Set path (rq_ID req) (rq_Policy req) (ct_os st) = (err, s1)"
      by (cases "policy_Set path (rq_ID req) (rq_Policy req) (ct_os st)")
    let ?new = "set_policies (rq_ID req) (rq_Policy req) ps"
    have "policies_updated path (?new \<noteq> ps) ps ?new (ct_os st) (err, s1)"
      using policy_Set_updates [OF assms(1-3)] True decode_set_request_well [OF Inr] set
      by (metis policy_request_ok_def)
    then have upd: "err = None \<longrightarrow> stored_policies path (file_content (os_core s1) path) = Inr ?new \<and>
        (?new \<noteq> ps \<or> durable (os_core (ct_os st)) path \<longrightarrow> durable (os_core s1) path)"
      "stored_policies path (file_content (os_core s1) path) \<in> {Inr ps, Inr ?new}"
      by (auto simp: policies_updated_unfold split: if_splits)
    show ?thesis
    proof (cases err)
      case None
      then show ?thesis
        using assms(4,5) Inr set upd True by (auto simp: handleSetDiskPolicy_def writeJSON_def requestDiskRefresh_def)
    next
      case (Some e)
      then have "ht_status resp \<noteq> 200" "st' = st\<lparr>ct_os := s1\<rparr>"
        using assms(4,5) Inr set by (auto simp: handleSetDiskPolicy_def writeError_def writeJSON_def split: if_splits)
      then show ?thesis using Inr upd(2) True by auto
    qed
  qed
qed

definition example_control :: "(go_error \<times> nat) option list \<Rightarrow> control_state" where
  "example_control fs = \<lparr>ct_os = example_os fs, ct_loop = loop_start\<rparr>"

definition example_control_paths :: diskDataPaths where
  "example_control_paths = \<lparr>pa_disksINI = [], pa_devsINI = [], pa_varINI = [], pa_sysBlockRoot = [], pa_policyFile = example_path,
     pa_sdspin = [], pa_smartctlType = []\<rparr>"

definition example_body :: string where
  "example_body = json_print (JObj [(''id'', JStr ''WDC-1''), (''policy'', JStr ''exclude'')])"

lemma example_set_status: "ht_status (fst (handleSetDiskPolicy example_control_paths example_body (example_control []))) = 200"
  by code_simp

theorem set_policy_request_witness:
  "\<exists>req. decode_set_request example_body = Inr req \<and>
    policies_in example_path (snd (handleSetDiskPolicy example_control_paths example_body (example_control []))) =
      Inr (set_policies (rq_ID req) (rq_Policy req) []) \<and>
    ls_pending (ct_loop (snd (handleSetDiskPolicy example_control_paths example_body (example_control []))))"
proof -
  let ?st = "example_control []"
  have st: "ct_os ?st = example_os []" by (simp add: example_control_def)
  have "honest_faults (ct_os ?st)" "policies_in example_path ?st = Inr []" "example_path = pa_policyFile example_control_paths"
    by (simp_all add: st honest_faults_def example_os_def file_content_def stored_policies_def example_control_paths_def)
  from set_policy_request [OF example_os_ok [of "[]", folded st] this surjective_pairing] show ?thesis
    using example_set_status by auto
qed

end
