(* ===== verification/Diagnostics.thy ===== *)
theory Diagnostics
  imports Publisher
begin

text \<open>
  Diagnostics (\<^verbatim>\<open>diagnostics.go\<close>): the document built from the state of the service and of both
  collectors, and the file it is written to every second. The text of the document is what
  \<^verbatim>\<open>encoding/json\<close> makes of it, dates included; it is an argument of the writer.
\<close>

subsection \<open>Data\<close>

definition diagnosticStatusHealthy :: string where "diagnosticStatusHealthy = ''healthy''"
definition diagnosticStatusStale :: string where "diagnosticStatusStale = ''stale''"
definition diagnosticStatusError :: string where "diagnosticStatusError = ''error''"
definition diagnosticStatusDisabled :: string where "diagnosticStatusDisabled = ''disabled''"
definition diagnosticDiskValid :: string where "diagnosticDiskValid = ''valid''"
definition diagnosticDiskRetained :: string where "diagnosticDiskRetained = ''retained''"
definition diagnosticDiskUnavailable :: string where "diagnosticDiskUnavailable = ''unavailable''"
definition diagnosticDiskStandby :: string where "diagnosticDiskStandby = ''standby''"
definition diagnosticDiskWaking :: string where "diagnosticDiskWaking = ''waking''"

lemmas diagnostic_texts = diagnosticStatusHealthy_def diagnosticStatusStale_def diagnosticStatusError_def
  diagnosticStatusDisabled_def diagnosticDiskValid_def diagnosticDiskRetained_def diagnosticDiskUnavailable_def
  diagnosticDiskStandby_def diagnosticDiskWaking_def

record diagnosticVSOCK =
  dv_Status :: string
  dv_HostCID :: "32 word"
  dv_Port :: "32 word"
  dv_LastConnectedAt :: "time option"
  dv_LastPublishedAt :: "time option"
  dv_LastPublishedAgeSeconds :: "int option"
  dv_LastError :: string
  dv_LastErrorAt :: "time option"

record diagnosticEmhttpd =
  de_Status :: string
  de_LastPollAt :: "time option"
  de_LastPollAgeSeconds :: "int option"
  de_PollAttributes :: string
  de_StaleAfter :: string
  de_TemperatureSource :: string
  de_FallbackActive :: bool
  de_FallbackSince :: "time option"
  de_LastFallbackAttemptAt :: "time option"
  de_LastFallbackAttemptAgeSeconds :: "int option"
  de_Error :: string
  de_FallbackError :: string
  de_FallbackErrorAt :: "time option"

record diagnosticDisk =
  di_Name :: string
  di_ID :: string
  di_Device :: string
  di_Transport :: string
  di_Rotational :: bool
  di_Temperature :: "float64 option"
  di_Status :: string
  di_Source :: string
  di_Spundown :: bool
  di_LastValidAt :: "time option"
  di_LastValidAgeSeconds :: "int option"
  di_Error :: string

record diagnosticDisks =
  dd_Status :: string
  dd_UpdatedAt :: "time option"
  dd_Error :: string
  dd_ErrorAt :: "time option"
  dd_PolicyError :: string
  dd_Items :: "diagnosticDisk list option"

record diagnosticHBA =
  dh_Status :: string
  dh_Mode :: string
  dh_Backend :: string
  dh_Interval :: string
  dh_LastSuccessfulAt :: "time option"
  dh_SnapshotAgeSeconds :: "int option"
  dh_LastError :: string
  dh_LastErrorAt :: "time option"
  dh_Count :: nat
  dh_Items :: "HBA list option"

record diagnosticsSnapshot =
  dg_SchemaVersion :: int
  dg_Version :: string
  dg_PID :: int
  dg_StartedAt :: time
  dg_GeneratedAt :: time
  dg_UptimeSeconds :: int
  dg_VSOCK :: diagnosticVSOCK
  dg_Emhttpd :: diagnosticEmhttpd
  dg_Disks :: diagnosticDisks
  dg_HBA :: diagnosticHBA

subsection \<open>Times\<close>

text \<open>\<^verbatim>\<open>Duration.Seconds\<close>: the quotient and the remainder, each rounded to binary64.\<close>

definition dur_Seconds :: "duration \<Rightarrow> float64" where
  "dur_Seconds d =
    (let sec = sgn d * (\<bar>d\<bar> div second); nsec = sgn d * (\<bar>d\<bar> mod second) in
     case f64_div_fin (of_int nsec) (10 ^ 9) of
       Fin r \<Rightarrow> f64_round (of_int sec + r)
     | x \<Rightarrow> x)"

text \<open>\<^verbatim>\<open>int64(max(0, d.Seconds()))\<close>.\<close>

definition whole_seconds :: "duration \<Rightarrow> int" where
  "whole_seconds d = (case dur_Seconds d of Fin x \<Rightarrow> floor (max 0 x) | _ \<Rightarrow> 0)"

definition timePointer :: "time \<Rightarrow> time option" where
  "timePointer value = (if IsZero value then None else Some value)"

definition ageSeconds :: "time option \<Rightarrow> time \<Rightarrow> int option" where
  "ageSeconds value now = map_option (\<lambda>t. whole_seconds (time_Sub now t)) value"

subsection \<open>Building the document\<close>

definition buildDiagnosticVSOCK :: "publisherRuntimeStatus \<Rightarrow> time \<Rightarrow> diagnosticVSOCK" where
  "buildDiagnosticVSOCK publisher now =
    \<lparr>dv_Status = pr_status publisher, dv_HostCID = pr_hostCID publisher, dv_Port = pr_port publisher,
     dv_LastConnectedAt = timePointer (pr_lastConnectedAt publisher),
     dv_LastPublishedAt = timePointer (pr_lastPublishedAt publisher),
     dv_LastPublishedAgeSeconds = ageSeconds (timePointer (pr_lastPublishedAt publisher)) now,
     dv_LastError = pr_lastError publisher, dv_LastErrorAt = timePointer (pr_lastErrorAt publisher)\<rparr>"

definition diagnostic_disk :: "diskRuntimeDisk \<Rightarrow> diagnosticDisk" where
  "diagnostic_disk runtime =
    (let disk = rt_disk runtime; state = rt_state runtime;
         item = \<lparr>di_Name = ud_name disk, di_ID = ud_id disk, di_Device = ''/dev/'' @ ud_device disk,
           di_Transport = ud_transport disk, di_Rotational = ud_rotational disk, di_Temperature = None, di_Status = [],
           di_Source = source_text (ds_lastSource state), di_Spundown = ud_spundown disk,
           di_LastValidAt = timePointer (ds_lastValidAt state), di_LastValidAgeSeconds = None,
           di_Error = errorText (rt_collectionError runtime)\<rparr>
     in case ds_thermalState state of
          diskThermalValid \<Rightarrow>
            item\<lparr>di_Status := (if rt_reused runtime then diagnosticDiskRetained else diagnosticDiskValid),
                 di_Temperature := Some (disk_Temp (rt_reading runtime))\<rparr>
        | diskThermalStandby \<Rightarrow> item\<lparr>di_Status := diagnosticDiskStandby\<rparr>
        | diskThermalWaking \<Rightarrow> item\<lparr>di_Status := diagnosticDiskWaking\<rparr>
        | diskThermalUnavailable \<Rightarrow> item\<lparr>di_Status := diagnosticDiskUnavailable\<rparr>)"

definition buildDiagnosticDisks :: "diskRuntimeDisk list option \<Rightarrow> diagnosticDisk list option" where
  "buildDiagnosticDisks disks = map_option (map diagnostic_disk) disks"

definition effective_poll :: "smartSourceStatus \<Rightarrow> duration" where
  "effective_poll source =
    (if st_pollInterval source = 0 \<and> \<not> st_initialized source then defaultPollAttributes else st_pollInterval source)"

text \<open>An item under the status of all disks: without a current snapshot a valid one is only retained.\<close>

definition settle_item :: "string \<Rightarrow> time \<Rightarrow> diagnosticDisk \<Rightarrow> diagnosticDisk" where
  "settle_item status now item =
    item\<lparr>di_Status := (if status \<noteq> diagnosticStatusHealthy \<and> di_Status item = diagnosticDiskValid
            then diagnosticDiskRetained else di_Status item),
         di_LastValidAgeSeconds := ageSeconds (di_LastValidAt item) now\<rparr>"

definition diagnostic_disks :: "diskCollectorStatus \<Rightarrow> time \<Rightarrow> diagnosticDisks" where
  "diagnostic_disks disks now =
    (let status = (if cs_err disks \<noteq> None then diagnosticStatusError
                   else if IsZero (cs_updatedAt disks) \<or> cs_stale disks then diagnosticStatusStale
                   else diagnosticStatusHealthy)
     in \<lparr>dd_Status = status, dd_UpdatedAt = timePointer (cs_updatedAt disks), dd_Error = errorText (cs_err disks),
         dd_ErrorAt = timePointer (cs_errorAt disks), dd_PolicyError = cs_policyError disks,
         dd_Items = map_option (map (settle_item status now)) (buildDiagnosticDisks (cs_disks disks))\<rparr>)"

definition diagnostic_emhttpd :: "diskCollectorStatus \<Rightarrow> time \<Rightarrow> diagnosticEmhttpd" where
  "diagnostic_emhttpd disks now =
    (let source = cs_source disks; pollInterval = effective_poll source;
         fallback = (st_source source = diskSourceDirect);
         lastPollAt = (if st_heartbeatSeen source then timePointer (st_lastHeartbeat source) else None)
     in \<lparr>de_Status = (if st_configError source \<noteq> [] then ''unknown/config error''
           else if pollInterval = 0 then ''polling disabled''
           else if fallback then diagnosticStatusStale
           else if lastPollAt = None then ''unknown''
           else diagnosticStatusHealthy),
         de_LastPollAt = lastPollAt,
         de_LastPollAgeSeconds = (if st_heartbeatSeen source then ageSeconds lastPollAt now else None),
         de_PollAttributes = dur_String pollInterval,
         de_StaleAfter = (if 0 < pollInterval then dur_String (dur_add pollInterval emhttpPollMargin) else ''disabled''),
         de_TemperatureSource = source_text (st_source source), de_FallbackActive = fallback,
         de_FallbackSince = timePointer (st_fallbackSince source),
         de_LastFallbackAttemptAt = timePointer (st_lastFallbackAttempt source),
         de_LastFallbackAttemptAgeSeconds = ageSeconds (timePointer (st_lastFallbackAttempt source)) now,
         de_Error = st_configError source, de_FallbackError = st_lastFallbackError source,
         de_FallbackErrorAt = timePointer (st_fallbackErrorAt source)\<rparr>)"

definition buildDiagnosticDiskServices :: "diskCollectorStatus \<Rightarrow> time \<Rightarrow> diagnosticDisks \<times> diagnosticEmhttpd" where
  "buildDiagnosticDiskServices disks now = (diagnostic_disks disks now, diagnostic_emhttpd disks now)"

definition buildDiagnosticHBA :: "hbaCollectorStatus \<Rightarrow> time \<Rightarrow> diagnosticHBA" where
  "buildDiagnosticHBA hbas now =
    \<lparr>dh_Status = (if hs_mode hbas = hbaModeDisabled then diagnosticStatusDisabled
       else if hs_err hbas \<noteq> None then diagnosticStatusError
       else if IsZero (hs_lastSuccessfulAt hbas) \<or> hs_stale hbas then diagnosticStatusStale
       else diagnosticStatusHealthy),
     dh_Mode = hs_mode hbas, dh_Backend = hs_backend hbas, dh_Interval = dur_String (hs_interval hbas),
     dh_LastSuccessfulAt = timePointer (hs_lastSuccessfulAt hbas),
     dh_SnapshotAgeSeconds = ageSeconds (timePointer (hs_lastSuccessfulAt hbas)) now,
     dh_LastError = (if hs_mode hbas = hbaModeDisabled then [] else errorText (hs_err hbas)),
     dh_LastErrorAt = timePointer (hs_lastErrorAt hbas),
     dh_Count = length (elements (hs_lastSuccessfulSnapshot hbas)), dh_Items = hs_lastSuccessfulSnapshot hbas\<rparr>"

definition buildDiagnosticsSnapshot ::
    "string \<Rightarrow> serviceState \<Rightarrow> diskCollectorStatus \<Rightarrow> hbaCollectorStatus \<Rightarrow> time \<Rightarrow> diagnosticsSnapshot" where
  "buildDiagnosticsSnapshot version service disks hbas now =
    (case buildDiagnosticDiskServices disks now of (diagnosticDisks, emhttpd) \<Rightarrow>
      \<lparr>dg_SchemaVersion = 2, dg_Version = version, dg_PID = sv_pid service, dg_StartedAt = sv_startedAt service,
       dg_GeneratedAt = now, dg_UptimeSeconds = whole_seconds (time_Sub now (sv_startedAt service)),
       dg_VSOCK = buildDiagnosticVSOCK (sv_publisher service) now, dg_Emhttpd = emhttpd, dg_Disks = diagnosticDisks,
       dg_HBA = buildDiagnosticHBA hbas now\<rparr>)"

subsection \<open>Writing it\<close>

definition diagnostics_tmp_prefix :: "string \<Rightarrow> string" where
  "diagnostics_tmp_prefix path = path_Join [Dir path, ''.diagnostics-'']"

definition writeDiagnosticsAtomic ::
    "(diagnosticsSnapshot \<Rightarrow> string result) \<Rightarrow> string \<Rightarrow> diagnosticsSnapshot \<Rightarrow> os_state \<Rightarrow> go_error option \<times> os_state" where
  "writeDiagnosticsAtomic encode path snapshot s =
    (let prepare = [(SMkdirAll, \<lambda>e. e), (SCreateTemp (diagnostics_tmp_prefix path), \<lambda>e. e), (SChmod, \<lambda>e. e)] in
     case encode snapshot of
       Inl err \<Rightarrow> (case replace_file path prepare s of (Some e, s1) \<Rightarrow> (Some e, s1) | (None, s1) \<Rightarrow> (Some err, s1))
     | Inr text \<Rightarrow> replace_file path (prepare @ [(SWrite text, \<lambda>e. e), (SClose, \<lambda>e. e), (SRename, \<lambda>e. e)]) s)"

text \<open>\<^verbatim>\<open>runDiagnostics\<close>: a write at once and one per tick, until the context ends.\<close>

record 'r diagnostics_tick =
  dt_service :: serviceState
  dt_disks :: diskCollector
  dt_diskNow :: time
  dt_hbas :: "'r hbaCollector"
  dt_hbaNow :: time
  dt_now :: time

record diagnostics_writer =
  dw_os :: os_state
  dw_log :: stickyErrorLog
  dw_lines :: "string list"

definition tick_snapshot :: "string \<Rightarrow> 'r diagnostics_tick \<Rightarrow> diagnosticsSnapshot" where
  "tick_snapshot version t =
    buildDiagnosticsSnapshot version (service_status (dt_service t)) (disk_status (dt_disks t) (dt_diskNow t))
      (hba_status (dt_hbas t) (dt_hbaNow t)) (dt_now t)"

definition diagnostics_write ::
    "(diagnosticsSnapshot \<Rightarrow> string result) \<Rightarrow> string \<Rightarrow> string \<Rightarrow> diagnostics_writer \<Rightarrow> 'r diagnostics_tick \<Rightarrow> diagnostics_writer" where
  "diagnostics_write encode version path w t =
    (case writeDiagnosticsAtomic encode path (tick_snapshot version t) (dw_os w) of (err, s1) \<Rightarrow>
       case sticky_update (dw_log w) err of (l, lines) \<Rightarrow>
         w\<lparr>dw_os := s1, dw_log := l, dw_lines := dw_lines w @ lines\<rparr>)"

definition runDiagnostics ::
    "(diagnosticsSnapshot \<Rightarrow> string result) \<Rightarrow> string \<Rightarrow> string \<Rightarrow> os_state \<Rightarrow> 'r diagnostics_tick list \<Rightarrow> diagnostics_writer" where
  "runDiagnostics encode version path s ticks =
    run_events (diagnostics_write encode version path)
      \<lparr>dw_os = s, dw_log = \<lparr>sticky_context = ''diagnostics snapshot'', sticky_last = []\<rparr>, dw_lines = []\<rparr> ticks"

subsection \<open>Diagnostics and publication agree\<close>

lemma disk_healthy_iff:
  assumes "diskSnapshotTimeout \<le> now"
  shows "dd_Status (diagnostic_disks (disk_status c now) now') = diagnosticStatusHealthy \<longleftrightarrow> (\<exists>rs. disk_snapshot c now = Inr rs)"
  using assms
  by (auto simp: diagnostic_disks_def disk_status_def disk_snapshot_def disk_stale_def go_simps diagnostic_texts Let_def
      split: option.splits)

lemma hba_status_cases:
  assumes "dur_add (hc_interval c) hbaCollectionTimeout \<le> now"
  shows "dh_Status (buildDiagnosticHBA (hba_status c now) now') = diagnosticStatusDisabled \<longleftrightarrow> hc_mode c = hbaModeDisabled"
    "dh_Status (buildDiagnosticHBA (hba_status c now) now') = diagnosticStatusHealthy \<longleftrightarrow>
      hc_mode c \<noteq> hbaModeDisabled \<and> hba_snapshot c now = Inr (hc_lastSuccessfulSnapshot c)"
  using assms
  by (auto simp: buildDiagnosticHBA_def hba_status_def hba_snapshot_def hba_stale_def go_simps diagnostic_texts Let_def
      split: option.splits)

definition item_shows :: "diagnosticDisk \<Rightarrow> Disk \<Rightarrow> bool" where
  "item_shows item reading = (di_Temperature item = None \<or> di_Temperature item = Some (disk_Temp reading))"

lemma diagnostic_disk_shows: "item_shows (diagnostic_disk r) (rt_reading r)"
  by (simp add: item_shows_def diagnostic_disk_def Let_def split: diskThermalState.split)

lemma items_show:
  "list_all2 item_shows (elements (dd_Items (diagnostic_disks (disk_status c now) now')))
    (map rt_reading (elements (dc_lastSuccessfulSnapshot c)))"
proof -
  have "list_all2 item_shows (map (settle_item status now') (map diagnostic_disk rs)) (map rt_reading rs)" for status rs
  proof (induction rs)
    case (Cons r rs)
    then show ?case using diagnostic_disk_shows [of r] by (simp add: item_shows_def settle_item_def)
  qed simp
  then show ?thesis
    by (cases "dc_lastSuccessfulSnapshot c") (simp_all add: diagnostic_disks_def buildDiagnosticDisks_def disk_status_def Let_def)
qed

lemma diagnostic_disk_valid: "di_Status (diagnostic_disk r) = diagnosticDiskValid \<Longrightarrow> di_Temperature (diagnostic_disk r) \<noteq> None"
  by (cases "ds_thermalState (rt_state r)") (simp_all add: diagnostic_disk_def diagnostic_texts Let_def split: if_splits)

lemma settle_item_valid:
  "di_Status (settle_item status now item) = diagnosticDiskValid \<Longrightarrow> status = diagnosticStatusHealthy \<and> di_Status item = diagnosticDiskValid"
  by (simp add: settle_item_def diagnostic_texts split: if_splits)

lemma settle_item_temperature: "di_Temperature (settle_item status now item) = di_Temperature item"
  by (simp add: settle_item_def)

lemma valid_items:
  assumes "item \<in> set (elements (dd_Items (diagnostic_disks d now)))" "di_Status item = diagnosticDiskValid"
  shows "dd_Status (diagnostic_disks d now) = diagnosticStatusHealthy \<and> di_Temperature item \<noteq> None"
proof -
  obtain r where "item = settle_item (dd_Status (diagnostic_disks d now)) now (diagnostic_disk r)"
    using assms(1) by (cases "cs_disks d") (auto simp: diagnostic_disks_def buildDiagnosticDisks_def Let_def)
  then show ?thesis using assms(2) diagnostic_disk_valid by (metis settle_item_valid settle_item_temperature)
qed

text \<open>
  C17: Diagnostics tell what is published. At any moment (past the first seconds of the zero time) the
  document says that the disks are healthy exactly when a snapshot built then carries disk readings,
  that the HBAs are disabled exactly when their collection is, and that they are healthy exactly
  when it is not and that snapshot carries HBA readings. While they are healthy the document lists
  the HBA readings of that snapshot, and for each of its disks the temperature in it or none. When
  the disks are not healthy it lists the disks of the last successful snapshot instead, and none of
  them as valid.
\<close>

theorem diagnostics_agree:
  assumes "diskSnapshotTimeout \<le> now" "dur_add (hc_interval hbas) hbaCollectionTimeout \<le> now"
  shows "let doc = buildDiagnosticsSnapshot version service (disk_status disks now) (hba_status hbas now) now;
      sent = collectorSnapshot disks now hbas now in
    (dd_Status (dg_Disks doc) = diagnosticStatusHealthy \<longleftrightarrow> (\<exists>rs. disk_snapshot disks now = Inr rs)) \<and>
    (dh_Status (dg_HBA doc) = diagnosticStatusDisabled \<longleftrightarrow> hc_mode hbas = hbaModeDisabled) \<and>
    (dh_Status (dg_HBA doc) = diagnosticStatusHealthy \<longleftrightarrow>
      hc_mode hbas \<noteq> hbaModeDisabled \<and> (\<exists>rs. hba_snapshot hbas now = Inr rs)) \<and>
    (dh_Status (dg_HBA doc) = diagnosticStatusHealthy \<longrightarrow> dh_Items (dg_HBA doc) = resp_HBAs sent) \<and>
    (dd_Status (dg_Disks doc) = diagnosticStatusHealthy \<longrightarrow>
      list_all2 item_shows (elements (dd_Items (dg_Disks doc))) (elements (resp_Disks sent))) \<and>
    list_all2 item_shows (elements (dd_Items (dg_Disks doc))) (map rt_reading (elements (dc_lastSuccessfulSnapshot disks))) \<and>
    (\<forall>item \<in> set (elements (dd_Items (dg_Disks doc))). di_Status item = diagnosticDiskValid \<longrightarrow>
      dd_Status (dg_Disks doc) = diagnosticStatusHealthy \<and> di_Temperature item \<noteq> None)"
proof -
  have disks: "elements (resp_Disks (collectorSnapshot disks now hbas now)) = map rt_reading (elements (dc_lastSuccessfulSnapshot disks))"
    if "\<exists>rs. disk_snapshot disks now = Inr rs"
    using that by (cases "dc_lastSuccessfulSnapshot disks")
      (auto simp: collectorSnapshot_def disk_snapshot_def diskReadingsFromRuntime_def Let_def split: option.splits if_splits)
  have hba: "hc_mode hbas \<noteq> hbaModeDisabled \<Longrightarrow>
      (\<exists>rs. hba_snapshot hbas now = Inr rs) \<longleftrightarrow> hba_snapshot hbas now = Inr (hc_lastSuccessfulSnapshot hbas)"
    by (auto simp: hba_snapshot_def split: option.splits if_splits)
  have items: "dh_Items (buildDiagnosticHBA (hba_status hbas now) now) = resp_HBAs (collectorSnapshot disks now hbas now)"
    if "hba_snapshot hbas now = Inr (hc_lastSuccessfulSnapshot hbas)"
    using that by (simp add: buildDiagnosticHBA_def hba_status_def collectorSnapshot_def Let_def split: sum.split)
  show ?thesis
    using disk_healthy_iff [OF assms(1), of disks now] hba_status_cases [OF assms(2), of now] hba items disks
      items_show [of disks now now] valid_items [of _ "disk_status disks now" now]
    by (auto simp: buildDiagnosticsSnapshot_def buildDiagnosticDiskServices_def Let_def)
qed

definition example_runtime :: diskRuntimeDisk where
  "example_runtime = runtime_zero\<lparr>rt_reading := (rt_reading runtime_zero)\<lparr>disk_ID := ''S1'', disk_Temp := Fin 37\<rparr>,
     rt_state := diskState_zero\<lparr>ds_thermalState := diskThermalValid\<rparr>\<rparr>"

definition example_disk_cache :: diskCollector where
  "example_disk_cache =
    (newDiskCollector \<lparr>pa_disksINI = [], pa_devsINI = [], pa_varINI = [], pa_sysBlockRoot = [], pa_policyFile = [],
       pa_sdspin = [], pa_smartctlType = []\<rparr>)
    \<lparr>dc_err := None, dc_updatedAt := 100 * second, dc_lastSuccessfulSnapshot := Some [example_runtime]\<rparr>"

definition example_hbas :: "unit hbaCollector" where
  "example_hbas = \<lparr>hc_interval = 15 * second, hc_mode = hbaModeEnabled, hc_backend = hbaBackendMPT3CTL,
     hc_err = Some (errors_New ''no controller''), hc_lastSuccessfulAt = time_zero, hc_lastErrorAt = 90 * second,
     hc_lastSuccessfulSnapshot = None, hc_reader = ()\<rparr>"

theorem diagnostics_agree_witness:
  "let doc = buildDiagnosticsSnapshot ''dev'' (newServiceState 990 0 1) (disk_status example_disk_cache (101 * second))
        (hba_status example_hbas (101 * second)) (101 * second) in
    dd_Status (dg_Disks doc) = diagnosticStatusHealthy \<and>
    dh_Status (dg_HBA doc) \<noteq> diagnosticStatusHealthy \<and> dh_Status (dg_HBA doc) \<noteq> diagnosticStatusDisabled \<and>
    list_all2 item_shows (elements (dd_Items (dg_Disks doc)))
      (elements (resp_Disks (collectorSnapshot example_disk_cache (101 * second) example_hbas (101 * second))))"
proof -
  have now: "diskSnapshotTimeout \<le> 101 * second" "dur_add (hc_interval example_hbas) (15 * second) \<le> 101 * second"
    by (simp_all add: example_hbas_def dur_add_def wrap64_def)
  have d: "\<exists>rs. disk_snapshot example_disk_cache (101 * second) = Inr rs"
    by (simp add: disk_snapshot_def example_disk_cache_def disk_stale_def go_simps)
  have h: "\<not> (\<exists>rs. hba_snapshot example_hbas (101 * second) = Inr rs)" "hc_mode example_hbas \<noteq> hbaModeDisabled"
    by (simp_all add: hba_snapshot_def example_hbas_def hbaModeEnabled_def hbaModeDisabled_def)
  show ?thesis
    using diagnostics_agree [OF now, of "''dev''" "newServiceState 990 0 1" example_disk_cache] d h by (auto simp: Let_def)
qed

end
