(* ===== verification/Commands.thy ===== *)
theory Commands
  imports Guest_Host Control_Server Diagnostics
begin

text \<open>
  The commands (\<^verbatim>\<open>main.go\<close>, \<^verbatim>\<open>hwmon\<close> and \<^verbatim>\<open>runHWMon\<close> of \<^verbatim>\<open>hwmon.go\<close>): the checks on the options, the
  state the daemons start with, and what the signal of the web interface does. The options are the
  values the \<^verbatim>\<open>flag\<close> package parsed.
\<close>

subsection \<open>Choosing a command\<close>

datatype command = CmdServe "string list" | CmdHwmon "string list" | CmdVersion | CmdUsage

fun main_command :: "string list \<Rightarrow> command" where
  "main_command (program # name # args) =
    (if name = ''serve'' then CmdServe args
     else if name = ''hwmon'' then CmdHwmon args
     else if name = ''version'' \<or> name = ''--version'' then CmdVersion
     else CmdUsage)"
| "main_command _ = CmdUsage"

subsection \<open>The guest\<close>

definition defaultControlSocketPath :: string where
  "defaultControlSocketPath = ''/run/unraid-vsock-sensors/control.sock''"

record serve_options =
  so_nargs :: nat
  so_port :: "64 word"
  so_mode :: string
  so_backend :: string
  so_syslog :: bool

record daemon =
  dm_service :: serviceState
  dm_disks :: diskCollector
  dm_hbas :: "hba_reader hbaCollector"
  dm_loop :: loop_state

definition check_serve_options :: "serve_options \<Rightarrow> hba_reader hbaCollector result" where
  "check_serve_options opts =
    (if so_nargs opts \<noteq> 0 then Inl (errors_New ''serve does not accept positional arguments'')
     else if so_mode opts \<noteq> hbaModeEnabled \<and> so_mode opts \<noteq> hbaModeDisabled
     then Inl (errors_New (''invalid HBA mode '' @ quote (so_mode opts) @ '' (expected enabled or disabled)''))
     else case ValidatePort (so_port opts) of
       Some err \<Rightarrow> Inl err
     | None \<Rightarrow> newConfiguredHBACollector (so_mode opts) (so_backend opts))"

text \<open>\<^verbatim>\<open>serve\<close> up to the loops: the daemon or the error, the socket's node, and the lines logged.\<close>

definition serve_start ::
    "string \<Rightarrow> diskDataPaths \<Rightarrow> serve_options \<Rightarrow> go_error option \<Rightarrow> socket_calls \<Rightarrow> socket_node \<Rightarrow> time \<Rightarrow> int \<Rightarrow>
     daemon result \<times> socket_node \<times> string list" where
  "serve_start version paths opts syslogErr calls node now pid =
    (case check_serve_options opts of
       Inl err \<Rightarrow> (Inl err, node, [])
     | Inr hbas \<Rightarrow>
         if so_syslog opts \<and> syslogErr \<noteq> None
         then (Inl (Errorf_w ''connect to syslog: '' (the syslogErr) []), node, [])
         else
           (let d = \<lparr>dm_service = newServiceState (ucast (so_port opts)) now pid, dm_disks = newDiskCollector paths,
                     dm_hbas = hbas, dm_loop = loop_start\<rparr>;
                started = ''starting unraid-vsock-sensors v'' @ version @ ''; pushing to host VSOCK port '' @
                  digits 10 (unat (so_port opts))
            in case startControlPlane defaultControlSocketPath calls node of
                 (Some err, node1, lines) \<Rightarrow> (Inl err, node1, started # lines)
               | (None, node1, lines) \<Rightarrow> (Inr d, node1, started # lines)))"

text \<open>The signal \<^verbatim>\<open>SIGUSR2\<close>: a heartbeat and a request for a refresh.\<close>

definition on_poll_signal :: "time \<Rightarrow> daemon \<Rightarrow> daemon" where
  "on_poll_signal now d =
    d\<lparr>dm_disks := collector_noteEmhttpPoll now (dm_disks d), dm_loop := requestDiskRefresh (dm_loop d)\<rparr>"

lemma serve_start_ok:
  assumes "serve_start version paths opts syslogErr calls node now pid = (Inr d, node', lines)"
  shows "unat (pr_port (sv_publisher (dm_service d))) = unat (so_port opts)" "hc_mode (dm_hbas d) = so_mode opts"
    "service_inv (dm_service d)" "dm_disks d = newDiskCollector paths"
proof -
  obtain hbas where h: "check_serve_options opts = Inr hbas"
    and d: "d = \<lparr>dm_service = newServiceState (ucast (so_port opts)) now pid, dm_disks = newDiskCollector paths,
       dm_hbas = hbas, dm_loop = loop_start\<rparr>"
    using assms by (auto simp: serve_start_def Let_def split: sum.splits if_splits prod.splits option.splits)
  have p: "ValidatePort (so_port opts) = None" "newConfiguredHBACollector (so_mode opts) (so_backend opts) = Inr hbas"
    using h by (auto simp: check_serve_options_def split: if_splits option.splits)
  then have "\<not> so_port opts > vsock_Max" by (auto simp: ValidatePort_def split: if_splits)
  then show "unat (pr_port (sv_publisher (dm_service d))) = unat (so_port opts)"
    using below_vsock_Max(1) by (simp add: d newServiceState_def)
  show "hc_mode (dm_hbas d) = so_mode opts" using configured_cases [OF p(2)] by (simp add: d)
  show "service_inv (dm_service d)" "dm_disks d = newDiskCollector paths" by (simp_all add: d)
qed

subsection \<open>The host\<close>

record hwmonConfig =
  hg_cid :: "32 word"
  hg_port :: "32 word"
  hg_cachePath :: string

definition hwmon_config :: "nat \<Rightarrow> 64 word \<Rightarrow> 64 word \<Rightarrow> string \<Rightarrow> hwmonConfig result" where
  "hwmon_config nargs cid port cache =
    (if nargs \<noteq> 0 then Inl (errors_New ''hwmon does not accept positional arguments'')
     else case ValidateCID cid of
       Some err \<Rightarrow> Inl err
     | None \<Rightarrow>
         (case ValidatePort port of
            Some err \<Rightarrow> Inl err
          | None \<Rightarrow>
              if TrimSpace cache = [] then Inl (errors_New ''cache path must not be empty'')
              else Inr \<lparr>hg_cid = ucast cid, hg_port = ucast port, hg_cachePath = cache\<rparr>))"

text \<open>
  \<^verbatim>\<open>runHWMon\<close>: the outcome of listening, then the restored host in its loop. The snapshots among the
  events are those the receiver hands over, and its result is the background error.
\<close>

definition runHWMon ::
    "hwmonConfig \<Rightarrow> go_error option \<Rightarrow> hwmon_kernel \<Rightarrow> os_state \<Rightarrow> select_event list \<Rightarrow> go_error + hwmon_host \<times> go_error option option" where
  "runHWMon config listenErr k s events =
    (case listenErr of
       Some err \<Rightarrow> Inl (Errorf_w (''listen on vsock port '' @ digits 10 (unat (hg_port config)) @ '': '') err [])
     | None \<Rightarrow>
         let h = start_host (hg_cachePath config) k s;
             announce = ''receiving Unraid snapshots on VSOCK port '' @ digits 10 (unat (hg_port config)) @
               '' and publishing them through virt_temp configfs and per-sensor devices''
         in Inr (hwmonOrchestrationLoop (h\<lparr>hh_lines := announce # hh_lines h\<rparr>) events))"

lemma hwmon_config_ok:
  assumes "hwmon_config nargs cid port cache = Inr config"
  shows "unat (hg_cid config) = unat cid" "unat (hg_port config) = unat port" "3 \<le> unat (hg_cid config)" "hg_cachePath config \<noteq> []"
proof -
  have v: "ValidateCID cid = None" "ValidatePort port = None" "TrimSpace cache \<noteq> []"
    and c: "config = \<lparr>hg_cid = ucast cid, hg_port = ucast port, hg_cachePath = cache\<rparr>"
    using assms by (auto simp: hwmon_config_def split: if_splits option.splits)
  have "\<not> cid < 3" "\<not> cid > vsock_Max" "\<not> port > vsock_Max" using v by (auto simp: ValidateCID_def ValidatePort_def split: if_splits)
  moreover have "3 \<le> unat cid" using \<open>\<not> cid < 3\<close> by (simp add: word_less_nat_alt)
  ultimately show "unat (hg_cid config) = unat cid" "unat (hg_port config) = unat port" "3 \<le> unat (hg_cid config)"
    using below_vsock_Max(1) by (simp_all add: c)
  have "TrimSpace [] = []" by (simp add: TrimSpace_def trim_both_def)
  then show "hg_cachePath config \<noteq> []" using v(3) by (auto simp: c)
qed

end
